(* ===== verification/Prelude.thy ===== *)
theory Prelude
  imports Main "HOL-Library.Word"
begin

text \<open>
  Shared vocabulary of the development: the machine integer types of the Go code, the error
  values of the three packages (\<^verbatim>\<open>vsock/errors.go\<close>, \<^verbatim>\<open>drive/errors.go\<close>,
  \<^verbatim>\<open>vm/errors.go\<close>) and of the parts of the standard library they meet, the result type
  of a fallible call, and generic lemmas on words, lists and maps.

  Conventions used by every theory: a call that returns \<open>(T, error)\<close> has a result of type
  \<open>'t result\<close>, \<open>Inl\<close> for a non-nil error; a call that returns only an \<open>error\<close> has a result of type
  \<open>error option\<close>, \<open>None\<close> for nil; a call that may never return has an \<open>option\<close> around its result and
  \<open>None\<close> means that it does not return. Go's \<open>int\<close> is taken to have 64 bits, so that the
  conversions \<open>int(x)\<close> of a \<open>uint32\<close> are exact.
\<close>

unbundle bit_operations_syntax

section \<open>Machine integers\<close>

type_synonym byte = "8 word"
type_synonym u16 = "16 word"
type_synonym u32 = "32 word"
type_synonym u64 = "64 word"

section \<open>Errors\<close>

datatype vsock_error =
    ErrInvalidTypeID
  | ErrInvalidCodecType
  | ErrInvalidVsockPort
  | ErrNilTransport
  | ErrNilCodec
  | ErrNilHandler
  | ErrNilMessage
  | ErrHandlerAlreadyRegistered
  | ErrUnhandledMessageType
  | ErrDuplicateMessageID

datatype drive_error =
    ErrInvalidParameter
  | ErrDriveNotValid
  | ErrDriveAlreadyMounted
  | ErrDriveNotMounted
  | ErrNoMountMethodAvailable
  | ErrEncryptionUnavailable

datatype vm_error =
    ErrVMInvalidParameter
  | ErrCannotDetermineStatus
  | ErrVMAlreadyStarted
  | ErrVMNotStarted
  | ErrFailedToStartVM
  | ErrEnvInvalidFile
  | ErrConfigValidation

text \<open>The sentinel errors of the standard library that the code compares against.\<close>

datatype lib_error =
    EOF
  | ErrUnexpectedEOF
  | ErrNetClosed
  | ErrCanceled
  | ErrDeadlineExceeded
  | ErrNotExist
  | ErrShortWrite
  | ErrClosedPipe
  | ErrFileClosed
  | ErrFileExists
  | ErrNotDir
  | ErrIsDir
  | ErrTooManyLinks

text \<open>
  An error value is a sentinel, a text made by \<^verbatim>\<open>fmt.Errorf\<close> without \<^verbatim>\<open>%w\<close> or by
  \<^verbatim>\<open>errors.New\<close> (\<open>Msg\<close>), a text wrapping another error (\<open>Wrap\<close>) or two errors
  (\<open>Wrap2\<close>), or an error that comes from outside the program (\<open>External\<close>).
\<close>

datatype error =
    VsockE vsock_error
  | DriveE drive_error
  | VmE vm_error
  | LibE lib_error
  | Msg string
  | Wrap string error
  | Wrap2 string error error
  | External nat

text \<open>\<^verbatim>\<open>errors.Is\<close>: the error itself or one that it wraps.\<close>

fun errors_Is :: "error \<Rightarrow> error \<Rightarrow> bool" where
  "errors_Is (Wrap s e) t = (Wrap s e = t \<or> errors_Is e t)"
| "errors_Is (Wrap2 s e f) t = (Wrap2 s e f = t \<or> errors_Is e t \<or> errors_Is f t)"
| "errors_Is e t = (e = t)"

lemma errors_Is_refl [simp]: "errors_Is e e"
  by (cases e) auto

type_synonym 'a result = "error + 'a"

text \<open>
  What a call does as a whole, where it may dereference a nil pointer or may wait for ever (for a lock it holds
  itself, for other goroutines, for a reader that never ends).
\<close>

datatype 'a outcome = Return 'a | Panic | Blocked

text \<open>
  The idiom \<^verbatim>\<open>if err != nil { return nil, err }\<close> after a call with a value, and after a call with only an
  error, where the state is handed on.
\<close>

definition if_ok :: "'a result \<times> 's \<Rightarrow> ('a \<Rightarrow> 's \<Rightarrow> 'b result \<times> 's) \<Rightarrow> 'b result \<times> 's" where
  "if_ok r k = (case r of (Inl e, s) \<Rightarrow> (Inl e, s) | (Inr x, s) \<Rightarrow> k x s)"

definition if_nil :: "error option \<times> 's \<Rightarrow> ('s \<Rightarrow> 'b result \<times> 's) \<Rightarrow> 'b result \<times> 's" where
  "if_nil r k = (case r of (Some e, s) \<Rightarrow> (Inl e, s) | (None, s) \<Rightarrow> k s)"

lemma if_ok_simps [simp]: "if_ok (Inl e, s) k = (Inl e, s)" "if_ok (Inr x, s) k = k x s"
  by (simp_all add: if_ok_def)

lemma if_nil_simps [simp]: "if_nil (Some e, s) k = (Inl e, s)" "if_nil (None, s) k = k s"
  by (simp_all add: if_nil_def)

text \<open>
  The texts of errors, for the places where the code looks at \<^verbatim>\<open>err.Error()\<close> or sends it to the other side. A
  formatted text is kept without its arguments and with the error it wraps at the end.
\<close>

fun lib_text :: "lib_error \<Rightarrow> string" where
  "lib_text EOF = ''EOF''"
| "lib_text ErrUnexpectedEOF = ''unexpected EOF''"
| "lib_text ErrNetClosed = ''use of closed network connection''"
| "lib_text ErrCanceled = ''context canceled''"
| "lib_text ErrDeadlineExceeded = ''context deadline exceeded''"
| "lib_text ErrNotExist = ''file does not exist''"
| "lib_text ErrShortWrite = ''short write''"
| "lib_text ErrClosedPipe = ''io: read/write on closed pipe''"
| "lib_text ErrFileClosed = ''file already closed''"
| "lib_text ErrFileExists = ''file already exists''"
| "lib_text ErrNotDir = ''not a directory''"
| "lib_text ErrIsDir = ''is a directory''"
| "lib_text ErrTooManyLinks = ''too many levels of symbolic links''"

fun vsock_text :: "vsock_error \<Rightarrow> string" where
  "vsock_text ErrInvalidTypeID = ''invalid typeID''"
| "vsock_text ErrInvalidCodecType = ''invalid codec type''"
| "vsock_text ErrInvalidVsockPort = ''invalid vsock port''"
| "vsock_text ErrNilTransport = ''nil transport''"
| "vsock_text ErrNilCodec = ''nil codec''"
| "vsock_text ErrNilHandler = ''nil handler''"
| "vsock_text ErrNilMessage = ''nil message''"
| "vsock_text ErrHandlerAlreadyRegistered = ''handler already registered''"
| "vsock_text ErrUnhandledMessageType = ''unhandled message type''"
| "vsock_text ErrDuplicateMessageID = ''duplicate message ID''"

fun drive_text :: "drive_error \<Rightarrow> string" where
  "drive_text ErrInvalidParameter = ''invalid parameter''"
| "drive_text ErrDriveNotValid = ''drive not valid''"
| "drive_text ErrDriveAlreadyMounted = ''drive already mounted''"
| "drive_text ErrDriveNotMounted = ''drive not mounted''"
| "drive_text ErrNoMountMethodAvailable = ''no usable mount method available''"
| "drive_text ErrEncryptionUnavailable = ''encryption tooling unavailable''"

fun vm_text :: "vm_error \<Rightarrow> string" where
  "vm_text ErrVMInvalidParameter = ''invalid parameter''"
| "vm_text ErrCannotDetermineStatus = ''cannot determine status''"
| "vm_text ErrVMAlreadyStarted = ''VM already started''"
| "vm_text ErrVMNotStarted = ''VM not started''"
| "vm_text ErrFailedToStartVM = ''failed to start VM''"
| "vm_text ErrEnvInvalidFile = ''invalid environment file''"
| "vm_text ErrConfigValidation = ''configuration validation failed''"

fun error_text :: "error \<Rightarrow> string" where
  "error_text (Msg s) = s"
| "error_text (Wrap s e) = s @ '': '' @ error_text e"
| "error_text (Wrap2 s e f) = error_text e @ '': '' @ s @ '': '' @ error_text f"
| "error_text (LibE e) = lib_text e"
| "error_text (VsockE e) = vsock_text e"
| "error_text (DriveE e) = drive_text e"
| "error_text (VmE e) = vm_text e"
| "error_text (External n) = ''external error''"

section \<open>Strings and bytes\<close>

text \<open>A Go string is a sequence of bytes; a character here is one byte.\<close>

definition bytes_of :: "string \<Rightarrow> byte list" where
  "bytes_of s = map of_char s"

definition string_of :: "byte list \<Rightarrow> string" where
  "string_of bs = map (\<lambda>b. char_of (unat b)) bs"

lemma string_of_bytes_of [simp]: "string_of (bytes_of s) = s"
proof -
  have "char_of (unat (of_char c :: byte)) = c" for c
  proof -
    have "(of_char c :: byte) = of_nat (of_char c)" by (simp add: of_nat_of_char)
    moreover have "of_char c < (256 :: nat)" by simp
    ultimately have "unat (of_char c :: byte) = of_char c"
      by (simp add: unsigned_of_nat take_bit_nat_eq_self)
    then show ?thesis by simp
  qed
  then show ?thesis by (simp add: string_of_def bytes_of_def comp_def)
qed

lemma length_bytes_of [simp]: "length (bytes_of s) = length s"
  by (simp add: bytes_of_def)

section \<open>Collections of facts\<close>

named_theorems wire_simps \<open>equations between bytes on the wire and decoded values\<close>
named_theorems table_simps \<open>what the operations on a table of waiters do to it\<close>
named_theorems path_simps \<open>equations between path strings and their components\<close>

section \<open>Words, lists and maps\<close>

lemma unat_of_nat_u32:
  "n < 2 ^ 32 \<Longrightarrow> unat (of_nat n :: u32) = n"
  by (simp add: unsigned_of_nat take_bit_nat_eq_self)

lemma unat_of_nat_u16:
  "n < 2 ^ 16 \<Longrightarrow> unat (of_nat n :: u16) = n"
  by (simp add: unsigned_of_nat take_bit_nat_eq_self)

lemma unat_u32_less: "unat (w :: u32) < 2 ^ 32"
  using unsigned_less [of w] by simp

lemma unat_u16_less: "unat (w :: u16) < 2 ^ 16"
  using unsigned_less [of w] by simp

lemma take_length_append [simp]: "length xs = n \<Longrightarrow> take n (xs @ ys) = xs"
  by auto

lemma drop_length_append [simp]: "length xs = n \<Longrightarrow> drop n (xs @ ys) = ys"
  by auto

lemma ran_upd_None: "ran (m(k := None)) \<subseteq> ran m"
  by (auto simp: ran_def)

lemma ran_upd_Some_subset: "ran (m(k \<mapsto> v)) \<subseteq> insert v (ran m)"
  by (auto simp: ran_def)

lemma fun_upd_None_of_Some: "(m(k \<mapsto> v))(k := None) = m(k := None)"
  by simp

end
