(* ===== verification/Go_IO.thy ===== *)
theory Go_IO
  imports Prelude
begin

text \<open>
  The parts of Go's \<^verbatim>\<open>io\<close>, \<^verbatim>\<open>bytes\<close> and \<^verbatim>\<open>encoding/binary\<close> packages that the
  code runs on: big-endian integers, readers, \<^verbatim>\<open>io.LimitedReader\<close>,
  \<^verbatim>\<open>io.MultiReader\<close>, \<^verbatim>\<open>io.ReadFull\<close>, \<^verbatim>\<open>io.ReadAll\<close> and \<^verbatim>\<open>io.Copy\<close>.

  A reader is a state together with its \<^verbatim>\<open>Read\<close> method, which is passed as an argument
  (\<open>rd s n\<close> reads into a buffer of \<open>n\<close> bytes and returns the bytes, the error and the new state).
  The loops of the library are \<^theory_text>\<open>partial_function\<close>s: a reader that returns
  \<open>(0, nil)\<close> for ever makes them run for ever, which is the value \<open>None\<close>. The locale
  \<open>reader\<close> states the documented behaviour of a reader that makes progress and proves once what the loops
  return on it; the interpretations at the end discharge it for a network connection, a byte
  reader, a limited reader and a sequence of readers.
\<close>

section \<open>Big-endian integers\<close>

text \<open>\<^verbatim>\<open>binary.BigEndian.PutUintN\<close> writes the most significant byte first.\<close>

fun put_be :: "nat \<Rightarrow> 'a::len word \<Rightarrow> byte list" where
  "put_be 0 w = []"
| "put_be (Suc k) w = ucast (drop_bit (8 * k) w) # put_be k w"

text \<open>\<^verbatim>\<open>binary.BigEndian.UintN\<close>.\<close>

definition get_be :: "byte list \<Rightarrow> 'a::len word" where
  "get_be bs = foldl (\<lambda>acc b. push_bit 8 acc OR ucast b) 0 bs"

definition PutUint64 :: "u64 \<Rightarrow> byte list" where "PutUint64 w = put_be 8 w"
definition PutUint32 :: "u32 \<Rightarrow> byte list" where "PutUint32 w = put_be 4 w"
definition PutUint16 :: "u16 \<Rightarrow> byte list" where "PutUint16 w = put_be 2 w"
definition Uint64 :: "byte list \<Rightarrow> u64" where "Uint64 bs = get_be bs"
definition Uint32 :: "byte list \<Rightarrow> u32" where "Uint32 bs = get_be bs"
definition Uint16 :: "byte list \<Rightarrow> u16" where "Uint16 bs = get_be bs"

lemma length_put_be [simp]: "length (put_be k w) = k"
  by (induction k) auto

lemma foldl_put_be:
  "foldl (\<lambda>acc b. push_bit 8 acc OR ucast b) a (put_be k w) = push_bit (8 * k) a OR take_bit (8 * k) w"
  for a w :: "'a::len word"
proof (induction k arbitrary: a)
  case 0
  then show ?case by simp
next
  case (Suc k)
  have "foldl (\<lambda>acc b. push_bit 8 acc OR ucast b) a (put_be (Suc k) w)
      = push_bit (8 * k) (push_bit 8 a OR ucast (ucast (drop_bit (8 * k) w) :: byte)) OR take_bit (8 * k) w"
    by (simp add: Suc.IH)
  also have "\<dots> = push_bit (8 * Suc k) a OR take_bit (8 * Suc k) w"
    by (rule bit_eqI) (auto simp: bit_simps not_le not_less algebra_simps)
  finally show ?case .
qed

lemma get_be_put_be:
  "get_be (put_be k w) = take_bit (8 * k) w"
  by (simp add: get_be_def foldl_put_be)

lemma Uint64_PutUint64 [simp, wire_simps]: "Uint64 (PutUint64 w) = w"
  by (simp add: Uint64_def PutUint64_def get_be_put_be take_bit_word_eq_self)

lemma Uint32_PutUint32 [simp, wire_simps]: "Uint32 (PutUint32 w) = w"
  by (simp add: Uint32_def PutUint32_def get_be_put_be take_bit_word_eq_self)

lemma Uint16_PutUint16 [simp, wire_simps]: "Uint16 (PutUint16 w) = w"
  by (simp add: Uint16_def PutUint16_def get_be_put_be take_bit_word_eq_self)

lemma length_PutUint [simp]:
  "length (PutUint64 w) = 8" "length (PutUint32 v) = 4" "length (PutUint16 u) = 2"
  by (simp_all add: PutUint64_def PutUint32_def PutUint16_def)

lemma get_be_snoc: "get_be (bs @ [b]) = push_bit 8 (get_be bs) OR ucast b"
  by (simp add: get_be_def)

lemma put_be_snoc: "put_be (Suc k) w = put_be k (drop_bit 8 w) @ [ucast w]"
  by (induction k) (simp_all add: add.commute)

lemma bit_get_be_beyond: "8 * length bs \<le> n \<Longrightarrow> \<not> bit (get_be bs :: 'a::len word) n"
proof (induction bs arbitrary: n rule: rev_induct)
  case Nil
  then show ?case by (simp add: get_be_def)
next
  case (snoc b bs)
  then have "\<not> bit (get_be bs :: 'a word) (n - 8)" by simp
  moreover have "\<not> bit b n"
    using bit_imp_le_length [of b n] snoc.prems by auto
  ultimately show ?case
    using snoc.prems by (auto simp: get_be_snoc bit_simps)
qed

lemma put_be_get_be:
  "length bs = k \<Longrightarrow> 8 * k \<le> LENGTH('a) \<Longrightarrow> put_be k (get_be bs :: 'a::len word) = bs"
proof (induction bs arbitrary: k rule: rev_induct)
  case Nil
  then show ?case by simp
next
  case (snoc b bs)
  then have k: "k = Suc (length bs)" and len: "8 * length bs + 8 \<le> LENGTH('a)" by auto
  have "drop_bit 8 (push_bit 8 (get_be bs) OR ucast b :: 'a word) = get_be bs"
  proof (rule bit_eqI)
    fix n
    have b: "\<not> bit b (8 + n)" using bit_imp_le_length [of b "8 + n"] by auto
    show "bit (drop_bit 8 (push_bit 8 (get_be bs) OR ucast b :: 'a word)) n = bit (get_be bs :: 'a word) n"
    proof (cases "n + 8 < LENGTH('a)")
      case True
      with b show ?thesis by (auto simp: bit_simps)
    next
      case False
      with len have "\<not> bit (get_be bs :: 'a word) n"
        by (intro bit_get_be_beyond) simp
      with b False show ?thesis by (auto simp: bit_simps)
    qed
  qed
  moreover have "ucast (push_bit 8 (get_be bs) OR ucast b :: 'a word) = b"
    using len by (intro bit_eqI) (auto simp: bit_simps)
  ultimately show ?case
    using snoc.IH [of "length bs"] len by (simp only: k put_be_snoc get_be_snoc)
qed

lemma PutUint64_Uint64 [wire_simps]: "length bs = 8 \<Longrightarrow> PutUint64 (Uint64 bs) = bs"
  by (simp add: PutUint64_def Uint64_def put_be_get_be)

lemma PutUint32_Uint32 [wire_simps]: "length bs = 4 \<Longrightarrow> PutUint32 (Uint32 bs) = bs"
  by (simp add: PutUint32_def Uint32_def put_be_get_be)

lemma PutUint16_Uint16 [wire_simps]: "length bs = 2 \<Longrightarrow> PutUint16 (Uint16 bs) = bs"
  by (simp add: PutUint16_def Uint16_def put_be_get_be)

section \<open>Readers\<close>

type_synonym 's rres = "byte list \<times> error option \<times> 's"

text \<open>
  A network connection or a file read to its end: the segments that successive
  calls will find, then a final error which every later call returns again. A call
  never returns more than one segment, so short reads are any choice of the segments.
\<close>

type_synonym conn = "byte list list \<times> error"

fun conn_read :: "conn \<Rightarrow> nat \<Rightarrow> conn rres" where
  "conn_read ([], x) n = ([], Some x, ([], x))"
| "conn_read (bs # s, x) n =
     (if length bs \<le> n then (bs, None, (s, x)) else (take n bs, None, (drop n bs # s, x)))"

text \<open>\<^verbatim>\<open>bytes.Reader.Read\<close> on the bytes that are left.\<close>

definition bytes_read :: "byte list \<Rightarrow> nat \<Rightarrow> byte list rres" where
  "bytes_read bs n =
     (if bs = [] then ([], Some (LibE EOF), []) else (take n bs, None, drop n bs))"

text \<open>\<^verbatim>\<open>io.LimitedReader.Read\<close>: at most \<open>N\<close> more bytes, then EOF.\<close>

definition limited_read :: "('s \<Rightarrow> nat \<Rightarrow> 's rres) \<Rightarrow> 's \<times> nat \<Rightarrow> nat \<Rightarrow> ('s \<times> nat) rres" where
  "limited_read rd l n =
     (case l of (s, N) \<Rightarrow>
        if N = 0 then ([], Some (LibE EOF), (s, 0))
        else (case rd s (min n N) of (bs, e, s') \<Rightarrow> (bs, e, (s', N - length bs))))"

text \<open>\<^verbatim>\<open>io.MultiReader\<close>: the readers one after the other.\<close>

fun multi_read :: "('s \<Rightarrow> nat \<Rightarrow> 's rres) \<Rightarrow> 's list \<Rightarrow> nat \<Rightarrow> 's list rres" where
  "multi_read rd [] n = ([], Some (LibE EOF), [])"
| "multi_read rd (s # ss) n =
     (case rd s n of (bs, e, s') \<Rightarrow>
        if e = Some (LibE EOF) then
          (if bs \<noteq> [] then (bs, if ss = [] then e else None, ss) else multi_read rd ss n)
        else (bs, e, s' # ss))"

section \<open>The loops of the io package\<close>

text \<open>
  \<^verbatim>\<open>io.ReadFull\<close> is \<^verbatim>\<open>io.ReadAtLeast\<close> with the length of the buffer: it reads until
  the buffer is full or an error comes; an EOF after some but not all bytes is
  \<^verbatim>\<open>io.ErrUnexpectedEOF\<close>.
\<close>

partial_function (option) read_full_loop ::
  "('s \<Rightarrow> nat \<Rightarrow> 's rres) \<Rightarrow> nat \<Rightarrow> byte list \<Rightarrow> 's \<Rightarrow> 's rres option" where
  "read_full_loop rd need acc s =
     (if need \<le> length acc then Some (acc, None, s)
      else (case rd s (need - length acc) of (bs, e, s') \<Rightarrow>
              (case e of
                 None \<Rightarrow> read_full_loop rd need (acc @ bs) s'
               | Some x \<Rightarrow> Some (acc @ bs, Some x, s'))))"

definition io_ReadFull :: "('s \<Rightarrow> nat \<Rightarrow> 's rres) \<Rightarrow> nat \<Rightarrow> 's \<Rightarrow> 's rres option" where
  "io_ReadFull rd need s =
     map_option
       (\<lambda>(bs, e, s').
          (bs,
           (if need \<le> length bs then None
            else if bs \<noteq> [] \<and> e = Some (LibE EOF) then Some (LibE ErrUnexpectedEOF)
            else e),
           s'))
       (read_full_loop rd need [] s)"

text \<open>
  \<^verbatim>\<open>io.ReadAll\<close>: read until an error; EOF is not an error. The buffer starts with 512
  bytes and grows; the result does not depend on its size (\<open>read_all_loop_spec\<close>).
\<close>

partial_function (option) read_all_loop ::
  "('s \<Rightarrow> nat \<Rightarrow> 's rres) \<Rightarrow> nat \<Rightarrow> byte list \<Rightarrow> 's \<Rightarrow> 's rres option" where
  "read_all_loop rd k acc s =
     (case rd s k of (bs, e, s') \<Rightarrow>
        (case e of
           None \<Rightarrow> read_all_loop rd k (acc @ bs) s'
         | Some x \<Rightarrow> Some (acc @ bs, if x = LibE EOF then None else Some x, s')))"

definition io_ReadAll :: "('s \<Rightarrow> nat \<Rightarrow> 's rres) \<Rightarrow> 's \<Rightarrow> 's rres option" where
  "io_ReadAll rd s = read_all_loop rd 512 [] s"

text \<open>
  \<^verbatim>\<open>io.Copy\<close> with a writer \<open>wr w bs\<close> that takes all bytes or returns an error; it returns the
  number of bytes written, the error and both states.
\<close>

partial_function (option) copy_loop ::
  "('s \<Rightarrow> nat \<Rightarrow> 's rres) \<Rightarrow> ('w \<Rightarrow> byte list \<Rightarrow> error option \<times> 'w) \<Rightarrow> nat \<Rightarrow> nat \<Rightarrow> 's \<Rightarrow> 'w
     \<Rightarrow> (nat \<times> error option \<times> 's \<times> 'w) option" where
  "copy_loop rd wr k written s w =
     (case rd s k of (bs, e, s') \<Rightarrow>
        (case (if bs = [] then (None, w) else wr w bs) of (we, w') \<Rightarrow>
           (case we of
              Some x \<Rightarrow> Some (written, Some x, s', w')
            | None \<Rightarrow>
                (case e of
                   None \<Rightarrow> copy_loop rd wr k (written + length bs) s' w'
                 | Some x \<Rightarrow>
                     Some (written + length bs, if x = LibE EOF then None else Some x, s', w')))))"

definition io_Copy ::
  "('s \<Rightarrow> nat \<Rightarrow> 's rres) \<Rightarrow> ('w \<Rightarrow> byte list \<Rightarrow> error option \<times> 'w) \<Rightarrow> 's \<Rightarrow> 'w
     \<Rightarrow> (nat \<times> error option \<times> 's \<times> 'w) option" where
  "io_Copy rd wr s w = copy_loop rd wr 32768 0 s w"

text \<open>\<^verbatim>\<open>io.Discard\<close> and a growing buffer as writers.\<close>

definition discard_write :: "unit \<Rightarrow> byte list \<Rightarrow> error option \<times> unit" where
  "discard_write w bs = (None, ())"

definition buffer_write :: "byte list \<Rightarrow> byte list \<Rightarrow> error option \<times> byte list" where
  "buffer_write w bs = (None, w @ bs)"

section \<open>What a reader promises, and what the loops return on it\<close>

text \<open>
  \<open>avail s\<close> are the bytes that the reader will still deliver before its final error \<open>fin s\<close>, and
  \<open>meas s\<close> bounds the number of calls it takes. An error comes alone and stays: the connection,
  file and byte readers of the standard library behave so.
\<close>

locale reader =
  fixes rd :: "'s \<Rightarrow> nat \<Rightarrow> 's rres"
    and avail :: "'s \<Rightarrow> byte list"
    and fin :: "'s \<Rightarrow> error"
    and meas :: "'s \<Rightarrow> nat"
  assumes rd_ok:
      "rd s n = (bs, None, s') \<Longrightarrow> length bs \<le> n \<and> avail s = bs @ avail s' \<and> fin s' = fin s"
    and rd_progress: "rd s n = (bs, None, s') \<Longrightarrow> 0 < n \<Longrightarrow> meas s' < meas s"
    and rd_stop:
      "rd s n = (bs, Some x, s') \<Longrightarrow>
         bs = [] \<and> x = fin s \<and> avail s = [] \<and> avail s' = [] \<and> fin s' = fin s"
begin

lemma read_full_loop_ok:
  "need \<le> length acc + length (avail s) \<Longrightarrow>
   \<exists>s'. read_full_loop rd need acc s = Some (acc @ take (need - length acc) (avail s), None, s')
        \<and> avail s' = drop (need - length acc) (avail s) \<and> fin s' = fin s"
proof (induction "meas s" arbitrary: s acc rule: less_induct)
  case less
  show ?case
  proof (cases "need \<le> length acc")
    case True
    then show ?thesis by (simp add: read_full_loop.simps)
  next
    case False
    obtain bs e s1 where r: "rd s (need - length acc) = (bs, e, s1)" by (cases "rd s (need - length acc)")
    show ?thesis
    proof (cases e)
      case None
      with r have len: "length bs \<le> need - length acc" and av: "avail s = bs @ avail s1"
        and fin: "fin s1 = fin s" and m: "meas s1 < meas s"
        using rd_ok rd_progress False by auto
      from less.prems av have "need \<le> length (acc @ bs) + length (avail s1)" by simp
      from less.hyps [OF m this] len av fin None r False show ?thesis
        by (auto simp: read_full_loop.simps [of rd need acc s])
    next
      case (Some x)
      with r rd_stop have "avail s = []" by blast
      with less.prems False show ?thesis by simp
    qed
  qed
qed

lemma read_full_loop_short:
  "length acc + length (avail s) < need \<Longrightarrow>
   \<exists>s'. read_full_loop rd need acc s = Some (acc @ avail s, Some (fin s), s')
        \<and> avail s' = [] \<and> fin s' = fin s"
proof (induction "meas s" arbitrary: s acc rule: less_induct)
  case less
  then have need: "0 < need - length acc" by simp
  obtain bs e s1 where r: "rd s (need - length acc) = (bs, e, s1)" by (cases "rd s (need - length acc)")
  show ?case
  proof (cases e)
    case None
    with r have av: "avail s = bs @ avail s1" and fin: "fin s1 = fin s" and m: "meas s1 < meas s"
      using rd_ok rd_progress need by auto
    from less.prems av have "length (acc @ bs) + length (avail s1) < need" by simp
    from less.hyps [OF m this] av fin None r need show ?thesis
      by (auto simp: read_full_loop.simps [of rd need acc s])
  next
    case (Some x)
    with r rd_stop have "bs = []" "x = fin s" "avail s = []" "avail s1 = []" "fin s1 = fin s" by blast+
    with Some r need show ?thesis by (simp add: read_full_loop.simps [of rd need acc s])
  qed
qed

lemma ReadFull_ok:
  assumes "need \<le> length (avail s)"
  shows "\<exists>s'. io_ReadFull rd need s = Some (take need (avail s), None, s')
              \<and> avail s' = drop need (avail s) \<and> fin s' = fin s"
  using read_full_loop_ok [of need "[]" s] assms by (auto simp: io_ReadFull_def)

lemma ReadFull_short:
  assumes "length (avail s) < need"
  shows "\<exists>s'. io_ReadFull rd need s =
            Some (avail s, Some (if avail s \<noteq> [] \<and> fin s = LibE EOF then LibE ErrUnexpectedEOF else fin s), s')
              \<and> avail s' = [] \<and> fin s' = fin s"
  using read_full_loop_short [of "[]" s need] assms by (fastforce simp: io_ReadFull_def)

lemma read_all_loop_spec:
  "0 < k \<Longrightarrow>
   \<exists>s'. read_all_loop rd k acc s = Some (acc @ avail s, if fin s = LibE EOF then None else Some (fin s), s')
        \<and> avail s' = [] \<and> fin s' = fin s"
proof (induction "meas s" arbitrary: s acc rule: less_induct)
  case less
  obtain bs e s1 where r: "rd s k = (bs, e, s1)" by (cases "rd s k")
  show ?case
  proof (cases e)
    case None
    with r have av: "avail s = bs @ avail s1" and fin: "fin s1 = fin s" and m: "meas s1 < meas s"
      using rd_ok rd_progress less.prems by auto
    from less.hyps [OF m less.prems, of "acc @ bs"] av fin None r show ?thesis
      by (auto simp: read_all_loop.simps [of rd k acc s])
  next
    case (Some x)
    with r rd_stop have "bs = []" "x = fin s" "avail s = []" "avail s1 = []" "fin s1 = fin s" by blast+
    with Some r show ?thesis by (simp add: read_all_loop.simps [of rd k acc s])
  qed
qed

lemma ReadAll_spec:
  "\<exists>s'. io_ReadAll rd s = Some (avail s, if fin s = LibE EOF then None else Some (fin s), s')
        \<and> avail s' = [] \<and> fin s' = fin s"
  using read_all_loop_spec [of 512 "[]" s] by (simp add: io_ReadAll_def)

lemma copy_loop_total_writer:
  assumes wr: "\<And>w bs. fst (wr w bs) = None" and k: "0 < k"
  shows "\<exists>s' w'. copy_loop rd wr k written s w =
            Some (written + length (avail s), if fin s = LibE EOF then None else Some (fin s), s', w')
          \<and> avail s' = [] \<and> fin s' = fin s"
proof (induction "meas s" arbitrary: s w written rule: less_induct)
  case less
  obtain bs e s1 where r: "rd s k = (bs, e, s1)" by (cases "rd s k")
  obtain w1 where w1: "(if bs = [] then (None, w) else wr w bs) = (None, w1)"
    using wr [of w bs] by (cases "bs = []"; cases "wr w bs") auto
  show ?case
  proof (cases e)
    case None
    with r have av: "avail s = bs @ avail s1" and fin: "fin s1 = fin s" and m: "meas s1 < meas s"
      using rd_ok rd_progress k by auto
    from less.hyps [OF m, of "written + length bs" w1] av fin None r w1 show ?thesis
      by (auto simp: copy_loop.simps [of rd wr k written s w] add.assoc)
  next
    case (Some x)
    with r rd_stop have "bs = []" "x = fin s" "avail s = []" "avail s1 = []" "fin s1 = fin s" by blast+
    with Some r show ?thesis by (simp add: copy_loop.simps [of rd wr k written s w])
  qed
qed

text \<open>A writer that takes everything as long as it is in a state \<open>Q\<close>, which writing does not leave.\<close>

lemma copy_loop_willing_writer:
  assumes wr: "\<And>w bs. Q w \<Longrightarrow> fst (wr w bs) = None \<and> Q (snd (wr w bs)) \<and> out (snd (wr w bs)) = out w @ bs"
    and k: "0 < k"
  shows "Q w \<Longrightarrow> \<exists>s' w'. copy_loop rd wr k written s w =
            Some (written + length (avail s), if fin s = LibE EOF then None else Some (fin s), s', w')
          \<and> Q w' \<and> out w' = out w @ avail s"
proof (induction "meas s" arbitrary: s w written rule: less_induct)
  case less
  obtain bs e s1 where r: "rd s k = (bs, e, s1)" by (cases "rd s k")
  obtain w1 where w1: "(if bs = [] then (None, w) else wr w bs) = (None, w1)" and Q: "Q w1" and o: "out w1 = out w @ bs"
    using wr [OF less.prems, of bs] less.prems by (cases "bs = []"; cases "wr w bs") auto
  show ?case
  proof (cases e)
    case None
    with r have av: "avail s = bs @ avail s1" and fin: "fin s1 = fin s" and m: "meas s1 < meas s"
      using rd_ok rd_progress k by auto
    from less.hyps [OF m Q, of "written + length bs"] av fin None r w1 o show ?thesis
      by (auto simp: copy_loop.simps [of rd wr k written s w] add.assoc)
  next
    case (Some x)
    with r rd_stop have "bs = []" "x = fin s" "avail s = []" by blast+
    with Some r less.prems show ?thesis by (simp add: copy_loop.simps [of rd wr k written s w])
  qed
qed

text \<open>What every \<open>Read\<close> call keeps, the loops keep.\<close>

lemma read_full_loop_inv:
  assumes step: "\<And>s n bs e s'. P s \<Longrightarrow> rd s n = (bs, e, s') \<Longrightarrow> P s'"
  shows "P s \<Longrightarrow> read_full_loop rd need acc s = Some (r, err, s') \<Longrightarrow> P s'"
proof (induction "meas s" arbitrary: s acc rule: less_induct)
  case less
  obtain bs e s1 where r: "rd s (need - length acc) = (bs, e, s1)" by (cases "rd s (need - length acc)")
  with less.prems step have "P s1" by blast
  from less.prems(2) r show ?case
    unfolding read_full_loop.simps [of rd need acc s]
    using \<open>P s1\<close> less.prems(1) less.hyps [of s1] rd_progress [of s "need - length acc" bs s1]
    by (cases e) (auto split: if_splits)
qed

lemma read_all_loop_inv:
  assumes step: "\<And>s n bs e s'. P s \<Longrightarrow> rd s n = (bs, e, s') \<Longrightarrow> P s'" and k: "0 < k"
  shows "P s \<Longrightarrow> read_all_loop rd k acc s = Some (r, err, s') \<Longrightarrow> P s'"
proof (induction "meas s" arbitrary: s acc rule: less_induct)
  case less
  obtain bs e s1 where r: "rd s k = (bs, e, s1)" by (cases "rd s k")
  with less.prems step have "P s1" by blast
  from less.prems(2) r show ?case
    unfolding read_all_loop.simps [of rd k acc s]
    using \<open>P s1\<close> less.hyps [of s1] rd_progress [of s k bs s1] k
    by (cases e) auto
qed

lemma copy_loop_inv:
  assumes step: "\<And>s n bs e s'. P s \<Longrightarrow> rd s n = (bs, e, s') \<Longrightarrow> P s'" and k: "0 < k"
  shows "P s \<Longrightarrow> copy_loop rd wr k written s w = Some (n, err, s', w') \<Longrightarrow> P s'"
proof (induction "meas s" arbitrary: s w written rule: less_induct)
  case less
  obtain bs e s1 where r: "rd s k = (bs, e, s1)" by (cases "rd s k")
  with less.prems step have "P s1" by blast
  from less.prems(2) r show ?case
    unfolding copy_loop.simps [of rd wr k written s w]
    using \<open>P s1\<close> less.hyps [of s1] rd_progress [of s k bs s1] k
    by (cases e) (auto split: option.splits prod.splits)
qed

text \<open>Copying comes back whatever the writer does, and keeps what every write keeps.\<close>

lemma copy_loop_writer:
  assumes wr: "\<And>w bs. P w \<Longrightarrow> P (snd (wr w bs))" and k: "0 < k"
  shows "P w \<Longrightarrow> \<exists>n err s' w'. copy_loop rd wr k written s w = Some (n, err, s', w') \<and> P w'"
proof (induction "meas s" arbitrary: s w written rule: less_induct)
  case less
  obtain bs e s1 where r: "rd s k = (bs, e, s1)" by (cases "rd s k")
  obtain we w1 where w1: "(if bs = [] then (None, w) else wr w bs) = (we, w1)"
    by (cases "if bs = [] then (None, w) else wr w bs")
  have P: "P w1" using wr [OF less.prems, of bs] less.prems w1 by (auto split: if_splits)
  show ?case
  proof (cases "e = None \<and> we = None")
    case True
    with r have "meas s1 < meas s" using rd_progress k by blast
    from less.hyps [OF this P, of "written + length bs"] True r w1 show ?thesis
      by (simp add: copy_loop.simps [of rd wr k written s w])
  next
    case False
    with r w1 P show ?thesis
      by (cases we; cases e) (auto simp: copy_loop.simps [of rd wr k written s w])
  qed
qed

lemma Copy_writer:
  assumes "\<And>w bs. P w \<Longrightarrow> P (snd (wr w bs))" and "P w"
  shows "\<exists>n err s' w'. io_Copy rd wr s w = Some (n, err, s', w') \<and> P w'"
  unfolding io_Copy_def by (rule copy_loop_writer) (use assms in auto)

lemma ReadFull_inv:
  assumes step: "\<And>s n bs e s'. P s \<Longrightarrow> rd s n = (bs, e, s') \<Longrightarrow> P s'"
    and "P s" and "io_ReadFull rd need s = Some (r, err, s')"
  shows "P s'"
proof -
  from assms(3) obtain err0 where "read_full_loop rd need [] s = Some (r, err0, s')"
    by (auto simp: io_ReadFull_def)
  show ?thesis
    by (rule read_full_loop_inv [where P = P, OF _ assms(2) \<open>read_full_loop rd need [] s = Some (r, err0, s')\<close>])
       (rule step)
qed

lemma ReadFull_total: "\<exists>bs err s'. io_ReadFull rd need s = Some (bs, err, s')"
  using ReadFull_ok [of need s] ReadFull_short [of s need] by (meson not_le)

lemma Copy_total_writer:
  assumes "\<And>w bs. fst (wr w bs) = None"
  shows "\<exists>s' w'. io_Copy rd wr s w =
            Some (length (avail s), if fin s = LibE EOF then None else Some (fin s), s', w')
          \<and> avail s' = [] \<and> fin s' = fin s"
  using copy_loop_total_writer [of wr 32768 0 s w] assms by (simp add: io_Copy_def)

end

text \<open>
  A writer that keeps what it took: \<open>out w\<close> is what it holds, and a failing call may have taken a
  prefix of its argument.
\<close>

locale copier = reader rd avail fin meas
  for rd :: "'s \<Rightarrow> nat \<Rightarrow> 's rres" and avail fin meas +
  fixes wr :: "'w \<Rightarrow> byte list \<Rightarrow> error option \<times> 'w"
    and out :: "'w \<Rightarrow> byte list"
  assumes wr_ok: "wr w bs = (None, w') \<Longrightarrow> out w' = out w @ bs"
    and wr_fail: "wr w bs = (Some x, w') \<Longrightarrow> \<exists>p q. bs = p @ q \<and> out w' = out w @ p"
begin

lemma copy_loop_spec:
  "0 < k \<Longrightarrow>
   \<exists>n err s' w'. copy_loop rd wr k written s w = Some (n, err, s', w')
     \<and> (\<exists>p q. avail s = p @ q \<and> out w' = out w @ p)
     \<and> (err = None \<longrightarrow> fin s = LibE EOF \<and> out w' = out w @ avail s \<and> n = written + length (avail s) \<and> avail s' = [])"
proof (induction "meas s" arbitrary: s w written rule: less_induct)
  case less
  obtain bs e s1 where r: "rd s k = (bs, e, s1)" by (cases "rd s k")
  obtain we w1 where w1: "(if bs = [] then (None, w) else wr w bs) = (we, w1)"
    by (cases "if bs = [] then (None, w) else wr w bs")
  note step = copy_loop.simps [of rd wr k written s w] r w1
  show ?case
  proof (cases e)
    case None
    with r have av: "avail s = bs @ avail s1" and fin: "fin s1 = fin s" and m: "meas s1 < meas s"
      using rd_ok rd_progress less.prems by auto
    show ?thesis
    proof (cases we)
      case we: None
      with w1 have o1: "out w1 = out w @ bs" by (auto split: if_splits dest: wr_ok)
      from less.hyps [OF m less.prems, of "written + length bs" w1]
      obtain n err s' w' p q where c: "copy_loop rd wr k (written + length bs) s1 w1 = Some (n, err, s', w')"
        and pq: "avail s1 = p @ q" "out w' = out w1 @ p"
        and ok: "err = None \<longrightarrow> fin s1 = LibE EOF \<and> out w' = out w1 @ avail s1
                   \<and> n = written + length bs + length (avail s1) \<and> avail s' = []" by blast
      from pq o1 av have "avail s = (bs @ p) @ q \<and> out w' = out w @ bs @ p" by simp
      then have "\<exists>p q. avail s = p @ q \<and> out w' = out w @ p" by blast
      with c ok o1 av fin None we show ?thesis by (auto simp: step)
    next
      case (Some x)
      with w1 obtain p q where "bs = p @ q" "out w1 = out w @ p"
        by (cases "bs = []") (auto dest: wr_fail)
      with av have "avail s = p @ (q @ avail s1) \<and> out w1 = out w @ p" by simp
      then have "\<exists>p q. avail s = p @ q \<and> out w1 = out w @ p" by blast
      with Some None show ?thesis by (auto simp: step)
    qed
  next
    case (Some x)
    with r rd_stop have "bs = []" "x = fin s" "avail s = []" "avail s1 = []" by blast+
    moreover with w1 have "w1 = w" "we = None" by auto
    ultimately show ?thesis using Some by (auto simp: step)
  qed
qed

lemma Copy_spec:
  "\<exists>n err s' w'. io_Copy rd wr s w = Some (n, err, s', w')
     \<and> (\<exists>p q. avail s = p @ q \<and> out w' = out w @ p)
     \<and> (err = None \<longrightarrow> fin s = LibE EOF \<and> out w' = out w @ avail s \<and> n = length (avail s) \<and> avail s' = [])"
  using copy_loop_spec [of 32768 0 s w] by (simp add: io_Copy_def)

end

section \<open>The readers of the program\<close>

fun conn_avail :: "conn \<Rightarrow> byte list" where
  "conn_avail (ss, x) = concat ss"

fun conn_fin :: "conn \<Rightarrow> error" where
  "conn_fin (ss, x) = x"

fun conn_meas :: "conn \<Rightarrow> nat" where
  "conn_meas (ss, x) = length ss + length (concat ss)"

interpretation conn: reader conn_read conn_avail conn_fin conn_meas
proof
  fix s n bs s'
  assume r: "conn_read s n = (bs, None, s')"
  then show "length bs \<le> n \<and> conn_avail s = bs @ conn_avail s' \<and> conn_fin s' = conn_fin s"
    by (cases "(s, n)" rule: conn_read.cases) (auto split: if_splits)
  assume "0 < n"
  with r show "conn_meas s' < conn_meas s"
    by (cases "(s, n)" rule: conn_read.cases) (auto split: if_splits)
next
  fix s n bs x s'
  assume "conn_read s n = (bs, Some x, s')"
  then show "bs = [] \<and> x = conn_fin s \<and> conn_avail s = [] \<and> conn_avail s' = [] \<and> conn_fin s' = conn_fin s"
    by (cases "(s, n)" rule: conn_read.cases) (auto split: if_splits)
qed

interpretation bytes: reader bytes_read "\<lambda>bs. bs" "\<lambda>_. LibE EOF" length
  by unfold_locales (auto simp: bytes_read_def split: if_splits)

definition limited_avail :: "('s \<Rightarrow> byte list) \<Rightarrow> 's \<times> nat \<Rightarrow> byte list" where
  "limited_avail avail l = take (snd l) (avail (fst l))"

definition limited_fin :: "('s \<Rightarrow> byte list) \<Rightarrow> ('s \<Rightarrow> error) \<Rightarrow> 's \<times> nat \<Rightarrow> error" where
  "limited_fin avail fin l = (if snd l \<le> length (avail (fst l)) then LibE EOF else fin (fst l))"

fun multi_avail :: "('s \<Rightarrow> byte list) \<Rightarrow> ('s \<Rightarrow> error) \<Rightarrow> 's list \<Rightarrow> byte list" where
  "multi_avail avail fin [] = []"
| "multi_avail avail fin (s # ss) = avail s @ (if fin s = LibE EOF then multi_avail avail fin ss else [])"

fun multi_fin :: "('s \<Rightarrow> error) \<Rightarrow> 's list \<Rightarrow> error" where
  "multi_fin fin [] = LibE EOF"
| "multi_fin fin (s # ss) = (if fin s = LibE EOF then multi_fin fin ss else fin s)"

fun multi_meas :: "('s \<Rightarrow> nat) \<Rightarrow> 's list \<Rightarrow> nat" where
  "multi_meas meas [] = 0"
| "multi_meas meas (s # ss) = Suc (meas s) + multi_meas meas ss"

text \<open>
  A limited reader and a sequence of readers are readers whenever what they wrap is one. (These
  are lemmas that build an instance, not sublocales: a sublocale of a locale into
  itself would not terminate.)
\<close>

context reader begin

lemma limited_reader:
  "reader (limited_read rd) (limited_avail avail) (limited_fin avail fin) (\<lambda>l. meas (fst l))"
proof
  fix l :: "'s \<times> nat" and n bs l'
  assume r: "limited_read rd l n = (bs, None, l')"
  obtain s N where l: "l = (s, N)" by (cases l)
  from r l obtain s' where N: "N \<noteq> 0" and s': "rd s (min n N) = (bs, None, s')" and l': "l' = (s', N - length bs)"
    by (auto simp: limited_read_def split: if_splits prod.splits)
  from rd_ok [OF s'] show "length bs \<le> n \<and> limited_avail avail l = bs @ limited_avail avail l'
      \<and> limited_fin avail fin l' = limited_fin avail fin l"
    by (auto simp: l l' limited_avail_def limited_fin_def)
  assume "0 < n"
  with rd_progress [OF s'] N show "meas (fst l') < meas (fst l)" by (simp add: l l')
next
  fix l :: "'s \<times> nat" and n bs x l'
  assume "limited_read rd l n = (bs, Some x, l')"
  then show "bs = [] \<and> x = limited_fin avail fin l \<and> limited_avail avail l = [] \<and> limited_avail avail l' = []
      \<and> limited_fin avail fin l' = limited_fin avail fin l"
    by (cases l) (auto simp: limited_read_def limited_avail_def limited_fin_def dest!: rd_stop
        split: if_splits prod.splits)
qed

lemma multi_reader:
  "reader (multi_read rd) (multi_avail avail fin) (multi_fin fin) (multi_meas meas)"
proof
  fix ss n bs ss'
  assume r: "multi_read rd ss n = (bs, None, ss')"
  then show "length bs \<le> n \<and> multi_avail avail fin ss = bs @ multi_avail avail fin ss'
      \<and> multi_fin fin ss' = multi_fin fin ss"
    by (induction ss)
       (auto dest!: rd_ok rd_stop split: if_splits prod.splits)
  assume "0 < n"
  with r show "multi_meas meas ss' < multi_meas meas ss"
    by (induction ss)
       (fastforce dest: rd_progress rd_stop split: if_splits prod.splits)+
next
  fix ss n bs x ss'
  assume "multi_read rd ss n = (bs, Some x, ss')"
  then show "bs = [] \<and> x = multi_fin fin ss \<and> multi_avail avail fin ss = [] \<and> multi_avail avail fin ss' = []
      \<and> multi_fin fin ss' = multi_fin fin ss"
    by (induction ss)
       (auto dest!: rd_stop split: if_splits prod.splits)
qed

end

interpretation conn_limited: reader "limited_read conn_read" "limited_avail conn_avail"
    "limited_fin conn_avail conn_fin" "\<lambda>l. conn_meas (fst l)"
  by (rule conn.limited_reader)

interpretation conn_multi: reader "multi_read conn_read" "multi_avail conn_avail conn_fin"
    "multi_fin conn_fin" "multi_meas conn_meas"
  by (rule conn.multi_reader)

interpretation conn_to_buffer: copier conn_read conn_avail conn_fin conn_meas buffer_write "\<lambda>w. w"
  by unfold_locales (auto simp: buffer_write_def)

end
