(* ===== verification/Message.thy ===== *)
theory Message
  imports Go_IO
begin

text \<open>
  \<^verbatim>\<open>vsock/message.go\<close>: the message envelope, its buffered and streamed payload, and its
  binary form. The payload reader of a received message wraps the connection itself, so every
  operation that reads takes the connection and returns it: \<open>OnConn\<close> stands for the pointer to
  \<^verbatim>\<open>m.vsock\<close>, \<open>OnBytes\<close> for a \<^verbatim>\<open>bytes.Reader\<close> with the bytes it has left.
\<close>

section \<open>Data\<close>

record header =
  ID :: u64
  MsgType :: u32
  Length :: u32

datatype source = OnConn | OnBytes "byte list"

text \<open>
  \<open>payloadReader\<close> is the \<^verbatim>\<open>io.LimitedReader\<close> (its \<open>R\<close> and \<open>N\<close>) or nil; \<open>payloadCache\<close> is a
  byte slice or nil, and the code distinguishes a nil slice from an empty one.
\<close>

record message = header +
  payloadReader :: "(source \<times> nat) option"
  payloadCache :: "byte list option"

definition headerLength :: nat where "headerLength = 16"

fun src_read :: "source \<times> conn \<Rightarrow> nat \<Rightarrow> (source \<times> conn) rres" where
  "src_read (OnConn, c) n = (case conn_read c n of (bs, e, c') \<Rightarrow> (bs, e, (OnConn, c')))"
| "src_read (OnBytes b, c) n = (case bytes_read b n of (bs, e, b') \<Rightarrow> (bs, e, (OnBytes b', c)))"

fun src_avail :: "source \<times> conn \<Rightarrow> byte list" where
  "src_avail (OnConn, c) = conn_avail c"
| "src_avail (OnBytes b, c) = b"

fun src_fin :: "source \<times> conn \<Rightarrow> error" where
  "src_fin (OnConn, c) = conn_fin c"
| "src_fin (OnBytes b, c) = LibE EOF"

fun src_meas :: "source \<times> conn \<Rightarrow> nat" where
  "src_meas (OnConn, c) = conn_meas c"
| "src_meas (OnBytes b, c) = length b"

interpretation src: reader src_read src_avail src_fin src_meas
proof
  fix s n bs s'
  assume r: "src_read s n = (bs, None, s')"
  then show "length bs \<le> n \<and> src_avail s = bs @ src_avail s' \<and> src_fin s' = src_fin s"
    by (cases "(s, n)" rule: src_read.cases)
       (auto dest!: conn.rd_ok bytes.rd_ok split: prod.splits)
  assume "0 < n"
  with r show "src_meas s' < src_meas s"
    by (cases "(s, n)" rule: src_read.cases)
       (auto dest: conn.rd_progress bytes.rd_progress split: prod.splits)
next
  fix s n bs x s'
  assume "src_read s n = (bs, Some x, s')"
  then show "bs = [] \<and> x = src_fin s \<and> src_avail s = [] \<and> src_avail s' = [] \<and> src_fin s' = src_fin s"
    by (cases "(s, n)" rule: src_read.cases)
       (auto dest!: conn.rd_stop bytes.rd_stop split: prod.splits)
qed

text \<open>The payload reader of a message together with the connection it may read from.\<close>

definition payload_read :: "(source \<times> conn) \<times> nat \<Rightarrow> nat \<Rightarrow> ((source \<times> conn) \<times> nat) rres" where
  "payload_read = limited_read src_read"

definition payload_avail :: "(source \<times> conn) \<times> nat \<Rightarrow> byte list" where
  "payload_avail = limited_avail src_avail"

definition payload_fin :: "(source \<times> conn) \<times> nat \<Rightarrow> error" where
  "payload_fin = limited_fin src_avail src_fin"

interpretation payload: reader payload_read payload_avail payload_fin "\<lambda>l. src_meas (fst l)"
  unfolding payload_read_def payload_avail_def payload_fin_def by (rule src.limited_reader)

section \<open>Operations\<close>

definition message_Validate :: "message \<Rightarrow> error option" where
  "message_Validate m =
     (if ID m = 0 then Some (Msg ''id is required'')
      else if payloadCache m \<noteq> None \<and> length (the (payloadCache m)) \<noteq> unat (Length m)
      then Some (Msg ''payload length mismatch'')
      else None)"

text \<open>
  \<^verbatim>\<open>append([]byte(nil), payload...)\<close> is nil when \<open>payload\<close> is empty, so the cache
  of an empty message is nil.
\<close>

definition NewMessage :: "u64 \<Rightarrow> u32 \<Rightarrow> byte list \<Rightarrow> message" where
  "NewMessage mid t payload =
     \<lparr>ID = mid, MsgType = t, Length = of_nat (length payload),
      payloadReader = Some (OnBytes payload, length payload),
      payloadCache = (if payload = [] then None else Some payload)\<rparr>"

text \<open>\<open>newMessageFromHeader msg r\<close>: the reader of \<open>msg\<close> becomes \<open>r\<close>, limited to the announced length.\<close>

definition newMessageFromHeader :: "message option \<Rightarrow> source \<Rightarrow> message option" where
  "newMessageFromHeader m r =
     (case m of
        None \<Rightarrow> None
      | Some m \<Rightarrow> Some (m\<lparr>payloadReader := Some (r, unat (Length m))\<rparr>))"

definition message_Reader :: "message option \<Rightarrow> (source \<times> nat) option" where
  "message_Reader m = (case m of None \<Rightarrow> None | Some m \<Rightarrow> payloadReader m)"

definition message_ReadAll ::
  "message option \<Rightarrow> conn \<Rightarrow> (byte list result \<times> message option \<times> conn) option" where
  "message_ReadAll mo c =
     (case mo of
        None \<Rightarrow> Some (Inl (VsockE ErrNilMessage), None, c)
      | Some m \<Rightarrow>
          (case payloadCache m of
             Some b \<Rightarrow> Some (Inr b, Some m, c)
           | None \<Rightarrow>
               (case payloadReader m of
                  None \<Rightarrow>
                    Some (if Length m = 0 then Inr [] else Inl (VsockE ErrNilMessage), Some m, c)
                | Some (r, N) \<Rightarrow>
                    (case io_ReadAll payload_read ((r, c), N) of
                       None \<Rightarrow> None
                     | Some (bs, Some x, ((r', c'), N')) \<Rightarrow>
                         Some (Inl x, Some (m\<lparr>payloadReader := Some (r', N')\<rparr>), c')
                     | Some (bs, None, ((r', c'), N')) \<Rightarrow>
                         Some (Inr bs,
                               Some (m\<lparr>payloadReader := Some (OnBytes bs, length bs),
                                       payloadCache := Some bs\<rparr>), c')))))"

text \<open>\<^verbatim>\<open>Binary\<close> returns nil (\<open>None\<close>) when the payload cannot be read.\<close>

definition message_Binary :: "message \<Rightarrow> conn \<Rightarrow> (byte list option \<times> message option \<times> conn) option" where
  "message_Binary m c =
     map_option
       (\<lambda>(r, m', c').
          (case r of
             Inl e \<Rightarrow> (None, m', c')
           | Inr payload \<Rightarrow>
               (Some (PutUint64 (ID m) @ PutUint32 (MsgType m)
                        @ PutUint32 (of_nat (length payload)) @ payload), m', c')))
       (message_ReadAll (Some m) c)"

text \<open>\<^verbatim>\<open>WriteTo\<close>; the writer is its \<^verbatim>\<open>Write\<close> method, or nil.\<close>

definition message_WriteTo ::
  "message option \<Rightarrow> conn \<Rightarrow> ('w \<Rightarrow> byte list \<Rightarrow> error option \<times> 'w) option \<Rightarrow> 'w
     \<Rightarrow> (nat \<times> error option \<times> message option \<times> conn \<times> 'w) option" where
  "message_WriteTo mo c wo w =
     (case mo of
        None \<Rightarrow> Some (0, Some (VsockE ErrNilMessage), None, c, w)
      | Some m \<Rightarrow>
          (case wo of
             None \<Rightarrow> Some (0, Some (Msg ''writer is required''), Some m, c, w)
           | Some wr \<Rightarrow>
               (case payloadCache m of
                  Some b \<Rightarrow>
                    map_option (\<lambda>(n, e, b', w'). (n, e, Some m, c, w')) (io_Copy bytes_read wr b w)
                | None \<Rightarrow>
                    (case payloadReader m of
                       None \<Rightarrow>
                         Some (0, if Length m = 0 then None else Some (VsockE ErrNilMessage), Some m, c, w)
                     | Some (r, N) \<Rightarrow>
                         map_option
                           (\<lambda>(n, e, ((r', c'), N'), w').
                              (n, e, Some (m\<lparr>payloadReader := Some (r', N')\<rparr>), c', w'))
                           (io_Copy payload_read wr ((r, c), N) w)))))"

definition message_drain :: "message option \<Rightarrow> conn \<Rightarrow> (error option \<times> message option \<times> conn) option" where
  "message_drain mo c =
     (case mo of
        None \<Rightarrow> Some (None, None, c)
      | Some m \<Rightarrow>
          (case payloadReader m of
             None \<Rightarrow> Some (None, Some m, c)
           | Some (r, N) \<Rightarrow>
               if N = 0 then Some (None, Some m, c)
               else map_option
                      (\<lambda>(n, e, ((r', c'), N'), w).
                         (e, Some (m\<lparr>payloadReader := Some (r', N')\<rparr>), c'))
                      (io_Copy payload_read discard_write ((r, c), N) ())))"

definition ParseBinary :: "byte list \<Rightarrow> message result" where
  "ParseBinary raw =
     (if length raw < headerLength then Inl (Msg ''raw data too short for header'')
      else
        let mid = Uint64 (take 8 raw);
            msgType = Uint32 (take 4 (drop 8 raw));
            len = Uint32 (take 4 (drop 12 raw));
            payloadLen = length raw - headerLength
        in if payloadLen \<noteq> unat len then Inl (Msg ''payload length mismatch'')
           else
             let msg = (NewMessage mid msgType (drop headerLength raw))\<lparr>Length := len\<rparr>
             in (case message_Validate msg of Some e \<Rightarrow> Inl e | None \<Rightarrow> Inr msg))"

section \<open>The wire format\<close>

text \<open>What a frame is, independently of the code that writes and reads it.\<close>

definition header_bytes :: "u64 \<Rightarrow> u32 \<Rightarrow> u32 \<Rightarrow> byte list" where
  "header_bytes mid t len = PutUint64 mid @ PutUint32 t @ PutUint32 len"

definition frame :: "u64 \<Rightarrow> u32 \<Rightarrow> byte list \<Rightarrow> byte list" where
  "frame mid t p = header_bytes mid t (of_nat (length p)) @ p"

lemma length_header_bytes [simp]: "length (header_bytes mid t len) = headerLength"
  by (simp add: header_bytes_def headerLength_def)

lemma length_frame [simp]: "length (frame mid t p) = headerLength + length p"
  by (simp add: frame_def)

lemma header_fields [wire_simps]:
  "Uint64 (take 8 (header_bytes mid t len @ xs)) = mid"
  "Uint32 (take 4 (drop 8 (header_bytes mid t len @ xs))) = t"
  "Uint32 (take 4 (drop 12 (header_bytes mid t len @ xs))) = len"
  by (simp_all add: header_bytes_def)

lemma header_bytes_of_fields:
  assumes "length bs = headerLength"
  shows "header_bytes (Uint64 (take 8 bs)) (Uint32 (take 4 (drop 8 bs))) (Uint32 (take 4 (drop 12 bs))) = bs"
proof -
  have "bs = take 8 bs @ take 4 (drop 8 bs) @ take 4 (drop 12 bs)"
    using assms append_take_drop_id [of 8 bs] append_take_drop_id [of 4 "drop 8 bs"]
    by (simp add: headerLength_def)
  then show ?thesis
    using assms by (simp add: header_bytes_def headerLength_def wire_simps)
qed

lemma header_bytes_inject [simp]:
  "header_bytes mid t len = header_bytes mid' t' len' \<longleftrightarrow> mid = mid' \<and> t = t' \<and> len = len'"
proof
  assume h: "header_bytes mid t len = header_bytes mid' t' len'"
  show "mid = mid' \<and> t = t' \<and> len = len'"
    using header_fields [of mid t len "[]"] header_fields [of mid' t' len' "[]"] h by simp
qed simp

section \<open>Correctness\<close>

lemma NewMessage_fields [simp]:
  "ID (NewMessage mid t p) = mid" "MsgType (NewMessage mid t p) = t"
  "Length (NewMessage mid t p) = of_nat (length p)"
  by (simp_all add: NewMessage_def)

lemma NewMessage_Length_upd [simp]: "NewMessage mid t p\<lparr>Length := of_nat (length p)\<rparr> = NewMessage mid t p"
  by (simp add: NewMessage_def)

lemma ReadAll_cached: "payloadCache m = Some b \<Longrightarrow> message_ReadAll (Some m) c = Some (Inr b, Some m, c)"
  by (simp add: message_ReadAll_def)

lemma ReadAll_reader:
  assumes "payloadCache m = None" and "payloadReader m = Some (r, N)"
  shows "\<exists>m' c'. message_ReadAll (Some m) c =
           Some (if payload_fin ((r, c), N) = LibE EOF then Inr (payload_avail ((r, c), N))
                 else Inl (payload_fin ((r, c), N)), m', c')"
proof -
  obtain s' where "io_ReadAll payload_read ((r, c), N) =
      Some (payload_avail ((r, c), N),
            if payload_fin ((r, c), N) = LibE EOF then None else Some (payload_fin ((r, c), N)), s')"
    using payload.ReadAll_spec [of "((r, c), N)"] by blast
  with assms show ?thesis
    by (cases s') (auto simp: message_ReadAll_def split: prod.splits)
qed

lemma ReadAll_NewMessage:
  "\<exists>m' c'. message_ReadAll (Some (NewMessage mid t p)) c = Some (Inr p, m', c')"
proof (cases "p = []")
  case True
  have "payload_fin ((OnBytes [], c), 0) = LibE EOF" "payload_avail ((OnBytes [], c), 0) = []"
    by (simp_all add: payload_fin_def payload_avail_def limited_fin_def limited_avail_def)
  with ReadAll_reader [of "NewMessage mid t []" "OnBytes []" 0 c] True show ?thesis
    by (auto simp: NewMessage_def)
next
  case False
  then show ?thesis by (simp add: NewMessage_def message_ReadAll_def)
qed

lemma Binary_NewMessage:
  "\<exists>m' c'. message_Binary (NewMessage mid t p) c = Some (Some (frame mid t p), m', c')"
  using ReadAll_NewMessage [of mid t p c]
  by (auto simp: message_Binary_def frame_def header_bytes_def)

text \<open>
  \<^verbatim>\<open>ParseBinary\<close> accepts exactly the frames with a non-zero ID, and returns the message that was framed.
\<close>

lemma ParseBinary_frame:
  assumes "mid \<noteq> 0" and "length p < 2 ^ 32"
  shows "ParseBinary (frame mid t p) = Inr (NewMessage mid t p)"
proof -
  have len: "unat (of_nat (length p) :: u32) = length p"
    using assms(2) by (rule unat_of_nat_u32)
  have drop: "drop headerLength (frame mid t p) = p"
    by (simp add: frame_def)
  have fields: "Uint64 (take 8 (frame mid t p)) = mid" "Uint32 (take 4 (drop 8 (frame mid t p))) = t"
    "Uint32 (take 4 (drop 12 (frame mid t p))) = of_nat (length p)"
    unfolding frame_def by (rule wire_simps)+
  have "message_Validate (NewMessage mid t p) = None"
    using assms(1) len by (simp add: message_Validate_def NewMessage_def)
  then show ?thesis
    by (simp add: ParseBinary_def fields drop len Let_def)
qed

lemma ParseBinary_accepts:
  assumes "ParseBinary raw = Inr m"
  shows "\<exists>mid t p. mid \<noteq> 0 \<and> length p < 2 ^ 32 \<and> raw = frame mid t p \<and> m = NewMessage mid t p"
proof -
  let ?p = "drop headerLength raw"
  let ?mid = "Uint64 (take 8 raw)" and ?t = "Uint32 (take 4 (drop 8 raw))" and ?len = "Uint32 (take 4 (drop 12 raw))"
  from assms have long: "headerLength \<le> length raw" and len: "length ?p = unat ?len"
    and v: "message_Validate ((NewMessage ?mid ?t ?p)\<lparr>Length := ?len\<rparr>) = None"
    and m: "m = (NewMessage ?mid ?t ?p)\<lparr>Length := ?len\<rparr>"
    by (auto simp: ParseBinary_def Let_def split: if_splits option.splits)
  have l: "?len = of_nat (length ?p)" by (simp only: len) simp
  have "?mid \<noteq> 0" using v by (auto simp: message_Validate_def split: if_splits)
  moreover have "length ?p < 2 ^ 32" by (simp only: len unat_u32_less)
  moreover have "raw = frame ?mid ?t ?p"
  proof -
    have "header_bytes ?mid ?t ?len = take headerLength raw"
      using header_bytes_of_fields [of "take headerLength raw"] long
      by (simp add: headerLength_def take_drop min_def)
    then show ?thesis unfolding frame_def l [symmetric] by simp
  qed
  moreover have "m = NewMessage ?mid ?t ?p" using m l by (simp add: NewMessage_def)
  ultimately show ?thesis by blast
qed

section \<open>Reading a payload from the connection\<close>

text \<open>
  What a handler may do with a message it was given: read from its reader with any buffer sizes or
  \<^verbatim>\<open>ReadAll\<close> it, in any order and as often as it likes.
\<close>

inductive msg_use :: "message \<times> conn \<Rightarrow> message \<times> conn \<Rightarrow> bool" where
  done_using: "msg_use mc mc"
| use_read:
    "payloadReader m = Some (r, N) \<Longrightarrow> payload_read ((r, c), N) n = (bs, e, ((r', c'), N')) \<Longrightarrow>
     msg_use (m\<lparr>payloadReader := Some (r', N')\<rparr>, c') mc \<Longrightarrow> msg_use (m, c) mc"
| use_ReadAll:
    "message_ReadAll (Some m) c = Some (res, Some m', c') \<Longrightarrow> msg_use (m', c') mc \<Longrightarrow> msg_use (m, c) mc"

text \<open>
  The bytes of the connection that come after the payload: what the next header is read from once
  the payload is consumed.
\<close>

fun src_after :: "(source \<times> conn) \<times> nat \<Rightarrow> byte list" where
  "src_after ((OnConn, c), N) = drop N (conn_avail c)"
| "src_after ((OnBytes b, c), N) = conn_avail c"

definition after_payload :: "message \<Rightarrow> conn \<Rightarrow> byte list" where
  "after_payload m c =
     (case payloadReader m of None \<Rightarrow> conn_avail c | Some (r, N) \<Rightarrow> src_after ((r, c), N))"

definition keeps_place :: "byte list \<Rightarrow> error \<Rightarrow> (source \<times> conn) \<times> nat \<Rightarrow> bool" where
  "keeps_place rest x l \<longleftrightarrow> src_after l = rest \<and> conn_fin (snd (fst l)) = x"

lemma conn_read_keeps_place:
  assumes r: "conn_read c (min n N) = (bs, e, c')"
  shows "drop (N - length bs) (conn_avail c') = drop N (conn_avail c) \<and> conn_fin c' = conn_fin c"
proof (cases e)
  case None
  with conn.rd_ok r have "length bs \<le> N" "conn_avail c = bs @ conn_avail c'" "conn_fin c' = conn_fin c"
    by fastforce+
  then show ?thesis by simp
next
  case (Some x)
  with conn.rd_stop r have "conn_avail c = []" "conn_avail c' = []" "conn_fin c' = conn_fin c"
    by blast+
  then show ?thesis by simp
qed

lemma payload_read_keeps_place:
  assumes "keeps_place rest x l" and "payload_read l n = (bs, e, l')"
  shows "keeps_place rest x l'"
proof -
  obtain r c N where l: "l = ((r, c), N)" by (metis prod.exhaust)
  show ?thesis
  proof (cases r)
    case OnConn
    with assms l show ?thesis
      using conn_read_keeps_place [of c n N]
      by (auto simp: keeps_place_def payload_read_def limited_read_def split: prod.splits if_splits)
  next
    case (OnBytes b)
    with assms l show ?thesis
      by (auto simp: keeps_place_def payload_read_def limited_read_def split: prod.splits if_splits)
  qed
qed

lemma keeps_place_consumed:
  "keeps_place rest x ((r, c), N) \<Longrightarrow> payload_avail ((r, c), N) = [] \<Longrightarrow> conn_avail c = rest"
  by (cases r) (auto simp: keeps_place_def payload_avail_def limited_avail_def)

lemma ReadAll_place:
  assumes "message_ReadAll (Some m) c = Some (res, mo, c')"
  shows "\<exists>m'. mo = Some m' \<and> after_payload m' c' = after_payload m c \<and> conn_fin c' = conn_fin c"
proof (cases "payloadCache m = None \<and> payloadReader m \<noteq> None")
  case False
  with assms show ?thesis by (auto simp: message_ReadAll_def split: option.splits)
next
  case True
  then obtain r N where rd: "payloadReader m = Some (r, N)" by auto
  obtain bs s' where all: "io_ReadAll payload_read ((r, c), N) =
      Some (bs, if payload_fin ((r, c), N) = LibE EOF then None else Some (payload_fin ((r, c), N)), s')"
    and empty: "payload_avail s' = []"
    using payload.ReadAll_spec [of "((r, c), N)"] by blast
  obtain r' c1 N' where s': "s' = ((r', c1), N')" by (metis prod.exhaust)
  have start: "keeps_place (after_payload m c) (conn_fin c) ((r, c), N)"
    by (simp add: keeps_place_def after_payload_def rd)
  have place: "keeps_place (after_payload m c) (conn_fin c) ((r', c1), N')"
    by (rule payload.read_all_loop_inv [where P = "keeps_place (after_payload m c) (conn_fin c)",
          OF _ _ start all [unfolded s' io_ReadAll_def]])
       (auto dest: payload_read_keeps_place)
  with empty s' have "conn_avail c1 = after_payload m c"
    by (auto dest: keeps_place_consumed)
  with True rd all s' place assms show ?thesis
    by (auto simp: message_ReadAll_def after_payload_def keeps_place_def split: if_splits)
qed

text \<open>Whatever a handler does with its message, it does not touch the bytes after the payload.\<close>

lemma msg_use_place:
  "msg_use (m, c) (m', c') \<Longrightarrow> after_payload m' c' = after_payload m c \<and> conn_fin c' = conn_fin c"
proof (induction "(m, c)" "(m', c')" arbitrary: m c rule: msg_use.induct)
  case done_using
  then show ?case by simp
next
  case (use_read m r N c n bs e r' c1 N')
  have "keeps_place (after_payload m c) (conn_fin c) ((r', c1), N')"
    by (rule payload_read_keeps_place [OF _ use_read(2)])
       (simp add: keeps_place_def after_payload_def use_read(1))
  with use_read show ?case by (simp add: keeps_place_def after_payload_def)
next
  case (use_ReadAll m c res m1 c1)
  with ReadAll_place show ?case by fastforce
qed

lemma drain_place:
  "\<exists>e mo c'. message_drain (Some m) c = Some (e, mo, c') \<and> conn_avail c' = after_payload m c
      \<and> conn_fin c' = conn_fin c \<and> (conn_fin c = LibE EOF \<longrightarrow> e = None)"
proof (cases "payloadReader m")
  case None
  then show ?thesis by (simp add: message_drain_def after_payload_def)
next
  case (Some rN)
  then obtain r N where rd: "payloadReader m = Some (r, N)" by (cases rN) auto
  have start: "keeps_place (after_payload m c) (conn_fin c) ((r, c), N)"
    by (simp add: keeps_place_def after_payload_def rd)
  show ?thesis
  proof (cases "N = 0")
    case True
    with rd show ?thesis by (cases r) (auto simp: message_drain_def after_payload_def)
  next
    case False
    obtain n s' w' where copy: "io_Copy payload_read discard_write ((r, c), N) () =
        Some (n, if payload_fin ((r, c), N) = LibE EOF then None else Some (payload_fin ((r, c), N)), s', w')"
      and empty: "payload_avail s' = []"
      using payload.Copy_total_writer [of discard_write "((r, c), N)" "()"]
      by (auto simp: discard_write_def)
    obtain r' c1 N' where s': "s' = ((r', c1), N')" by (metis prod.exhaust)
    have place: "keeps_place (after_payload m c) (conn_fin c) ((r', c1), N')"
      by (rule payload.copy_loop_inv [where P = "keeps_place (after_payload m c) (conn_fin c)",
            OF _ _ start copy [unfolded s' io_Copy_def]])
         (auto dest: payload_read_keeps_place)
    with empty s' have "conn_avail c1 = after_payload m c" by (auto dest: keeps_place_consumed)
    moreover have "conn_fin c = LibE EOF \<Longrightarrow> payload_fin ((r, c), N) = LibE EOF"
      by (cases r) (auto simp: payload_fin_def limited_fin_def)
    ultimately show ?thesis
      using rd False copy place s' by (auto simp: message_drain_def keeps_place_def)
  qed
qed

text \<open>\<^verbatim>\<open>WriteTo\<close> keeps the place too, whatever the writer does.\<close>

lemma WriteTo_place:
  assumes "message_WriteTo (Some m) c (Some wr) w = Some (n, e, mo, c', w')"
  shows "\<exists>m'. mo = Some m' \<and> after_payload m' c' = after_payload m c \<and> conn_fin c' = conn_fin c
    \<and> ID m' = ID m \<and> MsgType m' = MsgType m \<and> Length m' = Length m"
proof (cases "payloadCache m = None \<and> payloadReader m \<noteq> None")
  case False
  with assms show ?thesis by (auto simp: message_WriteTo_def split: option.splits)
next
  case True
  then obtain r N where rd: "payloadReader m = Some (r, N)" by auto
  with True assms obtain r' N' where copy: "io_Copy payload_read wr ((r, c), N) w = Some (n, e, ((r', c'), N'), w')"
    and mo: "mo = Some (m\<lparr>payloadReader := Some (r', N')\<rparr>)"
    by (auto simp: message_WriteTo_def)
  have start: "keeps_place (after_payload m c) (conn_fin c) ((r, c), N)"
    by (simp add: keeps_place_def after_payload_def rd)
  have "keeps_place (after_payload m c) (conn_fin c) ((r', c'), N')"
    by (rule payload.copy_loop_inv [where P = "keeps_place (after_payload m c) (conn_fin c)",
          OF _ _ start copy [unfolded io_Copy_def]])
       (auto dest: payload_read_keeps_place)
  with mo show ?thesis by (simp add: after_payload_def keeps_place_def)
qed

section \<open>Properties\<close>

text \<open>
  C5: \<^verbatim>\<open>ParseBinary\<close> accepts a byte string exactly if it is the frame of some message with a non-zero ID and
  a payload whose length fits its 32-bit field, and then it returns that message.
\<close>

theorem ParseBinary_iff_frame:
  "ParseBinary raw = Inr m \<longleftrightarrow>
     (\<exists>mid t p. mid \<noteq> 0 \<and> length p < 2 ^ 32 \<and> raw = frame mid t p \<and> m = NewMessage mid t p)"
  using ParseBinary_frame ParseBinary_accepts by blast

text \<open>
  C6: \<^verbatim>\<open>Binary\<close> followed by \<^verbatim>\<open>ParseBinary\<close> gives the message back.
\<close>

theorem ParseBinary_Binary:
  assumes "mid \<noteq> 0" and "length p < 2 ^ 32"
  shows "\<exists>bs mo c'. message_Binary (NewMessage mid t p) c = Some (Some bs, mo, c')
           \<and> ParseBinary bs = Inr (NewMessage mid t p)"
  using Binary_NewMessage [of mid t p c] ParseBinary_frame [OF assms, of t] by blast

theorem ParseBinary_Binary_witness:
  "\<exists>bs mo c'. message_Binary (NewMessage 7 3 [1, 2]) ([], LibE EOF) = Some (Some bs, mo, c')
     \<and> ParseBinary bs = Inr (NewMessage 7 3 [1, 2])"
  by (rule ParseBinary_Binary) simp_all

text \<open>
  when the connection ends in the middle of a payload, \<^verbatim>\<open>ReadAll\<close> of the received message
  still succeeds, with fewer bytes than the header announced: the short payload is not an error.
\<close>

theorem ReadAll_accepts_truncated:
  assumes "payloadCache m = None" and "payloadReader m = Some (OnConn, unat (Length m))"
    and "length (conn_avail c) < unat (Length m)" and "conn_fin c = LibE EOF"
  shows "\<exists>m' c'. message_ReadAll (Some m) c = Some (Inr (conn_avail c), m', c')
           \<and> length (conn_avail c) \<noteq> unat (Length m)"
  using ReadAll_reader [OF assms(1,2), of c] assms(3,4)
  by (simp add: payload_fin_def payload_avail_def limited_fin_def limited_avail_def)

theorem ReadAll_accepts_truncated_witness:
  "\<exists>m' c'. message_ReadAll (Some \<lparr>ID = 1, MsgType = 2, Length = 5, payloadReader = Some (OnConn, 5), payloadCache = None\<rparr>)
       ([[1, 2]], LibE EOF) = Some (Inr [1, 2], m', c')"
  using ReadAll_accepts_truncated
    [of "\<lparr>ID = 1, MsgType = 2, Length = 5, payloadReader = Some (OnConn, 5), payloadCache = None\<rparr>"
        "([[1, 2]], LibE EOF)"] by simp

end
