(* ===== verification/Waiters.thy ===== *)
theory Waiters
  imports Message
begin

text \<open>
  The two tables of waiting goroutines: the pending acknowledgements of \<^verbatim>\<open>vsock/ack.go\<close> and the
  pending responses of \<^verbatim>\<open>vsock/request.go\<close>. Every operation here runs under its table's
  mutex, so it is one atomic step. A channel is a number; \<^verbatim>\<open>make(chan ...)\<close> takes the next
  one. Both tables promise the same to a waiter, which the locale \<open>waiter_table\<close> states.
\<close>

section \<open>Pending acknowledgements\<close>

text \<open>\<open>closedChans\<close> are the channels that have been closed; closing one again panics.\<close>

record acks =
  pendingAcks :: "u64 \<rightharpoonup> nat"
  nextAckChan :: nat
  closedChans :: "nat list"

definition no_acks :: acks where
  "no_acks = \<lparr>pendingAcks = Map.empty, nextAckChan = 0, closedChans = []\<rparr>"

definition registerPendingAck :: "u64 \<Rightarrow> acks \<Rightarrow> nat \<times> acks" where
  "registerPendingAck mid a =
     (nextAckChan a,
      a\<lparr>pendingAcks := (pendingAcks a)(mid \<mapsto> nextAckChan a), nextAckChan := Suc (nextAckChan a)\<rparr>)"

definition unregisterPendingAck :: "u64 \<Rightarrow> nat \<Rightarrow> acks \<Rightarrow> acks" where
  "unregisterPendingAck mid ch a =
     (if pendingAcks a mid = Some ch then a\<lparr>pendingAcks := (pendingAcks a)(mid := None)\<rparr> else a)"

text \<open>\<open>None\<close> is the panic of closing a closed channel.\<close>

definition close_chan :: "nat \<Rightarrow> acks \<Rightarrow> acks option" where
  "close_chan ch a = (if ch \<in> set (closedChans a) then None else Some (a\<lparr>closedChans := ch # closedChans a\<rparr>))"

definition resolveAck :: "u64 \<Rightarrow> acks \<Rightarrow> acks option" where
  "resolveAck mid a =
     (case pendingAcks a mid of
        None \<Rightarrow> Some a
      | Some ch \<Rightarrow> close_chan ch (a\<lparr>pendingAcks := (pendingAcks a)(mid := None)\<rparr>))"

section \<open>Pending responses\<close>

text \<open>\<^verbatim>\<open>pendingResponse\<close>: the expected type and the channel, which buffers one message.\<close>

record responses =
  pendingResponses :: "u64 \<rightharpoonup> u32 \<times> nat"
  nextRespChan :: nat

definition no_responses :: responses where
  "no_responses = \<lparr>pendingResponses = Map.empty, nextRespChan = 0\<rparr>"

definition registerPendingResponse :: "u64 \<Rightarrow> u32 \<Rightarrow> responses \<Rightarrow> nat result \<times> responses" where
  "registerPendingResponse mid t r =
     (if pendingResponses r mid \<noteq> None then (Inl (VsockE ErrDuplicateMessageID), r\<lparr>nextRespChan := Suc (nextRespChan r)\<rparr>)
      else (Inr (nextRespChan r),
            r\<lparr>pendingResponses := (pendingResponses r)(mid \<mapsto> (t, nextRespChan r)),
              nextRespChan := Suc (nextRespChan r)\<rparr>))"

definition unregisterPendingResponse :: "u64 \<Rightarrow> nat \<Rightarrow> responses \<Rightarrow> responses" where
  "unregisterPendingResponse mid ch r =
     (case pendingResponses r mid of
        Some (t, ch') \<Rightarrow>
          if ch' = ch then r\<lparr>pendingResponses := (pendingResponses r)(mid := None)\<rparr> else r
      | None \<Rightarrow> r)"

text \<open>
  The locked part of \<^verbatim>\<open>resolveResponse\<close>: the channel of the waiter whose ID and type match, which
  is taken out of the table.
\<close>

definition takeResponse :: "u64 \<Rightarrow> u32 \<Rightarrow> responses \<Rightarrow> nat option \<times> responses" where
  "takeResponse mid t r =
     (case pendingResponses r mid of
        None \<Rightarrow> (None, r)
      | Some (t', ch) \<Rightarrow>
          if t' = t then (Some ch, r\<lparr>pendingResponses := (pendingResponses r)(mid := None)\<rparr>)
          else (None, r))"

section \<open>What a table of waiters promises\<close>

text \<open>
  \<open>register k i\<close> returns a new channel (or fails), \<open>unregister i ch\<close> removes the entry of \<open>i\<close>
  only if it is still the one of \<open>ch\<close>, and \<open>settle k i\<close> is what the receive loop does when a frame with ID \<open>i\<close>
  comes.
\<close>

locale waiter_table =
  fixes table :: "'st \<Rightarrow> u64 \<rightharpoonup> nat"
    and fresh :: "'st \<Rightarrow> nat"
    and register :: "'k \<Rightarrow> u64 \<Rightarrow> 'st \<Rightarrow> nat option \<times> 'st"
    and unregister :: "u64 \<Rightarrow> nat \<Rightarrow> 'st \<Rightarrow> 'st"
    and settle :: "'k \<Rightarrow> u64 \<Rightarrow> 'st \<Rightarrow> nat option \<times> 'st"
  assumes register_ok:
      "register k i st = (Some ch, st') \<Longrightarrow>
         ch = fresh st \<and> table st' = (table st)(i \<mapsto> ch) \<and> fresh st' = Suc (fresh st)"
    and register_fail:
      "register k i st = (None, st') \<Longrightarrow> table st' = table st \<and> fresh st \<le> fresh st'"
    and unregister_table:
      "table (unregister i ch st) = (if table st i = Some ch then (table st)(i := None) else table st)"
    and unregister_fresh: "fresh (unregister i ch st) = fresh st"
    and settle_ok:
      "settle k i st = (Some ch, st') \<Longrightarrow> table st i = Some ch \<and> table st' = (table st)(i := None) \<and> fresh st' = fresh st"
    and settle_none: "settle k i st = (None, st') \<Longrightarrow> table st' = table st \<and> fresh st' = fresh st"

datatype 'k table_op = Register 'k u64 | Unregister u64 nat | Settle 'k u64

fun table_step ::
  "('k \<Rightarrow> u64 \<Rightarrow> 'st \<Rightarrow> nat option \<times> 'st) \<Rightarrow> (u64 \<Rightarrow> nat \<Rightarrow> 'st \<Rightarrow> 'st)
     \<Rightarrow> ('k \<Rightarrow> u64 \<Rightarrow> 'st \<Rightarrow> nat option \<times> 'st) \<Rightarrow> 'k table_op \<Rightarrow> 'st \<Rightarrow> 'st" where
  "table_step reg unreg settle (Register k i) st = snd (reg k i st)"
| "table_step reg unreg settle (Unregister i ch) st = unreg i ch st"
| "table_step reg unreg settle (Settle k i) st = snd (settle k i st)"

definition well_formed :: "('st \<Rightarrow> u64 \<rightharpoonup> nat) \<Rightarrow> ('st \<Rightarrow> nat) \<Rightarrow> 'st \<Rightarrow> bool" where
  "well_formed table fresh st \<longleftrightarrow>
     (\<forall>i ch. table st i = Some ch \<longrightarrow> ch < fresh st)
     \<and> (\<forall>i j ch. table st i = Some ch \<longrightarrow> table st j = Some ch \<longrightarrow> i = j)"

context waiter_table begin

lemma step_cases:
  "(table (table_step register unregister settle op st) = table st
      \<and> fresh st \<le> fresh (table_step register unregister settle op st))
   \<or> (\<exists>i. table (table_step register unregister settle op st) = (table st)(i := None)
        \<and> fresh (table_step register unregister settle op st) = fresh st)
   \<or> (\<exists>i. table (table_step register unregister settle op st) = (table st)(i \<mapsto> fresh st)
        \<and> fresh (table_step register unregister settle op st) = Suc (fresh st))"
proof (cases op)
  case (Register k i)
  obtain r st' where "register k i st = (r, st')" by (cases "register k i st")
  with Register show ?thesis by (cases r) (auto dest: register_ok register_fail)
next
  case (Unregister i ch)
  then show ?thesis by (auto simp: unregister_table unregister_fresh)
next
  case (Settle k i)
  obtain r st' where "settle k i st = (r, st')" by (cases "settle k i st")
  with Settle show ?thesis by (cases r) (auto dest: settle_ok settle_none)
qed

lemma step_well_formed:
  "well_formed table fresh st \<Longrightarrow> well_formed table fresh (table_step register unregister settle op st)"
proof -
  assume wf: "well_formed table fresh st"
  let ?st = "table_step register unregister settle op st"
  consider "table ?st = table st" "fresh st \<le> fresh ?st"
    | i where "table ?st = (table st)(i := None)" "fresh ?st = fresh st"
    | i where "table ?st = (table st)(i \<mapsto> fresh st)" "fresh ?st = Suc (fresh st)"
    using step_cases [of op st] by blast
  then show ?thesis
  proof cases
    case 1
    with wf show ?thesis unfolding well_formed_def by (metis order.strict_trans2)
  next
    case 2
    with wf show ?thesis by (simp add: well_formed_def)
  next
    case 3
    have "table st j \<noteq> Some (fresh st)" for j
      using wf by (auto simp: well_formed_def)
    with 3 wf show ?thesis by (auto simp: well_formed_def less_Suc_eq)
  qed
qed

text \<open>A channel below the fresh mark that has left the table never comes back.\<close>

lemma step_old_channel:
  "ch < fresh st \<Longrightarrow> table (table_step register unregister settle op st) i = Some ch \<Longrightarrow> table st i = Some ch"
  using step_cases [of op st] by (auto split: if_splits)

lemma step_fresh: "fresh st \<le> fresh (table_step register unregister settle op st)"
  using step_cases [of op st] by auto

lemma run_well_formed:
  "well_formed table fresh st \<Longrightarrow> well_formed table fresh (fold (table_step register unregister settle) ops st)"
  by (induction ops arbitrary: st) (auto intro: step_well_formed)

lemma run_fresh: "fresh st \<le> fresh (fold (table_step register unregister settle) ops st)"
  by (induction ops arbitrary: st) (auto intro: order_trans [OF step_fresh])

lemma run_old_channel:
  "ch < fresh st \<Longrightarrow> table (fold (table_step register unregister settle) ops st) i = Some ch \<Longrightarrow> table st i = Some ch"
proof (induction ops arbitrary: st)
  case (Cons op ops)
  then show ?case
    using step_fresh [of st op] step_old_channel [of ch st op i] by (simp add: order.strict_trans2)
qed simp

text \<open>
  A waiter registers, other goroutines do what they like, the waiter unregisters: its channel is
  gone from the table, and every entry of the others is untouched.
\<close>

lemma waiter_cleans_up:
  assumes wf: "well_formed table fresh st" and reg: "register k i st = (Some ch, st1)"
    and others: "st2 = fold (table_step register unregister settle) ops st1"
  shows "(\<forall>j. table (unregister i ch st2) j \<noteq> Some ch)
    \<and> (\<forall>j ch'. ch' \<noteq> ch \<longrightarrow> (table (unregister i ch st2) j = Some ch' \<longleftrightarrow> table st2 j = Some ch'))"
proof -
  from register_ok [OF reg] have ch: "ch = fresh st" and t1: "table st1 = (table st)(i \<mapsto> ch)"
    and f1: "fresh st1 = Suc (fresh st)" by auto
  have old: "table st2 j = Some ch \<Longrightarrow> j = i" for j
  proof -
    assume "table st2 j = Some ch"
    then have "table st1 j = Some ch"
      using run_old_channel [of ch st1 ops j] others ch f1 by simp
    with t1 wf ch show "j = i" by (auto simp: well_formed_def split: if_splits)
  qed
  show ?thesis
  proof (cases "table st2 i = Some ch")
    case True
    have "((table st2)(i := None)) j \<noteq> Some ch" for j
      using old [of j] by (cases "j = i") auto
    with True show ?thesis by (auto simp: unregister_table)
  next
    case False
    with old have "table st2 j \<noteq> Some ch" for j by blast
    with False show ?thesis by (simp add: unregister_table)
  qed
qed

end

text \<open>
  The two tables as instances. \<open>ack_settle\<close> and \<open>resp_settle\<close> also return the channel that is woken;
  \<open>resolveAck_never_panics\<close> below shows that the panic branch of \<open>resolveAck\<close> is not reached.
\<close>

definition ack_register :: "unit \<Rightarrow> u64 \<Rightarrow> acks \<Rightarrow> nat option \<times> acks" where
  "ack_register k mid a = (case registerPendingAck mid a of (ch, a') \<Rightarrow> (Some ch, a'))"

definition ack_settle :: "unit \<Rightarrow> u64 \<Rightarrow> acks \<Rightarrow> nat option \<times> acks" where
  "ack_settle k mid a =
     (pendingAcks a mid, case resolveAck mid a of None \<Rightarrow> a\<lparr>pendingAcks := (pendingAcks a)(mid := None)\<rparr> | Some a' \<Rightarrow> a')"

definition resp_table :: "responses \<Rightarrow> u64 \<rightharpoonup> nat" where
  "resp_table r mid = map_option snd (pendingResponses r mid)"

definition resp_register :: "u32 \<Rightarrow> u64 \<Rightarrow> responses \<Rightarrow> nat option \<times> responses" where
  "resp_register t mid r =
     (case registerPendingResponse mid t r of
        (Inl e, r') \<Rightarrow> (None, r') | (Inr ch, r') \<Rightarrow> (Some ch, r'))"

definition resp_settle :: "u32 \<Rightarrow> u64 \<Rightarrow> responses \<Rightarrow> nat option \<times> responses" where
  "resp_settle t mid r = takeResponse mid t r"

interpretation ack_table: waiter_table pendingAcks nextAckChan ack_register unregisterPendingAck ack_settle
  by unfold_locales
     (auto simp: ack_register_def registerPendingAck_def unregisterPendingAck_def ack_settle_def
        resolveAck_def close_chan_def split: option.splits if_splits)

interpretation resp_table: waiter_table resp_table nextRespChan resp_register unregisterPendingResponse resp_settle
  by unfold_locales
     (auto simp: fun_eq_iff resp_table_def resp_register_def registerPendingResponse_def
        unregisterPendingResponse_def resp_settle_def takeResponse_def
        split: option.splits if_splits sum.splits prod.splits)

section \<open>No channel is closed twice\<close>

definition ack_step :: "unit table_op \<Rightarrow> acks \<Rightarrow> acks" where
  "ack_step = table_step ack_register unregisterPendingAck ack_settle"

text \<open>
  Every channel has been made, no channel waits under two IDs, and no closed channel waits.
\<close>

definition acks_ok :: "acks \<Rightarrow> bool" where
  "acks_ok a \<longleftrightarrow> well_formed pendingAcks nextAckChan a
     \<and> (\<forall>ch \<in> set (closedChans a). ch < nextAckChan a \<and> (\<forall>i. pendingAcks a i \<noteq> Some ch))"

lemma acks_okD:
  assumes "acks_ok a"
  shows "pendingAcks a i = Some ch \<Longrightarrow> ch < nextAckChan a"
    and "pendingAcks a i = Some ch \<Longrightarrow> pendingAcks a j = Some ch \<Longrightarrow> i = j"
    and "ch \<in> set (closedChans a) \<Longrightarrow> ch < nextAckChan a"
    and "ch \<in> set (closedChans a) \<Longrightarrow> pendingAcks a i \<noteq> Some ch"
  using assms unfolding acks_ok_def well_formed_def by blast+

lemma acks_ok_no_acks [simp]: "acks_ok no_acks"
  by (simp add: acks_ok_def no_acks_def well_formed_def)

lemma resolveAck_ok: "acks_ok a \<Longrightarrow> resolveAck mid a \<noteq> None"
  using acks_okD(4) [of a _ mid]
  by (auto simp: resolveAck_def close_chan_def split: option.splits)

lemma ack_step_simps [table_simps]:
  "ack_step (Register k i) a =
     a\<lparr>pendingAcks := (pendingAcks a)(i \<mapsto> nextAckChan a), nextAckChan := Suc (nextAckChan a)\<rparr>"
  "ack_step (Unregister i ch) a = unregisterPendingAck i ch a"
  "pendingAcks a i = None \<Longrightarrow> ack_step (Settle k i) a = a"
  by (simp_all add: ack_step_def ack_register_def registerPendingAck_def ack_settle_def resolveAck_def)

lemma ack_step_Settle [table_simps]:
  assumes "acks_ok a" and "pendingAcks a i = Some ch"
  shows "ack_step (Settle k i) a =
     a\<lparr>pendingAcks := (pendingAcks a)(i := None), closedChans := ch # closedChans a\<rparr>"
  using assms acks_okD(4) [OF assms(1), of ch i]
  by (auto simp: ack_step_def ack_settle_def resolveAck_def close_chan_def)

lemma ack_step_closed:
  assumes "acks_ok a"
  shows "set (closedChans (ack_step op a)) =
     (case op of
        Settle k i \<Rightarrow> (case pendingAcks a i of None \<Rightarrow> set (closedChans a) | Some ch \<Rightarrow> insert ch (set (closedChans a)))
      | _ \<Rightarrow> set (closedChans a))"
  using assms
  by (cases op) (auto simp: table_simps unregisterPendingAck_def split: option.splits)

lemma ack_step_ok:
  assumes "acks_ok a"
  shows "acks_ok (ack_step op a)"
proof -
  have "well_formed pendingAcks nextAckChan (ack_step op a)"
    using assms ack_table.step_well_formed unfolding acks_ok_def ack_step_def by blast
  moreover have "ch < nextAckChan (ack_step op a) \<and> (\<forall>j. pendingAcks (ack_step op a) j \<noteq> Some ch)"
    if "ch \<in> set (closedChans (ack_step op a))" for ch
  proof (cases op)
    case (Register k i)
    with assms that show ?thesis by (auto simp: table_simps dest: acks_okD)
  next
    case (Unregister i c)
    with assms that show ?thesis by (auto simp: table_simps unregisterPendingAck_def dest: acks_okD)
  next
    case (Settle k i)
    show ?thesis
    proof (cases "pendingAcks a i")
      case None
      with assms that Settle show ?thesis by (auto simp: table_simps dest: acks_okD)
    next
      case (Some c)
      with Settle have step: "ack_step op a =
          a\<lparr>pendingAcks := (pendingAcks a)(i := None), closedChans := c # closedChans a\<rparr>"
        by (simp add: ack_step_Settle [OF assms])
      with that have "ch = c \<or> ch \<in> set (closedChans a)" by simp
      then show ?thesis
      proof
        assume "ch = c"
        moreover have "c < nextAckChan a" using acks_okD(1) [OF assms Some] .
        moreover have "((pendingAcks a)(i := None)) j \<noteq> Some c" for j
          using acks_okD(2) [OF assms Some, of j] by auto
        ultimately show ?thesis by (simp add: step)
      next
        assume "ch \<in> set (closedChans a)"
        with acks_okD(3,4) [OF assms, of ch] show ?thesis by (simp add: step)
      qed
    qed
  qed
  ultimately show ?thesis by (simp add: acks_ok_def)
qed

lemma ack_run_ok: "acks_ok a \<Longrightarrow> acks_ok (fold ack_step ops a)"
  by (induction ops arbitrary: a) (auto intro: ack_step_ok)

lemma ack_step_old_channel:
  "ch < nextAckChan a \<Longrightarrow> pendingAcks (ack_step op a) j = Some ch \<Longrightarrow> pendingAcks a j = Some ch"
  unfolding ack_step_def by (rule ack_table.step_old_channel)

lemma ack_step_fresh: "nextAckChan a \<le> nextAckChan (ack_step op a)"
  unfolding ack_step_def by (rule ack_table.step_fresh)

section \<open>Properties\<close>

text \<open>
  C8: whatever sequence of registrations, removals and incoming acknowledgements the
  goroutines perform, \<^verbatim>\<open>resolveAck\<close> never closes a channel twice, so it never panics.
\<close>

theorem resolveAck_never_panics: "resolveAck mid (fold ack_step ops no_acks) \<noteq> None"
  by (rule resolveAck_ok) (rule ack_run_ok, simp)

text \<open>
  a request's waiter, once its deferred \<^verbatim>\<open>unregisterPendingResponse\<close> has run, is gone from the
  table of pending responses whatever happened in between, and the waiters of other requests are untouched, even one
  that took over the same ID.
\<close>

theorem pending_response_cleaned_up:
  assumes "well_formed resp_table nextRespChan r"
    and "registerPendingResponse mid t r = (Inr ch, r1)"
    and "r2 = fold (table_step resp_register unregisterPendingResponse resp_settle) ops r1"
  shows "(\<forall>j. resp_table (unregisterPendingResponse mid ch r2) j \<noteq> Some ch)
    \<and> (\<forall>j ch'. ch' \<noteq> ch \<longrightarrow>
          (resp_table (unregisterPendingResponse mid ch r2) j = Some ch' \<longleftrightarrow> resp_table r2 j = Some ch'))"
  using resp_table.waiter_cleans_up [OF assms(1) _ assms(3), of t mid ch] assms(2)
  by (simp add: resp_register_def)

theorem pending_response_cleaned_up_witness:
  "resp_table (unregisterPendingResponse 5 0
      (fold (table_step resp_register unregisterPendingResponse resp_settle) [Settle 2 5, Register 3 5]
         \<lparr>pendingResponses = [5 \<mapsto> (2, 0)], nextRespChan = 1\<rparr>)) 5 = Some 1"
proof -
  let ?r1 = "\<lparr>pendingResponses = [5 \<mapsto> (2, 0)], nextRespChan = 1\<rparr>"
  let ?r2 = "fold (table_step resp_register unregisterPendingResponse resp_settle) [Settle 2 5, Register 3 5] ?r1"
  have wf: "well_formed resp_table nextRespChan no_responses"
    by (simp add: well_formed_def resp_table_def no_responses_def)
  have reg: "registerPendingResponse 5 2 no_responses = (Inr 0, ?r1)"
    by (simp add: registerPendingResponse_def no_responses_def)
  have "resp_table ?r2 5 = Some 1"
    by (simp add: resp_register_def registerPendingResponse_def resp_settle_def takeResponse_def resp_table_def)
  moreover have "(1::nat) \<noteq> 0" by simp
  ultimately show ?thesis
    using pending_response_cleaned_up [OF wf reg refl, of "[Settle 2 5, Register 3 5]"] by blast
qed

end
