(* ===== verification/Stream.thy ===== *)
theory Stream
  imports Waiters
begin

text \<open>
  The sending half of the messenger: \<^verbatim>\<open>MessengerConfig\<close> and its validation
  (\<^verbatim>\<open>vsock/messenger.go\<close>), the framed stream writer with its retries
  (\<^verbatim>\<open>vsock/stream.go\<close>), the wait for an acknowledgement (\<^verbatim>\<open>vsock/ack.go\<close>), and
  \<^verbatim>\<open>Messenger.Send\<close>.

  The outside world is explicit. A context is the answer \<open>ctx k\<close> of the \<open>k\<close>-th time it is asked
  for its error; the connection takes each write as the next entry of \<open>writes\<close> says (how many
  bytes at most, and which error) and everything once the script is used up; while a sender
  waits for its acknowledgement, the \<open>events\<close> are what the other goroutines and the clock do and
  which arm of its \<^verbatim>\<open>select\<close> is taken.
\<close>

section \<open>Configuration\<close>

record MessengerConfig =
  RequireAcknowledge :: bool
  Timeout :: int
  MaxRetries :: int
  MaxMessageSize :: int
  MaxMessageSizeReceived :: int

definition DefaultTimeout :: int where "DefaultTimeout = 5 * 1000000000"
definition DefaultMaxRetries :: int where "DefaultMaxRetries = 3"
definition DefaultMaxMessageSize :: int where "DefaultMaxMessageSize = 4 * 1024 * 1024"
definition AbsoluteMaxMessageSize :: int where "AbsoluteMaxMessageSize = 64 * 1024 * 1024"

definition DefaultMessengerConfig :: MessengerConfig where
  "DefaultMessengerConfig =
     \<lparr>RequireAcknowledge = False, Timeout = DefaultTimeout, MaxRetries = DefaultMaxRetries,
      MaxMessageSize = DefaultMaxMessageSize, MaxMessageSizeReceived = DefaultMaxMessageSize\<rparr>"

definition MessengerConfig_Validate :: "MessengerConfig option \<Rightarrow> error option" where
  "MessengerConfig_Validate co =
     (case co of
        None \<Rightarrow> None
      | Some c \<Rightarrow>
          if MaxRetries c < 0 then Some (Msg ''max retries must be >= 0'')
          else if MaxMessageSize c < 0 \<or> MaxMessageSizeReceived c < 0
          then Some (Msg ''message size limits must be >= 0'')
          else if MaxMessageSize c > AbsoluteMaxMessageSize \<or> MaxMessageSizeReceived c > AbsoluteMaxMessageSize
          then Some (Msg ''message size exceeds hard limit of 67108864 bytes'')
          else if RequireAcknowledge c \<and> Timeout c \<le> 0
          then Some (Msg ''timeout must be > 0 when acknowledgements are required'')
          else None)"

section \<open>State and environment\<close>

type_synonym ctx = "nat \<Rightarrow> error option"

datatype wait_event =
    Other "unit table_op"
  | ChanReady
  | CtxDone error
  | TimerFired

text \<open>
  The fields of \<^verbatim>\<open>Messenger\<close> that sending uses (\<open>connected\<close>: \<^verbatim>\<open>vsock\<close> is not
  nil), the bytes written so far, and the scripts of the environment.
\<close>

record messenger =
  config :: MessengerConfig
  connected :: bool
  ackTable :: acks
  respTable :: responses
  wire :: "byte list"
  writes :: "(nat \<times> error option) list"
  polls :: nat
  events :: "wait_event list"

definition poll :: "ctx \<Rightarrow> 'm messenger_scheme \<Rightarrow> error option \<times> 'm messenger_scheme" where
  "poll ctx m = (ctx (polls m), m\<lparr>polls := Suc (polls m)\<rparr>)"

text \<open>\<^verbatim>\<open>m.vsock.Write\<close>: the number of bytes taken, the error, and the new state.\<close>

definition vsock_Write :: "'m messenger_scheme \<Rightarrow> byte list \<Rightarrow> nat \<times> error option \<times> 'm messenger_scheme" where
  "vsock_Write m payload =
     (case writes m of
        [] \<Rightarrow> (length payload, None, m\<lparr>wire := wire m @ payload\<rparr>)
      | (k, e) # ws \<Rightarrow>
          (min k (length payload), e, m\<lparr>wire := wire m @ take k payload, writes := ws\<rparr>))"

section \<open>Writing\<close>

function writeAll :: "ctx \<Rightarrow> byte list \<Rightarrow> 'm messenger_scheme \<Rightarrow> error option \<times> 'm messenger_scheme" where
  "writeAll ctx payload m =
     (if payload = [] then (None, m)
      else
        case poll ctx m of
          (Some e, m1) \<Rightarrow> (Some e, m1)
        | (None, m1) \<Rightarrow>
            (case vsock_Write m1 payload of
               (n, Some e, m2) \<Rightarrow> (Some e, m2)
             | (n, None, m2) \<Rightarrow> writeAll ctx (drop n payload) m2))"
  by pat_completeness auto
termination
  by (relation "measure (\<lambda>(ctx, payload, m). length payload + length (writes m))")
     (auto simp: poll_def vsock_Write_def split: list.splits)

declare writeAll.simps [simp del]

definition chunkSize :: nat where "chunkSize = 32 * 1024"

text \<open>The loop of \<^verbatim>\<open>sendStreamOnce\<close> after the header, with \<open>remaining\<close> payload bytes to send.\<close>

partial_function (option) sendPayload ::
  "('s \<Rightarrow> nat \<Rightarrow> 's rres) \<Rightarrow> ctx \<Rightarrow> nat \<Rightarrow> 's \<Rightarrow> 'm messenger_scheme \<Rightarrow> (error option \<times> 's \<times> 'm messenger_scheme) option" where
  "sendPayload rd ctx remaining r m =
     (if remaining = 0 then Some (None, r, m)
      else
        case poll ctx m of
          (Some e, m1) \<Rightarrow> Some (Some e, r, m1)
        | (None, m1) \<Rightarrow>
            (case rd r (min chunkSize remaining) of
               (bs, err, r1) \<Rightarrow>
                 (case (if bs \<noteq> [] then writeAll ctx bs m1 else (None, m1)) of
                    (Some e, m2) \<Rightarrow> Some (Some e, r1, m2)
                  | (None, m2) \<Rightarrow>
                      (case err of
                         None \<Rightarrow> sendPayload rd ctx (remaining - length bs) r1 m2
                       | Some e \<Rightarrow>
                           Some (if errors_Is e (LibE EOF) \<and> remaining - length bs = 0 then None
                                 else if errors_Is e (LibE EOF) then Some (LibE ErrUnexpectedEOF)
                                 else Some e, r1, m2)))))"

definition sendStreamOnce ::
  "('s \<Rightarrow> nat \<Rightarrow> 's rres) \<Rightarrow> ctx \<Rightarrow> u64 \<Rightarrow> u32 \<Rightarrow> u32 \<Rightarrow> 's \<Rightarrow> 'm messenger_scheme
     \<Rightarrow> (error option \<times> 's \<times> 'm messenger_scheme) option" where
  "sendStreamOnce rd ctx mid msgType payloadLen r m =
     (let header = PutUint64 mid @ PutUint32 msgType @ PutUint32 payloadLen in
      case writeAll ctx header m of
        (Some e, m1) \<Rightarrow> Some (Some e, r, m1)
      | (None, m1) \<Rightarrow> sendPayload rd ctx (unat payloadLen) r m1)"

section \<open>Waiting for the acknowledgement\<close>

definition acknowledgeTypeID :: u32 where "acknowledgeTypeID = 0xFFFFFFFF"

definition shouldAwaitAcknowledge :: "'m messenger_scheme \<Rightarrow> u32 \<Rightarrow> bool" where
  "shouldAwaitAcknowledge m msgType \<longleftrightarrow>
     RequireAcknowledge (config m) \<and> msgType \<noteq> acknowledgeTypeID"

text \<open>
  The \<^verbatim>\<open>select\<close> of \<^verbatim>\<open>waitForAcknowledge\<close>. While it blocks the other goroutines work on the table
  (\<open>Other\<close>); then one of the three arms is taken, and any of those that are ready may be: the channel's only
  once it has been closed. When the script ends, the channel's arm is taken if it is
  ready, and the timer fires if it is not.
\<close>

fun wait_loop :: "u64 \<Rightarrow> nat \<Rightarrow> wait_event list \<Rightarrow> acks \<Rightarrow> error option \<times> acks \<times> wait_event list" where
  "wait_loop mid ch (Other op # evs) a = wait_loop mid ch evs (ack_step op a)"
| "wait_loop mid ch (ChanReady # evs) a =
     (if ch \<in> set (closedChans a) then (None, a, evs) else wait_loop mid ch evs a)"
| "wait_loop mid ch (CtxDone e # evs) a = (Some e, a, evs)"
| "wait_loop mid ch (TimerFired # evs) a =
     (Some (Wrap ''acknowledgement timeout for message'' (LibE ErrDeadlineExceeded)), a, evs)"
| "wait_loop mid ch [] a =
     (if ch \<in> set (closedChans a) then None
      else Some (Wrap ''acknowledgement timeout for message'' (LibE ErrDeadlineExceeded)), a, [])"

definition waitForAcknowledge :: "u64 \<Rightarrow> nat option \<Rightarrow> 'm messenger_scheme \<Rightarrow> error option \<times> 'm messenger_scheme" where
  "waitForAcknowledge mid cho m =
     (case cho of
        None \<Rightarrow> (Some (Msg ''ack channel is required''), m)
      | Some ch \<Rightarrow>
          (case wait_loop mid ch (events m) (ackTable m) of
             (e, a, evs) \<Rightarrow>
               (e, m\<lparr>ackTable := unregisterPendingAck mid ch a, events := evs\<rparr>)))"

definition sendStreamAttempt ::
  "('s \<Rightarrow> nat \<Rightarrow> 's rres) \<Rightarrow> ctx \<Rightarrow> u64 \<Rightarrow> u32 \<Rightarrow> u32 \<Rightarrow> bool \<Rightarrow> 's \<Rightarrow> 'm messenger_scheme
     \<Rightarrow> (error option \<times> 's \<times> 'm messenger_scheme) option" where
  "sendStreamAttempt rd ctx mid msgType payloadLen awaitAck r m =
     (let (wait, m0) =
            (if awaitAck
             then (case registerPendingAck mid (ackTable m) of (ch, a) \<Rightarrow> (Some ch, m\<lparr>ackTable := a\<rparr>))
             else (None, m))
      in (case sendStreamOnce rd ctx mid msgType payloadLen r m0 of
            None \<Rightarrow> None
          | Some (Some e, r1, m1) \<Rightarrow>
              Some (Some e, r1,
                    (case wait of
                       None \<Rightarrow> m1
                     | Some ch \<Rightarrow> m1\<lparr>ackTable := unregisterPendingAck mid ch (ackTable m1)\<rparr>))
          | Some (None, r1, m1) \<Rightarrow>
              if \<not> awaitAck then Some (None, r1, m1)
              else (case waitForAcknowledge mid wait m1 of (e, m2) \<Rightarrow> Some (e, r1, m2))))"

section \<open>Sending with retries\<close>

text \<open>
  The \<^verbatim>\<open>io.ReadSeeker\<close> methods of a reader that has them: the current offset, and moving
  to an offset from the start.
\<close>

record 's seeker =
  seekCurrent :: "'s \<Rightarrow> nat result"
  seekStart :: "'s \<Rightarrow> nat \<Rightarrow> error option \<times> 's"

text \<open>
  The retry loop from attempt number \<open>attempt\<close> on. It seeks back before every attempt but the first; a
  second attempt without a seeker would be a call on a nil interface (\<open>None\<close>), and
  \<open>SendStreamWithID\<close> allows one attempt only then.
\<close>

function send_attempts ::
  "('s \<Rightarrow> nat \<Rightarrow> 's rres) \<Rightarrow> ctx \<Rightarrow> u64 \<Rightarrow> u32 \<Rightarrow> u32 \<Rightarrow> bool \<Rightarrow> 's seeker option \<Rightarrow> nat \<Rightarrow> int \<Rightarrow> int
     \<Rightarrow> 's \<Rightarrow> 'm messenger_scheme \<Rightarrow> (error option \<times> 's \<times> 'm messenger_scheme) option" where
  "send_attempts rd ctx mid msgType payloadLen awaitAck sk start attempts attempt r m =
     (if attempt < attempts then
        (case (if attempt > 0
               then (case sk of None \<Rightarrow> None | Some k \<Rightarrow> Some (seekStart k r start))
               else Some (None, r)) of
           None \<Rightarrow> None
         | Some (Some e, r0) \<Rightarrow> Some (Some e, r0, m)
         | Some (None, r0) \<Rightarrow>
             (case sendStreamAttempt rd ctx mid msgType payloadLen awaitAck r0 m of
                None \<Rightarrow> None
              | Some (None, r1, m1) \<Rightarrow> Some (None, r1, m1)
              | Some (Some e, r1, m1) \<Rightarrow>
                  (case poll ctx m1 of
                     (Some ce, m2) \<Rightarrow> Some (Some ce, r1, m2)
                   | (None, m2) \<Rightarrow>
                       if attempt = attempts - 1 then Some (Some e, r1, m2)
                       else send_attempts rd ctx mid msgType payloadLen awaitAck sk start attempts
                              (attempt + 1) r1 m2)))
      else Some (None, r, m))"
  by pat_completeness auto
termination
  by (relation "measure (\<lambda>(rd, ctx, mid, t, len, aw, sk, start, attempts, attempt, r, m). nat (attempts - attempt))")
     auto

declare send_attempts.simps [simp del]

definition SendStreamWithID ::
  "('s \<Rightarrow> nat \<Rightarrow> 's rres) \<Rightarrow> 's seeker option \<Rightarrow> ctx \<Rightarrow> u64 \<Rightarrow> u32 \<Rightarrow> u32 \<Rightarrow> 's option \<Rightarrow> 'm messenger_scheme option
     \<Rightarrow> (error option \<times> 's option \<times> 'm messenger_scheme option) option" where
  "SendStreamWithID rd sk ctx mid msgType payloadLen ro mo =
     (case mo of
        None \<Rightarrow> Some (Some (VsockE ErrNilTransport), ro, None)
      | Some m \<Rightarrow>
          if \<not> connected m then Some (Some (VsockE ErrNilTransport), ro, Some m)
          else
            case ro of
              None \<Rightarrow> Some (Some (Msg ''reader is required''), None, Some m)
            | Some r \<Rightarrow>
                if mid = 0 then Some (Some (Msg ''id is required''), Some r, Some m)
                else
                  let totalLen = int headerLength + int (unat payloadLen) in
                  if MaxMessageSize (config m) > 0 \<and> totalLen > MaxMessageSize (config m)
                  then Some (Some (Msg ''message size too large''), Some r, Some m)
                  else
                    let awaitAck = shouldAwaitAcknowledge m msgType;
                        retry = (if awaitAck then sk else None)
                    in case retry of
                         None \<Rightarrow>
                           map_option (\<lambda>(e, r', m'). (e, Some r', Some m'))
                             (send_attempts rd ctx mid msgType payloadLen awaitAck None 0 1 0 r m)
                       | Some k \<Rightarrow>
                           (case seekCurrent k r of
                              Inl e \<Rightarrow> Some (Some e, Some r, Some m)
                            | Inr start \<Rightarrow>
                                map_option (\<lambda>(e, r', m'). (e, Some r', Some m'))
                                  (send_attempts rd ctx mid msgType payloadLen awaitAck (Some k) start
                                     (1 + MaxRetries (config m)) 0 r m)))"

text \<open>
  \<^verbatim>\<open>newMessageID\<close> (and \<^verbatim>\<open>Codec.generateID\<close>, the same loop): random bytes until
  they are not all zero. \<open>rand k\<close> is the answer of the \<open>k\<close>-th \<^verbatim>\<open>rand.Read\<close>.
\<close>

partial_function (option) newMessageID :: "(nat \<Rightarrow> byte list result) \<Rightarrow> nat \<Rightarrow> (u64 result \<times> nat) option" where
  "newMessageID rand k =
     (case rand k of
        Inl e \<Rightarrow> Some (Inl e, Suc k)
      | Inr idBytes \<Rightarrow>
          if Uint64 idBytes \<noteq> 0 then Some (Inr (Uint64 idBytes), Suc k)
          else newMessageID rand (Suc k))"

definition SendStream ::
  "('s \<Rightarrow> nat \<Rightarrow> 's rres) \<Rightarrow> 's seeker option \<Rightarrow> (nat \<Rightarrow> byte list result) \<Rightarrow> ctx \<Rightarrow> u32 \<Rightarrow> u32 \<Rightarrow> 's option
     \<Rightarrow> 'm messenger_scheme option \<Rightarrow> (u64 result \<times> 's option \<times> 'm messenger_scheme option) option" where
  "SendStream rd sk rand ctx msgType payloadLen ro mo =
     (case newMessageID rand 0 of
        None \<Rightarrow> None
      | Some (Inl e, k) \<Rightarrow> Some (Inl e, ro, mo)
      | Some (Inr mid, k) \<Rightarrow>
          (case SendStreamWithID rd sk ctx mid msgType payloadLen ro mo of
             None \<Rightarrow> None
           | Some (Some e, ro', mo') \<Rightarrow> Some (Inl e, ro', mo')
           | Some (None, ro', mo') \<Rightarrow> Some (Inr mid, ro', mo')))"

text \<open>
  \<^verbatim>\<open>ReaderPayload\<close> and the sources of streams. A payload is seen as the dynamic value it is: nil, a
  value without the method \<^verbatim>\<open>StreamSource\<close>, or one with the method and what it returns.
\<close>

record 's reader_payload =
  Reader :: "'s option"
  PayloadLength :: u32

definition ReaderPayload_StreamSource :: "'s reader_payload \<Rightarrow> ('s option \<times> u32) result" where
  "ReaderPayload_StreamSource p =
     (case Reader p of
        None \<Rightarrow> Inl (Msg ''reader is required'')
      | Some r \<Rightarrow> Inr (Some r, PayloadLength p))"

datatype 's dynamic_payload =
    NilPayload
  | NotASource
  | ASource "('s option \<times> u32) result"

definition StreamSourceFromPayload :: "'s dynamic_payload \<Rightarrow> ('s \<times> u32) result" where
  "StreamSourceFromPayload payload =
     (case payload of
        NilPayload \<Rightarrow> Inl (Msg ''payload is required'')
      | ASource src \<Rightarrow>
          (case src of
             Inl e \<Rightarrow> Inl e
           | Inr (None, l) \<Rightarrow> Inl (Msg ''reader is required'')
           | Inr (Some r, l) \<Rightarrow> Inr (r, l))
      | NotASource \<Rightarrow> Inl (Msg ''stream payload must implement StreamSource''))"

text \<open>\<^verbatim>\<open>bytes.Reader\<close> with its offset, and its \<^verbatim>\<open>Seek\<close>.\<close>

definition byteReader_Read :: "byte list \<times> nat \<Rightarrow> nat \<Rightarrow> (byte list \<times> nat) rres" where
  "byteReader_Read s n =
     (case s of (b, i) \<Rightarrow>
        if length b \<le> i then ([], Some (LibE EOF), (b, i))
        else (take n (drop i b), None, (b, i + length (take n (drop i b)))))"

definition byteReader_Seek :: "(byte list \<times> nat) seeker" where
  "byteReader_Seek = \<lparr>seekCurrent = (\<lambda>s. Inr (snd s)), seekStart = (\<lambda>s i. (None, (fst s, i)))\<rparr>"

text \<open>\<^verbatim>\<open>Messenger.Send\<close> of a message whose payload is in memory or on the connection \<open>c\<close>.\<close>

definition Send :: "ctx \<Rightarrow> message option \<Rightarrow> conn \<Rightarrow> 'm messenger_scheme
    \<Rightarrow> (error option \<times> message option \<times> conn \<times> 'm messenger_scheme) option" where
  "Send ctx mo c m =
     (case mo of
        None \<Rightarrow> Some (Some (VsockE ErrNilMessage), None, c, m)
      | Some msg \<Rightarrow>
          if \<not> connected m then Some (Some (VsockE ErrNilTransport), Some msg, c, m)
          else
            case message_ReadAll (Some msg) c of
              None \<Rightarrow> None
            | Some (Inl e, mo', c') \<Rightarrow> Some (Some e, mo', c', m)
            | Some (Inr payload, mo', c') \<Rightarrow>
                map_option (\<lambda>(e, r, m'). (e, mo', c', case m' of Some m1 \<Rightarrow> m1 | None \<Rightarrow> m))
                  (SendStreamWithID byteReader_Read (Some byteReader_Seek) ctx (ID msg) (MsgType msg)
                     (of_nat (length payload)) (Some (payload, 0)) (Some m)))"

section \<open>What goes over the wire\<close>

text \<open>Writing changes only the output, the script of the writes and the number of context checks.\<close>

definition only_output :: "'m messenger_scheme \<Rightarrow> 'm messenger_scheme \<Rightarrow> bool" where
  "only_output m m' \<longleftrightarrow>
     config m' = config m \<and> connected m' = connected m \<and> ackTable m' = ackTable m
     \<and> respTable m' = respTable m \<and> events m' = events m \<and> messenger.more m' = messenger.more m"

lemma only_output_refl [simp]: "only_output m m"
  by (simp add: only_output_def)

lemma only_output_trans: "only_output m m1 \<Longrightarrow> only_output m1 m2 \<Longrightarrow> only_output m m2"
  by (simp add: only_output_def)

lemma poll_output: "poll ctx m = (e, m') \<Longrightarrow> only_output m m' \<and> wire m' = wire m \<and> writes m' = writes m"
  by (auto simp: poll_def only_output_def)

text \<open>An environment that never fails: the context stays alive and every write is taken whole.\<close>

definition quiet :: "ctx \<Rightarrow> 'm messenger_scheme \<Rightarrow> bool" where
  "quiet ctx m \<longleftrightarrow> (\<forall>k. ctx k = None) \<and> writes m = []"

text \<open>
  \<open>sends ctx m bs e m'\<close>: of the bytes \<open>bs\<close> a prefix was written, all of them if \<open>e\<close> is nil, and all of
  them in a quiet environment.
\<close>

definition emits :: "'m messenger_scheme \<Rightarrow> byte list \<Rightarrow> 'm messenger_scheme \<Rightarrow> bool" where
  "emits m p m' \<longleftrightarrow> only_output m m' \<and> wire m' = wire m @ p"

definition sends :: "ctx \<Rightarrow> 'm messenger_scheme \<Rightarrow> byte list \<Rightarrow> error option \<Rightarrow> 'm messenger_scheme \<Rightarrow> bool" where
  "sends ctx m bs e m' \<longleftrightarrow>
     (\<exists>p q. bs = p @ q \<and> emits m p m' \<and> (e = None \<longrightarrow> q = []))
     \<and> (quiet ctx m \<longrightarrow> emits m bs m' \<and> quiet ctx m')"

lemma emits_Nil: "only_output m m' \<Longrightarrow> wire m' = wire m \<Longrightarrow> emits m [] m'"
  by (simp add: emits_def)

lemma emits_append: "emits m p m1 \<Longrightarrow> emits m1 q m' \<Longrightarrow> emits m (p @ q) m'"
  by (auto simp: emits_def intro: only_output_trans)

lemma sends_Nil [simp]: "sends ctx m [] e m"
  by (simp add: sends_def emits_def)

lemma sends_ok: "emits m bs m' \<Longrightarrow> (quiet ctx m \<Longrightarrow> quiet ctx m') \<Longrightarrow> sends ctx m bs e m'"
  by (auto simp: sends_def)

lemma sends_prefix: "emits m p m' \<Longrightarrow> \<not> quiet ctx m \<Longrightarrow> e \<noteq> None \<Longrightarrow> sends ctx m (p @ q) e m'"
  by (auto simp: sends_def)

lemma sends_NoneD: "sends ctx m bs None m' \<Longrightarrow> emits m bs m'"
  by (auto simp: sends_def)

lemma sends_quietD: "sends ctx m bs e m' \<Longrightarrow> quiet ctx m \<Longrightarrow> quiet ctx m'"
  by (auto simp: sends_def)

lemma sends_append:
  assumes "sends ctx m xs None m1" and "sends ctx m1 ys e m'"
  shows "sends ctx m (xs @ ys) e m'"
proof -
  from assms(1) have 1: "emits m xs m1" by (rule sends_NoneD)
  from assms(2) obtain p q where 2: "ys = p @ q" "emits m1 p m'" "e = None \<longrightarrow> q = []"
    unfolding sends_def by blast
  then have "xs @ ys = (xs @ p) @ q \<and> emits m (xs @ p) m' \<and> (e = None \<longrightarrow> q = [])"
    using emits_append [OF 1 2(2)] by simp
  moreover have "quiet ctx m \<Longrightarrow> emits m (xs @ ys) m' \<and> quiet ctx m'"
    using assms emits_append [OF 1] by (auto simp: sends_def)
  ultimately show ?thesis unfolding sends_def by blast
qed

lemma sends_append_error:
  assumes "sends ctx m xs (Some x) m'" and "\<not> quiet ctx m"
  shows "sends ctx m (xs @ ys) (Some x) m'"
proof -
  from assms(1) obtain p q where "xs = p @ q" "emits m p m'"
    unfolding sends_def by blast
  with sends_prefix [of m p m' ctx "Some x" "q @ ys"] assms(2) show ?thesis by simp
qed

lemma poll_sends:
  assumes "poll ctx m = (e, m1)"
  shows "emits m [] m1 \<and> sends ctx m [] x m1 \<and> (quiet ctx m \<longrightarrow> e = None \<and> quiet ctx m1)"
  using assms by (auto simp: poll_def emits_def sends_def only_output_def quiet_def)

lemma vsock_Write_sends:
  assumes "vsock_Write m payload = (n, e, m1)"
  shows "emits m (take n payload) m1 \<and> n \<le> length payload \<and>
         (quiet ctx m \<longrightarrow> e = None \<and> n = length payload \<and> quiet ctx m1)"
  using assms by (auto simp: vsock_Write_def emits_def only_output_def quiet_def min_def split: list.splits)

lemma writeAll_spec:
  "writeAll ctx payload m = (e, m') \<Longrightarrow> sends ctx m payload e m' \<and> (quiet ctx m \<longrightarrow> e = None)"
proof (induction ctx payload m arbitrary: e m' rule: writeAll.induct)
  case (1 ctx payload m)
  show ?case
  proof (cases "payload = []")
    case True
    with "1.prems" show ?thesis by (auto simp: writeAll.simps [of ctx "[]" m])
  next
    case False
    obtain pe m1 where p: "poll ctx m = (pe, m1)" by (cases "poll ctx m")
    obtain n we m2 where w: "vsock_Write m1 payload = (n, we, m2)" by (cases "vsock_Write m1 payload")
    note step = "1.prems" [unfolded writeAll.simps [of ctx payload m]] False p w
    note pw = poll_sends [OF p] vsock_Write_sends [OF w, of ctx]
    show ?thesis
    proof (cases pe)
      case (Some x)
      with step pw sends_prefix [of m "[]" m1 ctx e payload] show ?thesis by auto
    next
      case pe: None
      have e2: "emits m (take n payload) m2" using pw emits_append [of m "[]" m1] by simp
      show ?thesis
      proof (cases we)
        case (Some x)
        with step pe have "m' = m2" "e = Some x" by auto
        with Some pw e2 sends_prefix [of m "take n payload" m2 ctx e "drop n payload"] show ?thesis by auto
      next
        case we: None
        with step pe have rec: "writeAll ctx (drop n payload) m2 = (e, m')" by simp
        have "sends ctx m (take n payload) None m2"
          using e2 pw by (intro sends_ok) auto
        from sends_append [OF this] "1.IH" [OF False p [symmetric] pe w [symmetric] refl we rec] pw
        show ?thesis by fastforce
      qed
    qed
  qed
qed

context reader begin

text \<open>
  The payload loop returns on every reader that makes progress; what it has put on the wire is a
  prefix of the first \<open>k\<close> bytes of the reader, and all of them if it reports success.
\<close>

lemma sendPayload_spec:
  "\<exists>err s' m'. sendPayload rd ctx k s m = Some (err, s', m') \<and> sends ctx m (take k (avail s)) err m'
     \<and> (err = None \<longrightarrow> k \<le> length (avail s) \<and> avail s' = drop k (avail s) \<and> fin s' = fin s)
     \<and> (quiet ctx m \<longrightarrow>
          err = (if k \<le> length (avail s) then None
                 else if errors_Is (fin s) (LibE EOF) then Some (LibE ErrUnexpectedEOF) else Some (fin s)))"
proof (induction "meas s" arbitrary: s m k rule: less_induct)
  case less
  show ?case
  proof (cases "k = 0")
    case True
    then show ?thesis by (simp add: sendPayload.simps [of rd ctx 0 s m])
  next
    case k: False
    obtain pe m1 where p: "poll ctx m = (pe, m1)" by (cases "poll ctx m")
    obtain bs re s1 where r: "rd s (min chunkSize k) = (bs, re, s1)" by (cases "rd s (min chunkSize k)")
    have pos: "0 < min chunkSize k" using k by (simp add: chunkSize_def)
    obtain we m2 where w: "(if bs \<noteq> [] then writeAll ctx bs m1 else (None, m1)) = (we, m2)"
      by (cases "if bs \<noteq> [] then writeAll ctx bs m1 else (None, m1)")
    have w2: "sends ctx m1 bs we m2 \<and> (quiet ctx m1 \<longrightarrow> we = None)"
    proof (cases "bs = []")
      case True
      with w show ?thesis by simp
    next
      case False
      with w writeAll_spec [of ctx bs m1 we m2] show ?thesis by simp
    qed
    have p1: "sends ctx m [] None m1" "emits m [] m1" and q1: "quiet ctx m \<Longrightarrow> pe = None \<and> quiet ctx m1"
      using poll_sends [OF p] by auto
    have s2: "sends ctx m bs we m2" using sends_append [OF p1(1)] w2 by fastforce
    note step = sendPayload.simps [of rd ctx k s m] k p r w
    show ?thesis
    proof (cases pe)
      case (Some x)
      with q1 have "\<not> quiet ctx m" by auto
      with p1 sends_prefix [of m "[]" m1 ctx "Some x"] Some show ?thesis by (simp add: step)
    next
      case pe: None
      show ?thesis
      proof (cases re)
        case (Some x)
        with r rd_stop have "bs = []" "x = fin s" "avail s = []" "avail s1 = []" "fin s1 = fin s" by blast+
        moreover with w have "we = None" "m2 = m1" by auto
        moreover have "sends ctx m [] y m1" for y using poll_sends [OF p] by simp
        ultimately show ?thesis using Some pe k by (simp add: step)
      next
        case re: None
        with r have len: "length bs \<le> k" and av: "avail s = bs @ avail s1" and fin: "fin s1 = fin s"
          and m: "meas s1 < meas s"
          using rd_ok rd_progress pos by fastforce+
        have take: "take k (avail s) = bs @ take (k - length bs) (avail s1)" using av len by simp
        show ?thesis
        proof (cases we)
          case (Some x)
          with w2 q1 have "\<not> quiet ctx m" by auto
          with s2 Some sends_append_error [of ctx m bs x m2] pe show ?thesis
            by (simp add: step take)
        next
          case we: None
          with s2 have s2': "sends ctx m bs None m2" by simp
          from less.hyps [OF m, of "k - length bs" m2]
          obtain err s' m' where rec: "sendPayload rd ctx (k - length bs) s1 m2 = Some (err, s', m')"
            and snd: "sends ctx m2 (take (k - length bs) (avail s1)) err m'"
            and ok: "err = None \<longrightarrow> k - length bs \<le> length (avail s1) \<and>
                   avail s' = drop (k - length bs) (avail s1) \<and> fin s' = fin s1"
            and qt: "quiet ctx m2 \<longrightarrow>
              err = (if k - length bs \<le> length (avail s1) then None
                 else if errors_Is (fin s1) (LibE EOF) then Some (LibE ErrUnexpectedEOF) else Some (fin s1))"
            by blast
          have "sendPayload rd ctx k s m = Some (err, s', m')"
            using rec pe re we by (simp add: step)
          moreover have "sends ctx m (take k (avail s)) err m'"
            unfolding take by (rule sends_append [OF s2' snd])
          moreover have "err = None \<longrightarrow> k \<le> length (avail s) \<and> avail s' = drop k (avail s) \<and> fin s' = fin s"
            using ok len by (auto simp: av fin)
          moreover have "quiet ctx m \<longrightarrow>
              err = (if k \<le> length (avail s) then None
                 else if errors_Is (fin s) (LibE EOF) then Some (LibE ErrUnexpectedEOF) else Some (fin s))"
          proof
            assume "quiet ctx m"
            then have "quiet ctx m2" using s2 sends_quietD by blast
            moreover have "(k - length bs \<le> length (avail s1)) = (k \<le> length (avail s))"
              using len by (auto simp: av)
            ultimately show "err = (if k \<le> length (avail s) then None
                 else if errors_Is (fin s) (LibE EOF) then Some (LibE ErrUnexpectedEOF) else Some (fin s))"
              using qt fin by (simp only:)
          qed
          ultimately show ?thesis by blast
        qed
      qed
    qed
  qed
qed

lemma sendPayload_inv:
  assumes step: "\<And>s n bs e s'. P s \<Longrightarrow> rd s n = (bs, e, s') \<Longrightarrow> P s'"
  shows "P s \<Longrightarrow> sendPayload rd ctx k s m = Some (err, s', m') \<Longrightarrow> P s'"
proof (induction "meas s" arbitrary: s m k rule: less_induct)
  case less
  obtain bs e s1 where r: "rd s (min chunkSize k) = (bs, e, s1)" by (cases "rd s (min chunkSize k)")
  with less.prems step have "P s1" by blast
  have "k \<noteq> 0 \<Longrightarrow> e = None \<Longrightarrow> meas s1 < meas s"
    using rd_progress [of s "min chunkSize k" bs s1] r by (simp add: chunkSize_def)
  with less.prems(2) r show ?case
    unfolding sendPayload.simps [of rd ctx k s m]
    using \<open>P s1\<close> less.prems(1) less.hyps [of s1]
    by (auto split: if_splits option.splits prod.splits)
qed

lemma sendStreamOnce_spec:
  "\<exists>err s' m'. sendStreamOnce rd ctx mid t len s m = Some (err, s', m')
     \<and> sends ctx m (header_bytes mid t len @ take (unat len) (avail s)) err m'
     \<and> (err = None \<longrightarrow> unat len \<le> length (avail s) \<and> avail s' = drop (unat len) (avail s) \<and> fin s' = fin s)
     \<and> (quiet ctx m \<longrightarrow>
          err = (if unat len \<le> length (avail s) then None
                 else if errors_Is (fin s) (LibE EOF) then Some (LibE ErrUnexpectedEOF) else Some (fin s)))"
proof -
  obtain we m1 where w: "writeAll ctx (header_bytes mid t len) m = (we, m1)"
    by (cases "writeAll ctx (header_bytes mid t len) m")
  note sent = writeAll_spec [OF w]
  note step = sendStreamOnce_def Let_def w [unfolded header_bytes_def]
  show ?thesis
  proof (cases we)
    case (Some x)
    with sent sends_append_error [of ctx m "header_bytes mid t len" x m1] show ?thesis
      by (auto simp: step)
  next
    case None
    from sendPayload_spec [of ctx "unat len" s m1] sent None show ?thesis
      by (auto simp: step intro: sends_append dest: sends_quietD)
  qed
qed

end

section \<open>Retries\<close>

text \<open>
  A reader that can be moved back: it reads a fixed content from an offset, and \<^verbatim>\<open>Seek\<close>
  sets the offset.
\<close>

locale seekable_reader = reader rd avail fin meas
  for rd :: "'s \<Rightarrow> nat \<Rightarrow> 's rres" and avail fin meas +
  fixes content :: "'s \<Rightarrow> byte list"
    and offset :: "'s \<Rightarrow> nat"
    and sk :: "'s seeker"
  assumes avail_content: "avail s = drop (offset s) (content s)"
    and read_content: "rd s n = (bs, e, s') \<Longrightarrow> content s' = content s"
    and seekCurrent_ok: "seekCurrent sk s = Inr i \<Longrightarrow> i = offset s"
    and seekStart_ok: "seekStart sk s i = (e, s') \<Longrightarrow> content s' = content s \<and> (e = None \<longrightarrow> offset s' = i)"

lemma take_drop_min: "take n (drop b a) @ drop (b + min (length a - b) n) a = drop b a"
proof -
  have "drop (b + min (length a - b) n) a = drop n (drop b a)"
    by (simp add: min_def add.commute)
  then show ?thesis by (simp only: append_take_drop_id)
qed

interpretation byteReader: seekable_reader byteReader_Read "\<lambda>s. drop (snd s) (fst s)" "\<lambda>_. LibE EOF"
    "\<lambda>s. length (fst s) - snd s" fst snd byteReader_Seek
  by unfold_locales
     (auto simp: byteReader_Read_def byteReader_Seek_def take_drop_min split: if_splits)

text \<open>The frame of a send, and a sequence of pieces of it: each a prefix, at most \<open>n\<close> of them.\<close>

definition frame_pieces :: "byte list \<Rightarrow> nat \<Rightarrow> byte list list \<Rightarrow> bool" where
  "frame_pieces F n ps \<longleftrightarrow> length ps \<le> n \<and> (\<forall>p \<in> set ps. \<exists>q. F = p @ q)"

lemma frame_pieces_Cons:
  "F = p @ q \<Longrightarrow> frame_pieces F n ps \<Longrightarrow> frame_pieces F (Suc n) (p # ps)"
  by (auto simp: frame_pieces_def)

context reader begin

lemma sendStreamAttempt_spec:
  "\<exists>err s' m' p q. sendStreamAttempt rd ctx mid t len awaitAck s m = Some (err, s', m')
     \<and> header_bytes mid t len @ take (unat len) (avail s) = p @ q \<and> wire m' = wire m @ p
     \<and> (err = None \<longrightarrow> q = [] \<and> unat len \<le> length (avail s))
     \<and> config m' = config m \<and> connected m' = connected m
     \<and> (\<not> awaitAck \<longrightarrow> ackTable m' = ackTable m \<and> events m' = events m \<and>
          (quiet ctx m \<longrightarrow> quiet ctx m' \<and> q = [] \<and> err = (if unat len \<le> length (avail s) then None
                 else if errors_Is (fin s) (LibE EOF) then Some (LibE ErrUnexpectedEOF) else Some (fin s))))"
proof -
  define m0 where "m0 = (if awaitAck then m\<lparr>ackTable := snd (registerPendingAck mid (ackTable m))\<rparr> else m)"
  obtain err s' m1 where once: "sendStreamOnce rd ctx mid t len s m0 = Some (err, s', m1)"
    and sent: "sends ctx m0 (header_bytes mid t len @ take (unat len) (avail s)) err m1"
    and ok: "err = None \<longrightarrow> unat len \<le> length (avail s)"
    and qt: "quiet ctx m0 \<longrightarrow>
          err = (if unat len \<le> length (avail s) then None
                 else if errors_Is (fin s) (LibE EOF) then Some (LibE ErrUnexpectedEOF) else Some (fin s))"
    using sendStreamOnce_spec [of ctx mid t len s m0] by blast
  have m0: "wire m0 = wire m" "config m0 = config m" "connected m0 = connected m"
    by (simp_all add: m0_def)
  show ?thesis
  proof (cases awaitAck)
    case False
    then have m: "m0 = m" by (simp add: m0_def)
    from m False once have "sendStreamAttempt rd ctx mid t len awaitAck s m = Some (err, s', m1)"
      by (simp add: sendStreamAttempt_def split: option.splits)
    moreover obtain p q where "header_bytes mid t len @ take (unat len) (avail s) = p @ q" "emits m0 p m1"
      "err = None \<longrightarrow> q = []" "quiet ctx m0 \<longrightarrow> q = [] \<and> quiet ctx m1"
      using sent unfolding sends_def by (auto simp: emits_def)
    ultimately show ?thesis using ok qt False unfolding m emits_def only_output_def by blast
  next
    case True
    obtain p q where pq: "header_bytes mid t len @ take (unat len) (avail s) = p @ q" "emits m0 p m1"
      "err = None \<longrightarrow> q = []"
      using sent unfolding sends_def by blast
    obtain ch a where reg: "registerPendingAck mid (ackTable m) = (ch, a)"
      by (cases "registerPendingAck mid (ackTable m)")
    show ?thesis
    proof (cases err)
      case (Some x)
      with True once reg have "sendStreamAttempt rd ctx mid t len awaitAck s m =
          Some (Some x, s', m1\<lparr>ackTable := unregisterPendingAck mid ch (ackTable m1)\<rparr>)"
        by (simp add: sendStreamAttempt_def m0_def)
      with pq m0 True show ?thesis by (auto simp: emits_def only_output_def)
    next
      case None
      obtain e m2 where w: "waitForAcknowledge mid (Some ch) m1 = (e, m2)"
        by (cases "waitForAcknowledge mid (Some ch) m1")
      then have "wire m2 = wire m1" "config m2 = config m1" "connected m2 = connected m1"
        by (auto simp: waitForAcknowledge_def split: prod.splits)
      moreover from True once reg None w have "sendStreamAttempt rd ctx mid t len awaitAck s m = Some (e, s', m2)"
        by (simp add: sendStreamAttempt_def m0_def)
      ultimately show ?thesis using pq m0 True None ok by (auto simp: emits_def only_output_def)
    qed
  qed
qed

lemma sendStreamAttempt_inv:
  assumes step: "\<And>s n bs e s'. P s \<Longrightarrow> rd s n = (bs, e, s') \<Longrightarrow> P s'" and "P s"
    and "sendStreamAttempt rd ctx mid t len awaitAck s m = Some (err, s', m')"
  shows "P s'"
proof -
  have "P s'" if once: "sendStreamOnce rd ctx mid t len s m0 = Some (e, s', m1)" for m0 e m1 s'
  proof -
    obtain we mw where w: "writeAll ctx (PutUint64 mid @ PutUint32 t @ PutUint32 len) m0 = (we, mw)"
      by (cases "writeAll ctx (PutUint64 mid @ PutUint32 t @ PutUint32 len) m0")
    show "P s'"
    proof (cases we)
      case (Some x)
      with once w \<open>P s\<close> show ?thesis by (simp add: sendStreamOnce_def)
    next
      case None
      with once w have "sendPayload rd ctx (unat len) s mw = Some (e, s', m1)"
        by (simp add: sendStreamOnce_def)
      with step \<open>P s\<close> show ?thesis by (rule sendPayload_inv [where P = P])
    qed
  qed
  with assms(3) show ?thesis
    by (auto simp: sendStreamAttempt_def Let_def split: prod.splits option.splits if_splits)
qed

end

context seekable_reader begin

text \<open>
  The retry loop always returns. It writes pieces of the same frame, at most one for every attempt left, and
  when it reports success the last piece is the whole frame.
\<close>

lemma send_attempts_spec:
  assumes "0 < attempt \<or> offset s = start" and "0 \<le> attempt"
  shows "\<exists>err s' m' ps. send_attempts rd ctx mid t len awaitAck (Some sk) start attempts attempt s m = Some (err, s', m')
     \<and> wire m' = wire m @ concat ps
     \<and> frame_pieces (header_bytes mid t len @ take (unat len) (drop start (content s))) (nat (attempts - attempt)) ps
     \<and> (err = None \<longrightarrow> attempt < attempts \<longrightarrow>
          ps \<noteq> [] \<and> last ps = header_bytes mid t len @ take (unat len) (drop start (content s))
          \<and> unat len \<le> length (drop start (content s)))"
  using assms
proof (induction "nat (attempts - attempt)" arbitrary: attempt s m)
  case 0
  then show ?case
    by (intro exI [of _ None] exI [of _ s] exI [of _ m] exI [of _ "[]"])
       (simp add: send_attempts.simps [of rd ctx mid t len awaitAck _ start attempts attempt s m] frame_pieces_def)
next
  case (Suc n)
  then have lt: "attempt < attempts" and n: "n = nat (attempts - (attempt + 1))" by auto
  let ?F = "header_bytes mid t len @ take (unat len) (drop start (content s))"
  note step = send_attempts.simps [of rd ctx mid t len awaitAck "Some sk" start attempts attempt s m] lt
  obtain se s0 where seek: "(if attempt > 0 then seekStart sk s start else (None, s)) = (se, s0)"
    by (cases "if attempt > 0 then seekStart sk s start else (None, s)")
  then have seek': "(if attempt > 0 then (case Some sk of None \<Rightarrow> None | Some k \<Rightarrow> Some (seekStart k s start)) else Some (None, s)) = Some (se, s0)"
    by auto
  have c0: "content s0 = content s" using seek seekStart_ok [of s start se s0] by (auto split: if_splits)
  show ?case
  proof (cases se)
    case (Some e)
    with seek' show ?thesis
      by (intro exI [of _ "Some e"] exI [of _ s0] exI [of _ m] exI [of _ "[]"]) (simp add: step frame_pieces_def)
  next
    case None
    have "offset s0 = start"
      using seek Suc.prems(1) None seekStart_ok [of s start None s0] by (auto split: if_splits)
    then have av: "avail s0 = drop start (content s)" by (simp add: avail_content c0)
    obtain err s1 m1 p q where att: "sendStreamAttempt rd ctx mid t len awaitAck s0 m = Some (err, s1, m1)"
      and pq: "?F = p @ q" and w1: "wire m1 = wire m @ p"
      and ok: "err = None \<longrightarrow> q = [] \<and> unat len \<le> length (drop start (content s))"
      using sendStreamAttempt_spec [of ctx mid t len awaitAck s0 m] unfolding av by blast
    from seek' None lt have step1: "send_attempts rd ctx mid t len awaitAck (Some sk) start attempts attempt s m =
        (case sendStreamAttempt rd ctx mid t len awaitAck s0 m of
           None \<Rightarrow> None
         | Some (None, r1, m1) \<Rightarrow> Some (None, r1, m1)
         | Some (Some e, r1, m1) \<Rightarrow>
             (case poll ctx m1 of
                (Some ce, m2) \<Rightarrow> Some (Some ce, r1, m2)
              | (None, m2) \<Rightarrow>
                  if attempt = attempts - 1 then Some (Some e, r1, m2)
                  else send_attempts rd ctx mid t len awaitAck (Some sk) start attempts (attempt + 1) r1 m2))"
      by (subst send_attempts.simps) simp
    have c1: "content s1 = content s"
      using sendStreamAttempt_inv [of "\<lambda>x. content x = content s", OF _ c0 att] read_content by auto
    have one: "frame_pieces ?F (nat (attempts - attempt)) [p]"
      using lt pq by (auto simp: frame_pieces_def)
    show ?thesis
    proof (cases err)
      case e: None
      with ok pq w1 one seek' None att show ?thesis
        by (intro exI [of _ None] exI [of _ s1] exI [of _ m1] exI [of _ "[p]"]) (simp add: step)
    next
      case e: (Some x)
      obtain pe m2 where pl: "poll ctx m1 = (pe, m2)" by (cases "poll ctx m1")
      then have w2: "wire m2 = wire m1" using poll_output by blast
      show ?thesis
      proof (cases "pe = None \<and> attempt \<noteq> attempts - 1")
        case False
        have "\<exists>y. send_attempts rd ctx mid t len awaitAck (Some sk) start attempts attempt s m = Some (Some y, s1, m2)"
        proof (cases pe)
          case pe: None
          with False have "(attempt = attempts - 1) = True" by simp
          with pe pl show ?thesis by (simp only: step1 att e) simp
        next
          case (Some y)
          with pl show ?thesis by (simp only: step1 att e) simp
        qed
        then show ?thesis using w1 w2 one by force
      next
        case True
        have "content s = content s1" by (simp add: c1)
        from Suc.hyps(1) [OF n, of s1 m2] Suc.prems c1
        obtain err' s' m' ps where rec: "send_attempts rd ctx mid t len awaitAck (Some sk) start attempts (attempt + 1) s1 m2 = Some (err', s', m')"
          and "wire m' = wire m2 @ concat ps" and ps: "frame_pieces ?F (nat (attempts - (attempt + 1))) ps"
          and last: "err' = None \<longrightarrow> attempt + 1 < attempts \<longrightarrow> ps \<noteq> [] \<and> last ps = ?F \<and> unat len \<le> length (drop start (content s))"
          by auto
        moreover have "frame_pieces ?F (nat (attempts - attempt)) (p # ps)"
          using frame_pieces_Cons [OF pq ps] lt by (simp add: Suc_nat_eq_nat_zadd1)
        moreover have "send_attempts rd ctx mid t len awaitAck (Some sk) start attempts attempt s m = Some (err', s', m')"
          using rec True pl e att seek' None by (simp add: step)
        ultimately show ?thesis using w1 w2 True lt
          by (intro exI [of _ err'] exI [of _ s'] exI [of _ m'] exI [of _ "p # ps"]) auto
      qed
    qed
  qed
qed

end

context reader begin

lemma send_once_spec:
  "\<exists>err s' m' p q. send_attempts rd ctx mid t len awaitAck None 0 1 0 s m = Some (err, s', m')
     \<and> header_bytes mid t len @ take (unat len) (avail s) = p @ q \<and> wire m' = wire m @ p
     \<and> (err = None \<longrightarrow> q = [] \<and> unat len \<le> length (avail s))
     \<and> (\<not> awaitAck \<longrightarrow> quiet ctx m \<longrightarrow> unat len \<le> length (avail s) \<longrightarrow> err = None)"
proof -
  obtain err s' m' p q where att: "sendStreamAttempt rd ctx mid t len awaitAck s m = Some (err, s', m')"
    and pq: "header_bytes mid t len @ take (unat len) (avail s) = p @ q" "wire m' = wire m @ p"
      "err = None \<longrightarrow> q = [] \<and> unat len \<le> length (avail s)"
    and qt0: "\<not> awaitAck \<longrightarrow> ackTable m' = ackTable m \<and> events m' = events m \<and>
          (quiet ctx m \<longrightarrow> quiet ctx m' \<and> q = [] \<and> err = (if unat len \<le> length (avail s) then None
                 else if errors_Is (fin s) (LibE EOF) then Some (LibE ErrUnexpectedEOF) else Some (fin s)))"
    using sendStreamAttempt_spec [of ctx mid t len awaitAck s m] by blast
  have qt: "\<not> awaitAck \<longrightarrow> quiet ctx m \<longrightarrow> unat len \<le> length (avail s) \<longrightarrow> err = None"
    using qt0 by simp
  show ?thesis
  proof (cases err)
    case None
    with att have "send_attempts rd ctx mid t len awaitAck None 0 1 0 s m = Some (None, s', m')"
      by (subst send_attempts.simps) simp
    with None pq show ?thesis by blast
  next
    case (Some x)
    obtain pe m2 where pl: "poll ctx m' = (pe, m2)" by (cases "poll ctx m'")
    then have w2: "wire m2 = wire m'" using poll_output by blast
    have "\<exists>y. send_attempts rd ctx mid t len awaitAck None 0 1 0 s m = Some (Some y, s', m2)"
      using att pl Some by (subst send_attempts.simps) (cases pe; simp)
    with Some pq w2 qt show ?thesis by force
  qed
qed

end

text \<open>How many attempts a send may make: retries need an acknowledgement to wait for.\<close>

definition max_attempts :: "'m messenger_scheme \<Rightarrow> u32 \<Rightarrow> nat" where
  "max_attempts m t = (if shouldAwaitAcknowledge m t then nat (1 + MaxRetries (config m)) else 1)"

definition fits :: "'m messenger_scheme \<Rightarrow> u32 \<Rightarrow> bool" where
  "fits m len \<longleftrightarrow> MaxMessageSize (config m) > 0 \<longrightarrow> int headerLength + int (unat len) \<le> MaxMessageSize (config m)"

context seekable_reader begin

lemma SendStreamWithID_spec:
  assumes "connected m" and "mid \<noteq> 0" and "fits m len" and "seekCurrent sk s = Inr (offset s)"
    and "0 \<le> MaxRetries (config m)"
  shows "\<exists>err s' m' ps. SendStreamWithID rd (Some sk) ctx mid t len (Some s) (Some m) = Some (err, Some s', Some m')
     \<and> wire m' = wire m @ concat ps
     \<and> frame_pieces (header_bytes mid t len @ take (unat len) (avail s)) (max_attempts m t) ps
     \<and> (err = None \<longrightarrow> ps \<noteq> [] \<and> last ps = header_bytes mid t len @ take (unat len) (avail s)
          \<and> unat len \<le> length (avail s))
     \<and> (\<not> shouldAwaitAcknowledge m t \<longrightarrow> quiet ctx m \<longrightarrow> unat len \<le> length (avail s) \<longrightarrow> err = None)"
proof (cases "shouldAwaitAcknowledge m t")
  case True
  obtain err s' m' ps where
    "send_attempts rd ctx mid t len True (Some sk) (offset s) (1 + MaxRetries (config m)) 0 s m = Some (err, s', m')"
    "wire m' = wire m @ concat ps"
    "frame_pieces (header_bytes mid t len @ take (unat len) (avail s)) (nat (1 + MaxRetries (config m))) ps"
    "err = None \<longrightarrow> ps \<noteq> [] \<and> last ps = header_bytes mid t len @ take (unat len) (avail s) \<and> unat len \<le> length (avail s)"
    using send_attempts_spec [of 0 s "offset s" ctx mid t len True "1 + MaxRetries (config m)" m] assms(5)
    unfolding avail_content by auto
  with True assms show ?thesis
    by (auto simp: SendStreamWithID_def Let_def fits_def max_attempts_def)
next
  case False
  obtain err s' m' p q where
    "send_attempts rd ctx mid t len False None 0 1 0 s m = Some (err, s', m')"
    and pq: "header_bytes mid t len @ take (unat len) (avail s) = p @ q" "wire m' = wire m @ p"
    "err = None \<longrightarrow> q = [] \<and> unat len \<le> length (avail s)"
    "quiet ctx m \<longrightarrow> unat len \<le> length (avail s) \<longrightarrow> err = None"
    using send_once_spec [of ctx mid t len False s m] by blast
  with False assms have "SendStreamWithID rd (Some sk) ctx mid t len (Some s) (Some m) = Some (err, Some s', Some m')"
    by (auto simp: SendStreamWithID_def Let_def fits_def)
  moreover have "frame_pieces (header_bytes mid t len @ take (unat len) (avail s)) (max_attempts m t) [p]"
    using pq False by (auto simp: frame_pieces_def max_attempts_def)
  ultimately show ?thesis using pq
    by (intro exI [of _ err] exI [of _ s'] exI [of _ m'] exI [of _ "[p]"]) auto
qed

end

section \<open>Acknowledgements\<close>

lemma wait_loop_ok: "acks_ok a \<Longrightarrow> wait_loop mid ch evs a = (e, a', evs') \<Longrightarrow> acks_ok a'"
  by (induction mid ch evs a rule: wait_loop.induct) (auto simp: ack_step_ok split: if_splits)

lemma wait_loop_events: "wait_loop mid ch evs a = (e, a', evs') \<Longrightarrow> \<exists>pre. evs = pre @ evs'"
proof (induction mid ch evs a rule: wait_loop.induct)
  case (1 mid ch op evs a)
  then obtain pre where "evs = pre @ evs'" by auto
  then show ?case by (intro exI [of _ "Other op # pre"]) simp
next
  case (2 mid ch evs a)
  show ?case
  proof (cases "ch \<in> set (closedChans a)")
    case True
    with 2 show ?thesis by (intro exI [of _ "[ChanReady]"]) simp
  next
    case False
    with 2 obtain pre where "evs = pre @ evs'" by auto
    then show ?thesis by (intro exI [of _ "ChanReady # pre"]) simp
  qed
qed auto

text \<open>
  The channel of a waiter that reports success was closed already or is closed by an
  acknowledgement with the waiter's ID.
\<close>

lemma wait_loop_sound:
  assumes "acks_ok a" and "ch < nextAckChan a"
    and "\<And>j. pendingAcks a j = Some ch \<Longrightarrow> j = mid"
    and "wait_loop mid ch evs a = (None, a', evs')"
  shows "ch \<in> set (closedChans a) \<or> (\<exists>pre. evs = pre @ evs' \<and> Other (Settle () mid) \<in> set pre)"
  using assms
proof (induction mid ch evs a rule: wait_loop.induct)
  case (1 mid ch op evs a)
  let ?a = "ack_step op a"
  have next': "ch < nextAckChan ?a"
    using "1.prems"(2) ack_step_fresh order.strict_trans2 by blast
  have only: "j = mid" if "pendingAcks ?a j = Some ch" for j
    using "1.prems"(3) ack_step_old_channel [OF "1.prems"(2) that] .
  from "1.prems"(4) have "wait_loop mid ch evs ?a = (None, a', evs')" by simp
  from "1.IH" [OF ack_step_ok [OF "1.prems"(1)] next' only this]
  consider "ch \<in> set (closedChans ?a)" | pre where "evs = pre @ evs'" "Other (Settle () mid) \<in> set pre"
    by blast
  then show ?case
  proof cases
    case 1
    obtain pre where "evs = pre @ evs'"
      using wait_loop_events [of mid ch evs ?a None a' evs'] "1.prems"(4) by auto
    moreover have "ch \<in> set (closedChans a) \<or> op = Settle () mid"
      using 1 ack_step_closed [OF "1.prems"(1), of op] "1.prems"(3)
      by (auto split: table_op.splits option.splits)
    ultimately show ?thesis by (auto intro!: exI [of _ "Other op # pre"])
  next
    case 2
    then show ?thesis by (intro disjI2 exI [of _ "Other op # pre"]) simp
  qed
next
  case (2 mid ch evs a)
  show ?case
  proof (cases "ch \<in> set (closedChans a)")
    case False
    with 2 obtain pre where "evs = pre @ evs'" "Other (Settle () mid) \<in> set pre" by auto
    then show ?thesis by (intro disjI2 exI [of _ "ChanReady # pre"]) simp
  qed simp
qed (auto split: if_splits)

text \<open>No other goroutine registers a waiter while this one waits.\<close>

definition no_register :: "wait_event list \<Rightarrow> bool" where
  "no_register evs \<longleftrightarrow> (\<forall>i. Other (Register () i) \<notin> set evs)"

lemma no_register_append: "no_register (xs @ ys) \<longleftrightarrow> no_register xs \<and> no_register ys"
  by (auto simp: no_register_def)

lemma ack_step_pending:
  assumes "\<And>j. op \<noteq> Register () j" and "pendingAcks (ack_step op a) i = Some c"
  shows "pendingAcks a i = Some c"
  using assms
  by (cases op)
     (auto simp: ack_step_def unregisterPendingAck_def ack_settle_def resolveAck_def close_chan_def
        split: if_splits option.splits)

lemma wait_loop_pending:
  "no_register evs \<Longrightarrow> wait_loop mid ch evs a = (e, a', evs') \<Longrightarrow> pendingAcks a' i = Some c
     \<Longrightarrow> pendingAcks a i = Some c"
proof (induction mid ch evs a rule: wait_loop.induct)
  case (1 mid ch op evs a)
  have "op \<noteq> Register () j" for j using "1.prems"(1) by (auto simp: no_register_def)
  moreover have "pendingAcks (ack_step op a) i = Some c"
    using 1 by (auto simp: no_register_def)
  ultimately show ?case by (rule ack_step_pending)
qed (auto simp: no_register_def split: if_splits)

lemma registered_facts:
  assumes "acks_ok a" and "registerPendingAck mid a = (ch, a1)"
  shows "acks_ok a1" and "ch < nextAckChan a1" and "ch \<notin> set (closedChans a1)"
    and "pendingAcks a1 j = Some ch \<Longrightarrow> j = mid"
proof -
  have a1: "a1 = ack_step (Register () mid) a" and ch: "ch = nextAckChan a"
    using assms(2) by (auto simp: registerPendingAck_def table_simps)
  show "acks_ok a1" using ack_step_ok [OF assms(1)] a1 by simp
  show "ch < nextAckChan a1" "ch \<notin> set (closedChans a1)"
    using acks_okD(3) [OF assms(1), of ch] by (auto simp: a1 ch table_simps)
  show "j = mid" if "pendingAcks a1 j = Some ch"
    using that acks_okD(1) [OF assms(1), of j ch] by (auto simp: a1 ch table_simps split: if_splits)
qed

lemma unregister_ok: "acks_ok a \<Longrightarrow> acks_ok (unregisterPendingAck mid ch a)"
  using ack_step_ok [of a "Unregister mid ch"] by (simp add: table_simps)

context reader begin

text \<open>
  An attempt that reports success while it waits for an acknowledgement has seen one with its own
  ID after it registered, and it keeps the table of waiters well-formed.
\<close>

lemma sendStreamAttempt_acks:
  assumes "acks_ok (ackTable m)"
    and "sendStreamAttempt rd ctx mid t len awaitAck s m = Some (err, s', m')"
  shows "acks_ok (ackTable m')"
    and "awaitAck \<Longrightarrow> err = None \<Longrightarrow> \<exists>pre. events m = pre @ events m' \<and> Other (Settle () mid) \<in> set pre"
    and "\<exists>pre. events m = pre @ events m'"
    and "no_register (events m) \<Longrightarrow> pendingAcks (ackTable m') i = Some c \<Longrightarrow> pendingAcks (ackTable m) i = Some c"
proof -
  define m0 where "m0 = (if awaitAck then m\<lparr>ackTable := snd (registerPendingAck mid (ackTable m))\<rparr> else m)"
  obtain e1 s1 m1 where once: "sendStreamOnce rd ctx mid t len s m0 = Some (e1, s1, m1)"
    and same: "ackTable m1 = ackTable m0" "events m1 = events m0"
    using sendStreamOnce_spec [of ctx mid t len s m0]
    by (auto simp: sends_def emits_def only_output_def)
  have ev0: "events m0 = events m" by (simp add: m0_def)
  obtain ch a where reg: "registerPendingAck mid (ackTable m) = (ch, a)"
    by (cases "registerPendingAck mid (ackTable m)")
  note facts = registered_facts [OF assms(1) reg]
  have others: "pendingAcks (ackTable m) i = Some c"
    if "pendingAcks (unregisterPendingAck mid ch x) i = Some c"
      and "\<And>j d. pendingAcks x j = Some d \<Longrightarrow> pendingAcks a j = Some d" for x
  proof -
    have x: "pendingAcks x i = Some c" and ne: "\<not> (i = mid \<and> c = ch)"
      using that(1) by (auto simp: unregisterPendingAck_def split: if_splits)
    from that(2) [OF x] ne reg show ?thesis by (auto simp: registerPendingAck_def split: if_splits)
  qed
  have "acks_ok (ackTable m') \<and> (\<exists>pre. events m = pre @ events m')
    \<and> (no_register (events m) \<longrightarrow> pendingAcks (ackTable m') i = Some c \<longrightarrow> pendingAcks (ackTable m) i = Some c)
    \<and> (awaitAck \<longrightarrow> err = None \<longrightarrow> (\<exists>pre. events m = pre @ events m' \<and> Other (Settle () mid) \<in> set pre))"
  proof (cases awaitAck)
    case False
    then have "m0 = m" by (simp add: m0_def)
    with False once assms(2) have "m' = m1"
      by (cases e1) (auto simp: sendStreamAttempt_def)
    with assms(1) same False \<open>m0 = m\<close> show ?thesis by auto
  next
    case True
    then have a0: "ackTable m0 = a" by (simp add: m0_def reg)
    show ?thesis
    proof (cases e1)
      case (Some x)
      with True once assms(2) reg have "err = Some x" "m' = m1\<lparr>ackTable := unregisterPendingAck mid ch (ackTable m1)\<rparr>"
        by (auto simp: sendStreamAttempt_def m0_def)
      moreover have "pendingAcks (ackTable m') i = Some c \<longrightarrow> pendingAcks (ackTable m) i = Some c"
        using others [of a] same a0 calculation by auto
      ultimately show ?thesis using facts(1) same a0 ev0 by (simp add: unregister_ok)
    next
      case None
      obtain we wa wevs where w: "wait_loop mid ch (events m1) (ackTable m1) = (we, wa, wevs)"
        by (cases "wait_loop mid ch (events m1) (ackTable m1)")
      with True once assms(2) reg None have r: "err = we"
        "m' = m1\<lparr>ackTable := unregisterPendingAck mid ch wa, events := wevs\<rparr>"
        by (auto simp: sendStreamAttempt_def m0_def waitForAcknowledge_def)
      have "acks_ok wa" using wait_loop_ok facts(1) w same a0 by metis
      moreover have "\<exists>pre. events m1 = pre @ wevs"
        using w by (rule wait_loop_events)
      moreover have "we = None \<Longrightarrow> \<exists>pre. events m1 = pre @ wevs \<and> Other (Settle () mid) \<in> set pre"
        using wait_loop_sound [of a ch mid "events m1" wa wevs] facts w same a0 by simp
      moreover have "no_register (events m) \<longrightarrow> pendingAcks (ackTable m') i = Some c \<longrightarrow> pendingAcks (ackTable m) i = Some c"
        using others [of wa] wait_loop_pending [of "events m1" mid ch a we wa wevs] w same a0 ev0 r by auto
      ultimately show ?thesis using r same ev0 by (simp add: unregister_ok)
    qed
  qed
  then show "acks_ok (ackTable m')" "\<exists>pre. events m = pre @ events m'"
    "no_register (events m) \<Longrightarrow> pendingAcks (ackTable m') i = Some c \<Longrightarrow> pendingAcks (ackTable m) i = Some c"
    "awaitAck \<Longrightarrow> err = None \<Longrightarrow> \<exists>pre. events m = pre @ events m' \<and> Other (Settle () mid) \<in> set pre"
    by blast+
qed

text \<open>The same for a whole send with its retries.\<close>

lemma send_attempts_acks:
  assumes "acks_ok (ackTable m)"
    and "send_attempts rd ctx mid t len awaitAck sk start attempts attempt s m = Some (err, s', m')"
  shows "acks_ok (ackTable m') \<and> (\<exists>pre. events m = pre @ events m')
    \<and> (awaitAck \<and> err = None \<and> attempt < attempts \<longrightarrow>
         (\<exists>pre. events m = pre @ events m' \<and> Other (Settle () mid) \<in> set pre))
    \<and> (no_register (events m) \<longrightarrow> pendingAcks (ackTable m') i = Some c \<longrightarrow> pendingAcks (ackTable m) i = Some c)"
  using assms
proof (induction "nat (attempts - attempt)" arbitrary: attempt s m)
  case 0
  then show ?case by (simp add: send_attempts.simps)
next
  case (Suc n)
  then have lt: "attempt < attempts" and n: "n = nat (attempts - (attempt + 1))" by auto
  note step = Suc.prems(2) [unfolded send_attempts.simps [of rd ctx mid t len awaitAck sk start attempts attempt s m]] lt
  from step obtain se s0 where seek: "(if attempt > 0 then (case sk of None \<Rightarrow> None | Some k \<Rightarrow> Some (seekStart k s start))
      else Some (None, s)) = Some (se, s0)"
    by (auto split: option.splits prod.splits if_splits)
  show ?case
  proof (cases se)
    case (Some x)
    with step seek Suc.prems(1) show ?thesis by auto
  next
    case None
    with step seek obtain e s1 m1 where att: "sendStreamAttempt rd ctx mid t len awaitAck s0 m = Some (e, s1, m1)"
      by (auto split: option.splits)
    note a = sendStreamAttempt_acks [OF Suc.prems(1) att]
    obtain pe m2 where pl: "poll ctx m1 = (pe, m2)" by (cases "poll ctx m1")
    then have same: "ackTable m2 = ackTable m1" "events m2 = events m1"
      by (auto simp: poll_def)
    consider (ok) "e = None" "m' = m1" "err = None"
      | (stop) "m' = m2" "err \<noteq> None"
      | (again) "send_attempts rd ctx mid t len awaitAck sk start attempts (attempt + 1) s1 m2 = Some (err, s', m')"
        "attempt + 1 < attempts"
      using step seek None att pl by (auto split: option.splits if_splits)
    then show ?thesis
    proof cases
      case ok
      with a show ?thesis by blast
    next
      case stop
      with a same show ?thesis by auto
    next
      case again
      obtain pre where pre: "events m = pre @ events m1" using a(3) by blast
      from Suc.hyps(1) [OF n _ again(1)] a(1) same
      have rec: "acks_ok (ackTable m') \<and> (\<exists>pre. events m1 = pre @ events m')
        \<and> (awaitAck \<and> err = None \<and> attempt + 1 < attempts \<longrightarrow>
             (\<exists>pre. events m1 = pre @ events m' \<and> Other (Settle () mid) \<in> set pre))
        \<and> (no_register (events m1) \<longrightarrow> pendingAcks (ackTable m') i = Some c \<longrightarrow> pendingAcks (ackTable m1) i = Some c)"
        by simp
      have "\<exists>pre. events m = pre @ events m'"
        using rec pre by (metis append_assoc)
      moreover have "\<exists>pre. events m = pre @ events m' \<and> Other (Settle () mid) \<in> set pre"
        if "awaitAck" "err = None"
      proof -
        from rec that again(2) obtain pre2 where "events m1 = pre2 @ events m'" "Other (Settle () mid) \<in> set pre2"
          by blast
        with pre show ?thesis by (intro exI [of _ "pre @ pre2"]) simp
      qed
      moreover have "pendingAcks (ackTable m) i = Some c"
        if "no_register (events m)" "pendingAcks (ackTable m') i = Some c"
      proof -
        from that(1) pre have "no_register (events m1)" by (simp add: no_register_append)
        with rec that a(4) show ?thesis by blast
      qed
      ultimately show ?thesis using rec by blast
    qed
  qed
qed

lemma SendStreamWithID_acks:
  assumes "acks_ok (ackTable m)"
    and "SendStreamWithID rd sk ctx mid t len (Some s) (Some m) = Some (err, s', Some m')"
    and "0 \<le> MaxRetries (config m)"
  shows "acks_ok (ackTable m')"
    and "shouldAwaitAcknowledge m t \<Longrightarrow> err = None
      \<Longrightarrow> \<exists>pre. events m = pre @ events m' \<and> Other (Settle () mid) \<in> set pre"
    and "no_register (events m) \<Longrightarrow> pendingAcks (ackTable m') i = Some c \<Longrightarrow> pendingAcks (ackTable m) i = Some c"
proof -
  consider (early) "m' = m" "err \<noteq> None"
    | (sent) start k attempts r where
        "send_attempts rd ctx mid t len (shouldAwaitAcknowledge m t) k start attempts 0 s m = Some (err, r, m')"
        "attempts > 0"
    using assms(2,3)
    by (auto simp: SendStreamWithID_def Let_def split: if_splits option.splits sum.splits)
  then have all: "acks_ok (ackTable m')
    \<and> (shouldAwaitAcknowledge m t \<and> err = None \<longrightarrow>
         (\<exists>pre. events m = pre @ events m' \<and> Other (Settle () mid) \<in> set pre))
    \<and> (no_register (events m) \<longrightarrow> pendingAcks (ackTable m') i = Some c \<longrightarrow> pendingAcks (ackTable m) i = Some c)"
  proof cases
    case early
    with assms(1) show ?thesis by simp
  next
    case sent
    from send_attempts_acks [OF assms(1) sent(1), of i c] sent(2) show ?thesis by blast
  qed
  then show "acks_ok (ackTable m')"
    and "shouldAwaitAcknowledge m t \<Longrightarrow> err = None
      \<Longrightarrow> \<exists>pre. events m = pre @ events m' \<and> Other (Settle () mid) \<in> set pre"
    and "no_register (events m) \<Longrightarrow> pendingAcks (ackTable m') i = Some c \<Longrightarrow> pendingAcks (ackTable m) i = Some c"
    by blast+
qed

text \<open>A send leaves the rest of the state alone.\<close>

lemma sendStreamAttempt_rest:
  assumes "sendStreamAttempt rd ctx mid t len awaitAck s m = Some (err, s', m')"
  shows "respTable m' = respTable m \<and> messenger.more m' = messenger.more m \<and> config m' = config m \<and> connected m' = connected m"
proof -
  define m0 where "m0 = (if awaitAck then m\<lparr>ackTable := snd (registerPendingAck mid (ackTable m))\<rparr> else m)"
  obtain e1 s1 m1 where once: "sendStreamOnce rd ctx mid t len s m0 = Some (e1, s1, m1)"
    and "respTable m1 = respTable m0 \<and> messenger.more m1 = messenger.more m0 \<and> config m1 = config m0 \<and> connected m1 = connected m0"
    using sendStreamOnce_spec [of ctx mid t len s m0]
    by (auto simp: sends_def emits_def only_output_def)
  then have same: "respTable m1 = respTable m" "messenger.more m1 = messenger.more m" "config m1 = config m" "connected m1 = connected m"
    by (simp_all add: m0_def)
  show ?thesis
  proof (cases awaitAck)
    case False
    then have "m0 = m" by (simp add: m0_def)
    with False once assms same show ?thesis
      by (cases e1) (auto simp: sendStreamAttempt_def)
  next
    case True
    then have "sendStreamOnce rd ctx mid t len s (m\<lparr>ackTable := snd (registerPendingAck mid (ackTable m))\<rparr>) = Some (e1, s1, m1)"
      using once by (simp add: m0_def)
    with True assms same show ?thesis
      by (cases e1) (auto simp: sendStreamAttempt_def waitForAcknowledge_def split: prod.splits)
  qed
qed

lemma send_attempts_rest:
  assumes "send_attempts rd ctx mid t len awaitAck sk start attempts attempt s m = Some (err, s', m')"
  shows "respTable m' = respTable m \<and> messenger.more m' = messenger.more m \<and> config m' = config m \<and> connected m' = connected m"
  using assms
proof (induction "nat (attempts - attempt)" arbitrary: attempt s m)
  case 0
  then show ?case by (simp add: send_attempts.simps)
next
  case (Suc n)
  then have lt: "attempt < attempts" and n: "n = nat (attempts - (attempt + 1))" by auto
  note step = Suc.prems [unfolded send_attempts.simps [of rd ctx mid t len awaitAck sk start attempts attempt s m]] lt
  from step obtain se s0 where seek: "(if attempt > 0 then (case sk of None \<Rightarrow> None | Some k \<Rightarrow> Some (seekStart k s start))
      else Some (None, s)) = Some (se, s0)"
    by (auto split: option.splits prod.splits if_splits)
  show ?case
  proof (cases se)
    case (Some x)
    with step seek show ?thesis by auto
  next
    case None
    with step seek obtain e s1 m1 where att: "sendStreamAttempt rd ctx mid t len awaitAck s0 m = Some (e, s1, m1)"
      by (auto split: option.splits)
    obtain pe m2 where pl: "poll ctx m1 = (pe, m2)" by (cases "poll ctx m1")
    then have same: "respTable m2 = respTable m" "messenger.more m2 = messenger.more m" "config m2 = config m" "connected m2 = connected m"
      using sendStreamAttempt_rest [OF att] by (auto simp: poll_def)
    consider "m' = m1" | "m' = m2"
      | "send_attempts rd ctx mid t len awaitAck sk start attempts (attempt + 1) s1 m2 = Some (err, s', m')"
      using step seek None att pl by (auto split: option.splits if_splits)
    then show ?thesis
      using sendStreamAttempt_rest [OF att] same Suc.hyps(1) [OF n, of s1 m2] by cases auto
  qed
qed

lemma SendStreamWithID_rest:
  assumes "SendStreamWithID rd sk ctx mid t len ro (Some m) = Some (err, ro', mo)"
  shows "\<exists>m'. mo = Some m' \<and> respTable m' = respTable m \<and> messenger.more m' = messenger.more m \<and> config m' = config m \<and> connected m' = connected m"
  using assms
  by (auto simp: SendStreamWithID_def Let_def split: if_splits option.splits sum.splits dest: send_attempts_rest)

lemma SendStreamWithID_acks_ok:
  assumes "acks_ok (ackTable m)" and "SendStreamWithID rd sk ctx mid t len ro (Some m) = Some (err, ro', Some m')"
  shows "acks_ok (ackTable m')"
proof -
  consider "m' = m"
    | s k start attempts r where
        "send_attempts rd ctx mid t len (shouldAwaitAcknowledge m t) k start attempts 0 s m = Some (err, r, m')"
    using assms(2)
    by (auto simp: SendStreamWithID_def Let_def split: if_splits option.splits sum.splits)
  then show ?thesis
    using assms(1) send_attempts_acks [OF assms(1)] by cases blast+
qed

text \<open>A send always comes back: every wait in it is bounded by the timer or the context.\<close>

lemma send_attempts_total:
  assumes "sk \<noteq> None \<or> attempts \<le> 1" and "0 \<le> attempt"
  shows "send_attempts rd ctx mid t len awaitAck sk start attempts attempt s m \<noteq> None"
  using assms(2)
proof (induction "nat (attempts - attempt)" arbitrary: attempt s m)
  case 0
  then show ?case by (simp add: send_attempts.simps)
next
  case (Suc n)
  then have lt: "attempt < attempts" and n: "n = nat (attempts - (attempt + 1))" by auto
  obtain se s0 where seek: "(if attempt > 0 then (case sk of None \<Rightarrow> None | Some k \<Rightarrow> Some (seekStart k s start))
      else Some (None, s)) = Some (se, s0)"
    using assms(1) lt by (cases sk; cases "attempt > 0") (auto, metis surj_pair)
  note step = send_attempts.simps [of rd ctx mid t len awaitAck sk start attempts attempt s m] lt seek
  show ?case
  proof (cases se)
    case (Some x)
    then show ?thesis by (simp add: step)
  next
    case None
    obtain e s1 m1 where att: "sendStreamAttempt rd ctx mid t len awaitAck s0 m = Some (e, s1, m1)"
      using sendStreamAttempt_spec [of ctx mid t len awaitAck s0 m] by blast
    obtain pe m2 where pl: "poll ctx m1 = (pe, m2)" by (cases "poll ctx m1")
    have "send_attempts rd ctx mid t len awaitAck sk start attempts (attempt + 1) s1 m2 \<noteq> None"
      using Suc.hyps(1) [OF n, of s1 m2] Suc.prems by simp
    with None att pl show ?thesis by (cases e; cases pe) (simp_all add: step)
  qed
qed

lemma SendStreamWithID_total:
  "SendStreamWithID rd sk ctx mid t len ro (Some m) \<noteq> None"
proof (cases "connected m \<and> ro \<noteq> None \<and> mid \<noteq> 0
    \<and> \<not> (MaxMessageSize (config m) > 0 \<and> int headerLength + int (unat len) > MaxMessageSize (config m))")
  case False
  then show ?thesis by (cases ro) (auto simp: SendStreamWithID_def Let_def)
next
  case True
  then obtain s where s: "ro = Some s" by blast
  let ?aw = "shouldAwaitAcknowledge m t"
  show ?thesis
  proof (cases "if ?aw then sk else None")
    case None
    have "send_attempts rd ctx mid t len ?aw None 0 1 0 s m \<noteq> None"
      by (rule send_attempts_total) simp_all
    with True s None show ?thesis by (simp add: SendStreamWithID_def Let_def del: not_None_eq)
  next
    case (Some k)
    show ?thesis
    proof (cases "seekCurrent k s")
      case (Inl e)
      with True s Some show ?thesis by (auto simp: SendStreamWithID_def Let_def)
    next
      case (Inr start)
      have "send_attempts rd ctx mid t len ?aw (Some k) start (1 + MaxRetries (config m)) 0 s m \<noteq> None"
        by (rule send_attempts_total) simp_all
      with True s Some Inr show ?thesis by (simp add: SendStreamWithID_def Let_def del: not_None_eq)
    qed
  qed
qed

end

section \<open>Properties\<close>

text \<open>A messenger without limits or acknowledgements, and one with both, for the examples.\<close>

definition plain_messenger :: "messenger" where
  "plain_messenger =
     \<lparr>config = \<lparr>RequireAcknowledge = False, Timeout = 0, MaxRetries = 0, MaxMessageSize = 0,
                 MaxMessageSizeReceived = 0\<rparr>,
      connected = True, ackTable = no_acks, respTable = no_responses, wire = [], writes = [],
      polls = 0, events = []\<rparr>"

definition acking_messenger :: "messenger" where
  "acking_messenger = plain_messenger\<lparr>config := \<lparr>RequireAcknowledge = True, Timeout = 1, MaxRetries = 1,
      MaxMessageSize = 64, MaxMessageSizeReceived = 64\<rparr>\<rparr>"

lemma Send_SendStreamWithID:
  assumes "connected m"
  shows "\<exists>mo c'. Send ctx (Some (NewMessage mid t p)) c m =
           map_option (\<lambda>(e, r, m'). (e, mo, c', case m' of Some m1 \<Rightarrow> m1 | None \<Rightarrow> m))
             (SendStreamWithID byteReader_Read (Some byteReader_Seek) ctx mid t (of_nat (length p))
                (Some (p, 0)) (Some m))"
proof -
  obtain mo c' where "message_ReadAll (Some (NewMessage mid t p)) c = Some (Inr p, mo, c')"
    using ReadAll_NewMessage [of mid t p c] by blast
  with assms show ?thesis by (intro exI [of _ mo] exI [of _ c']) (simp add: Send_def)
qed

text \<open>
  What a send without acknowledgement puts on the wire in an environment that does not fail. The
  length field has 32 bits, and as many bytes as it says follow.
\<close>

lemma Send_quiet:
  assumes "connected m" and "mid \<noteq> 0" and "fits m (of_nat (length p))" and "quiet ctx m"
    and "\<not> shouldAwaitAcknowledge m t" and "0 \<le> MaxRetries (config m)"
  shows "\<exists>mo c' m'. Send ctx (Some (NewMessage mid t p)) c m = Some (None, mo, c', m')
           \<and> wire m' = wire m @ header_bytes mid t (of_nat (length p)) @ take (length p mod 2 ^ 32) p"
proof -
  let ?len = "of_nat (length p) :: u32"
  have len: "unat ?len = length p mod 2 ^ 32" by (simp add: unat_of_nat)
  then have short: "unat ?len \<le> length p" by simp
  have sc: "seekCurrent byteReader_Seek (p, 0) = Inr (snd (p, 0 :: nat))" by (simp add: byteReader_Seek_def)
  note spec = byteReader.SendStreamWithID_spec [OF assms(1-3) sc assms(6), of ctx t, simplified]
  from spec obtain err s' m' ps where
    send: "SendStreamWithID byteReader_Read (Some byteReader_Seek) ctx mid t ?len (Some (p, 0)) (Some m) = Some (err, Some s', Some m')"
    and w: "wire m' = wire m @ concat ps"
    and ps: "frame_pieces (header_bytes mid t ?len @ take (unat ?len) p) (max_attempts m t) ps"
      "err = None \<longrightarrow> ps \<noteq> [] \<and> last ps = header_bytes mid t ?len @ take (unat ?len) p"
    and "\<not> shouldAwaitAcknowledge m t \<longrightarrow> quiet ctx m \<longrightarrow> unat ?len \<le> length p \<longrightarrow> err = None"
    by blast
  with assms(4,5) short have err: "err = None" by blast
  with ps assms(5) have "length ps = 1"
    by (cases ps) (auto simp: frame_pieces_def max_attempts_def)
  then obtain x where "ps = [x]" by (auto simp: length_Suc_conv)
  with ps err w have "wire m' = wire m @ header_bytes mid t ?len @ take (length p mod 2 ^ 32) p"
    by (simp add: len)
  with err send Send_SendStreamWithID [OF assms(1), of ctx mid t p c] show ?thesis by auto
qed

text \<open>
  C9: sending a message that passes the size check, without waiting for an acknowledgement and with
  a connection and a context that do not fail, succeeds and puts exactly the frame of the message on the wire.
\<close>

theorem Send_writes_frame:
  assumes "connected m" and "mid \<noteq> 0" and "fits m (of_nat (length p))" and "quiet ctx m"
    and "\<not> shouldAwaitAcknowledge m t" and "0 \<le> MaxRetries (config m)" and "length p < 2 ^ 32"
  shows "\<exists>mo c' m'. Send ctx (Some (NewMessage mid t p)) c m = Some (None, mo, c', m')
           \<and> wire m' = wire m @ frame mid t p"
  using Send_quiet [OF assms(1-6), of c] assms(7) by (simp add: frame_def)

theorem Send_writes_frame_witness:
  "\<exists>mo c' m'. Send (\<lambda>_. None) (Some (NewMessage 7 3 [1, 2])) ([], LibE EOF) plain_messenger = Some (None, mo, c', m')
     \<and> wire m' = frame 7 3 [1, 2]"
  using Send_writes_frame [of plain_messenger 7 "[1, 2]" "\<lambda>_. None" 3 "([], LibE EOF)"]
  by (simp add: plain_messenger_def fits_def quiet_def shouldAwaitAcknowledge_def)

text \<open>
  with no size limit configured, a payload of 4 GiB or more is sent with its length reduced modulo
  \<open>2 ^ 32\<close>: the send reports success although the rest of the payload was never written.
\<close>

theorem Send_truncates_long_payload:
  assumes "connected m" and "mid \<noteq> 0" and "MaxMessageSize (config m) = 0" and "quiet ctx m"
    and "\<not> shouldAwaitAcknowledge m t" and "0 \<le> MaxRetries (config m)" and "2 ^ 32 \<le> length p"
  shows "\<exists>mo c' m'. Send ctx (Some (NewMessage mid t p)) c m = Some (None, mo, c', m')
           \<and> length (wire m') < length (wire m) + length p"
proof -
  have "fits m (of_nat (length p))" using assms(3) by (simp add: fits_def)
  from Send_quiet [OF assms(1,2) this assms(4-6), of c]
  obtain mo c' m' where "Send ctx (Some (NewMessage mid t p)) c m = Some (None, mo, c', m')"
    and w: "wire m' = wire m @ header_bytes mid t (of_nat (length p)) @ take (length p mod 2 ^ 32) p"
    by blast
  moreover have "length p mod 2 ^ 32 < 2 ^ 32" by simp
  then have "headerLength + length p mod 2 ^ 32 < length p \<or> length p mod 2 ^ 32 + 16 \<ge> length p"
    by (auto simp: headerLength_def)
  moreover have "length p mod 2 ^ 32 + 2 ^ 32 \<le> length p"
    using assms(7) by (metis add.commute le_mod_geq mod_less_eq_dividend le_diff_conv2 mod_le_divisor)
  ultimately show ?thesis by (auto simp: headerLength_def)
qed

theorem Send_truncates_long_payload_witness:
  "\<exists>mo c' m'. Send (\<lambda>_. None) (Some (NewMessage 7 3 (replicate (2 ^ 32) 0))) ([], LibE EOF) plain_messenger
       = Some (None, mo, c', m') \<and> length (wire m') < 2 ^ 32"
  using Send_truncates_long_payload [of plain_messenger 7 "\<lambda>_. None" 3 "replicate (2 ^ 32) 0" "([], LibE EOF)"]
  by (simp add: plain_messenger_def quiet_def shouldAwaitAcknowledge_def del: power_numeral)

text \<open>
  C2: a send of a payload in memory that passes the argument checks puts on the wire at most
  \<open>1 + MaxRetries\<close> pieces (one, if no acknowledgement is awaited), each a prefix of the same frame; if it
  reports success, the last piece is the whole frame.
\<close>

theorem SendStreamWithID_pieces:
  assumes "connected m" and "mid \<noteq> 0" and "fits m len" and "0 \<le> MaxRetries (config m)"
  shows "\<exists>err s' m' ps.
     SendStreamWithID byteReader_Read (Some byteReader_Seek) ctx mid t len (Some (p, 0)) (Some m) = Some (err, Some s', Some m')
     \<and> wire m' = wire m @ concat ps
     \<and> frame_pieces (header_bytes mid t len @ take (unat len) p) (max_attempts m t) ps
     \<and> (err = None \<longrightarrow> ps \<noteq> [] \<and> last ps = header_bytes mid t len @ take (unat len) p \<and> unat len \<le> length p)"
proof -
  have "seekCurrent byteReader_Seek (p, 0) = Inr (snd (p, 0 :: nat))" by (simp add: byteReader_Seek_def)
  from byteReader.SendStreamWithID_spec [OF assms(1-3) this assms(4), of ctx t, simplified]
  show ?thesis by blast
qed

theorem SendStreamWithID_pieces_witness:
  "\<exists>err s' m' ps.
     SendStreamWithID byteReader_Read (Some byteReader_Seek) (\<lambda>_. None) 9 3 2 (Some ([1, 2], 0)) (Some acking_messenger)
       = Some (err, Some s', Some m')
     \<and> wire m' = concat ps \<and> length ps \<le> 2"
proof -
  have "connected acking_messenger" "fits acking_messenger 2" "0 \<le> MaxRetries (config acking_messenger)"
    "max_attempts acking_messenger 3 = 2" "wire acking_messenger = []"
    by (simp_all add: acking_messenger_def plain_messenger_def fits_def headerLength_def max_attempts_def
        shouldAwaitAcknowledge_def acknowledgeTypeID_def)
  with SendStreamWithID_pieces [of acking_messenger 9 2 "\<lambda>_. None" 3 "[1, 2]"]
  show ?thesis by (auto simp: frame_pieces_def)
qed

text \<open>
  C3: a send that waits for an acknowledgement and reports success has had an acknowledgement
  with its own ID arrive while it was waiting.
\<close>

theorem acknowledged_send_was_acknowledged:
  assumes "acks_ok (ackTable m)" and "shouldAwaitAcknowledge m t" and "0 \<le> MaxRetries (config m)"
    and "SendStreamWithID byteReader_Read sk ctx mid t len (Some s) (Some m) = Some (None, s', Some m')"
  shows "\<exists>pre. events m = pre @ events m' \<and> Other (Settle () mid) \<in> set pre"
  by (rule byteReader.SendStreamWithID_acks(2) [OF assms(1,4,3,2) refl])

text \<open>A send of an empty payload that is acknowledged while it waits.\<close>

definition acked_run :: messenger where
  "acked_run = acking_messenger\<lparr>events := [Other (Settle () 9), ChanReady, TimerFired]\<rparr>"

lemma acked_run_sends:
  "\<exists>s' m'. SendStreamWithID byteReader_Read (Some byteReader_Seek) (\<lambda>_. None) 9 3 0 (Some ([], 0)) (Some acked_run)
     = Some (None, s', Some m') \<and> events m' = [TimerFired]"
  by (simp add: acked_run_def acking_messenger_def plain_messenger_def SendStreamWithID_def Let_def headerLength_def
      shouldAwaitAcknowledge_def acknowledgeTypeID_def byteReader_Seek_def send_attempts.simps
      sendStreamAttempt_def sendStreamOnce_def writeAll.simps poll_def vsock_Write_def sendPayload.simps
      waitForAcknowledge_def registerPendingAck_def no_acks_def ack_step_def ack_settle_def resolveAck_def
      close_chan_def)

theorem acknowledged_send_was_acknowledged_witness:
  "\<exists>s' m' pre. SendStreamWithID byteReader_Read (Some byteReader_Seek) (\<lambda>_. None) 9 3 0 (Some ([], 0)) (Some acked_run)
     = Some (None, s', Some m') \<and> events acked_run = pre @ events m' \<and> Other (Settle () 9) \<in> set pre"
proof -
  have "acks_ok (ackTable acked_run)" "shouldAwaitAcknowledge acked_run 3" "0 \<le> MaxRetries (config acked_run)"
    by (simp_all add: acked_run_def acking_messenger_def plain_messenger_def shouldAwaitAcknowledge_def
        acknowledgeTypeID_def)
  with acked_run_sends acknowledged_send_was_acknowledged [of acked_run 3] show ?thesis by blast
qed

text \<open>
  C7: whatever the outcome of a send, it leaves no waiter behind: if the other goroutines register
  none meanwhile, every channel in the table afterwards was there before.
\<close>

theorem send_leaves_no_waiter:
  assumes "acks_ok (ackTable m)" and "0 \<le> MaxRetries (config m)" and "no_register (events m)"
    and "SendStreamWithID byteReader_Read sk ctx mid t len (Some s) (Some m) = Some (err, s', Some m')"
  shows "pendingAcks (ackTable m') \<subseteq>\<^sub>m pendingAcks (ackTable m)"
  using byteReader.SendStreamWithID_acks(3) [OF assms(1,4,2,3)]
  by (auto simp: map_le_def dom_def)

theorem send_leaves_no_waiter_witness:
  "\<exists>s' m'. SendStreamWithID byteReader_Read (Some byteReader_Seek) (\<lambda>_. None) 9 3 0 (Some ([], 0)) (Some acked_run)
     = Some (None, s', Some m') \<and> pendingAcks (ackTable m') = Map.empty"
proof -
  have "acks_ok (ackTable acked_run)" "no_register (events acked_run)" "0 \<le> MaxRetries (config acked_run)"
    "pendingAcks (ackTable acked_run) = Map.empty"
    using acks_ok_no_acks
    by (simp_all add: acked_run_def acking_messenger_def plain_messenger_def no_register_def no_acks_def)
  with acked_run_sends send_leaves_no_waiter [of acked_run] show ?thesis
    by (metis map_le_empty map_le_antisym)
qed

text \<open>
  \<^verbatim>\<open>newMessageID\<close> never returns the ID 0, and it returns as soon as the random source gives eight bytes that are
  not all zero.
\<close>

theorem newMessageID_first_nonzero:
  assumes "\<forall>i < n. \<exists>bs. rand (k + i) = Inr bs \<and> Uint64 bs = 0" and "rand (k + n) = Inr bs" and "Uint64 bs \<noteq> 0"
  shows "newMessageID rand k = Some (Inr (Uint64 bs), Suc (k + n))"
  using assms
proof (induction n arbitrary: k)
  case 0
  then show ?case by (simp add: newMessageID.simps)
next
  case (Suc n)
  from Suc.prems(1) obtain b where "rand k = Inr b" "Uint64 b = 0" by fastforce
  moreover have "newMessageID rand (Suc k) = Some (Inr (Uint64 bs), Suc (Suc k + n))"
  proof (rule Suc.IH)
    show "\<forall>i < n. \<exists>bs. rand (Suc k + i) = Inr bs \<and> Uint64 bs = 0"
      using Suc.prems(1) by (metis Suc_less_eq add_Suc_shift)
  qed (use Suc.prems in simp_all)
  ultimately show ?case by (simp add: newMessageID.simps [of rand k])
qed

theorem newMessageID_first_nonzero_witness:
  "newMessageID (\<lambda>k. Inr (if k = 0 then [0, 0, 0, 0, 0, 0, 0, 0] else [0, 0, 0, 0, 0, 0, 1, 2])) 0 = Some (Inr 258, 2)"
proof -
  have u: "Uint64 [0, 0, 0, 0, 0, 0, 1, 2] = 258" "Uint64 [0, 0, 0, 0, 0, 0, 0, 0] = 0"
    by (simp_all add: Uint64_def get_be_def)
  from newMessageID_first_nonzero [of 1 "\<lambda>k. Inr (if k = 0 then [0, 0, 0, 0, 0, 0, 0, 0] else [0, 0, 0, 0, 0, 0, 1, 2])" 0
      "[0, 0, 0, 0, 0, 0, 1, 2]"]
  show ?thesis by (simp add: u)
qed

end
