(* ===== verification/Messenger.thy ===== *)
theory Messenger
  imports Stream
begin

text \<open>
  The receiving half of the messenger: registration of handlers, reading a header, dispatching a
  message, and the loop of \<^verbatim>\<open>Serve\<close> (\<^verbatim>\<open>vsock/messenger.go\<close>, \<^verbatim>\<open>readHeader\<close> of
  \<^verbatim>\<open>vsock/stream.go\<close>), the delivery of responses and the requests that wait for them
  (\<^verbatim>\<open>vsock/request.go\<close>), and the acknowledgements that are sent back (\<^verbatim>\<open>vsock/ack.go\<close>).

  A handler is a name \<open>h\<close>, and \<open>run h ctx msg e\<close> is what calling it does: it may read the message
  from the connection and change the whole state. A response travels through a pipe to the
  goroutine that asked for it; \<open>reads ch = None\<close> says that this goroutine reads all of it and
  \<open>reads ch = Some n\<close> that it stops reading after \<open>n\<close> bytes.
\<close>

section \<open>State\<close>

text \<open>
  The fields of \<^verbatim>\<open>Messenger\<close> that receiving uses, the unread bytes of the connection, the
  responses handed to requesters (channel, header, the bytes that arrived, the error of the copy), and
  the acknowledgements whose sending goroutine has been started but has not run yet.
\<close>

record 'h endpoint = messenger +
  receivers :: "u32 \<rightharpoonup> 'h"
  unknownMessageReceiver :: "'h option"
  input :: conn
  delivered :: "(nat \<times> header \<times> byte list \<times> error option) list"
  spawned :: "message list"

type_synonym ('h, 'm) runner = "'h \<Rightarrow> ctx \<Rightarrow> message \<Rightarrow> ('h, 'm) endpoint_scheme \<Rightarrow> (error option \<times> message \<times> ('h, 'm) endpoint_scheme) option"

definition newMessenger :: "conn option \<Rightarrow> MessengerConfig \<Rightarrow> 'h endpoint" where
  "newMessenger connection cfg =
     \<lparr>config = cfg, connected = (connection \<noteq> None), ackTable = no_acks, respTable = no_responses,
      wire = [], writes = [], polls = 0, events = [], receivers = Map.empty, unknownMessageReceiver = None,
      input = (case connection of None \<Rightarrow> ([], LibE EOF) | Some c \<Rightarrow> c), delivered = [], spawned = []\<rparr>"

definition NewMessenger :: "conn option \<Rightarrow> 'h endpoint" where
  "NewMessenger connection = newMessenger connection DefaultMessengerConfig"

definition NewMessengerWithConfig :: "conn option \<Rightarrow> MessengerConfig \<Rightarrow> 'h endpoint result" where
  "NewMessengerWithConfig connection cfg =
     (case MessengerConfig_Validate (Some cfg) of
        Some e \<Rightarrow> Inl e
      | None \<Rightarrow> Inr (newMessenger connection cfg))"

section \<open>Registering handlers\<close>

definition OnUnknown :: "'h option \<Rightarrow> ('h, 'm) endpoint_scheme \<Rightarrow> error option \<times> ('h, 'm) endpoint_scheme" where
  "OnUnknown receiver e =
     (case receiver of
        None \<Rightarrow> (Some (VsockE ErrNilHandler), e)
      | Some h \<Rightarrow> (None, e\<lparr>unknownMessageReceiver := Some h\<rparr>))"

definition OnReceive :: "u32 \<Rightarrow> 'h option \<Rightarrow> ('h, 'm) endpoint_scheme \<Rightarrow> error option \<times> ('h, 'm) endpoint_scheme" where
  "OnReceive msgType receiver e =
     (case receiver of
        None \<Rightarrow> (Some (VsockE ErrNilHandler), e)
      | Some h \<Rightarrow>
          if msgType = 0 then (Some (VsockE ErrInvalidTypeID), e)
          else if receivers e msgType \<noteq> None then (Some (VsockE ErrHandlerAlreadyRegistered), e)
          else (None, e\<lparr>receivers := (receivers e)(msgType \<mapsto> h)\<rparr>))"

section \<open>Receiving one message\<close>

definition readHeader :: "('h, 'm) endpoint_scheme \<Rightarrow> (message result \<times> ('h, 'm) endpoint_scheme) option" where
  "readHeader e =
     (if \<not> connected e then Some (Inl (VsockE ErrNilTransport), e)
      else
        (case io_ReadFull conn_read headerLength (input e) of
           None \<Rightarrow> None
         | Some (hdr, Some err, c) \<Rightarrow> Some (Inl err, e\<lparr>input := c\<rparr>)
         | Some (hdr, None, c) \<Rightarrow>
             let msg = \<lparr>ID = Uint64 (take 8 hdr), MsgType = Uint32 (take 4 (drop 8 hdr)),
                        Length = Uint32 (take 4 (drop 12 hdr)), payloadReader = None, payloadCache = None\<rparr>
             in Some (if ID msg = 0 then Inl (Msg ''id is required'')
                      else if MaxMessageSizeReceived (config e) > 0
                                \<and> int (unat (Length msg)) > MaxMessageSizeReceived (config e)
                      then Inl (Msg ''received message size too large'')
                      else Inr msg, e\<lparr>input := c\<rparr>)))"

text \<open>
  The writing end of \<^verbatim>\<open>io.Pipe\<close>: a write waits until its bytes have been read, so a write to a reader
  that has stopped never returns (\<open>blocked\<close>).
\<close>

record pipe =
  got :: "byte list"
  budget :: "nat option"
  blocked :: bool

definition io_Pipe :: "nat option \<Rightarrow> pipe" where
  "io_Pipe n = \<lparr>got = [], budget = n, blocked = False\<rparr>"

definition pipe_write :: "pipe \<Rightarrow> byte list \<Rightarrow> error option \<times> pipe" where
  "pipe_write p bs =
     (case budget p of
        None \<Rightarrow> (None, p\<lparr>got := got p @ bs\<rparr>)
      | Some n \<Rightarrow>
          if length bs \<le> n then (None, p\<lparr>got := got p @ bs, budget := Some (n - length bs)\<rparr>)
          else (Some (LibE ErrClosedPipe), p\<lparr>got := got p @ take n bs, budget := Some 0, blocked := True\<rparr>))"

text \<open>
  \<^verbatim>\<open>resolveResponse\<close>. The channel has room for one message and is used once, so handing over the
  message does not block; copying the payload blocks as long as the requester does not read it.
\<close>

definition resolveResponse ::
  "(nat \<Rightarrow> nat option) \<Rightarrow> message \<Rightarrow> ('h, 'm) endpoint_scheme \<Rightarrow> ((bool \<times> error option) \<times> message \<times> ('h, 'm) endpoint_scheme) option" where
  "resolveResponse reads msg e =
     (case takeResponse (ID msg) (MsgType msg) (respTable e) of
        (None, r) \<Rightarrow> Some ((False, None), msg, e\<lparr>respTable := r\<rparr>)
      | (Some ch, r) \<Rightarrow>
          (case message_WriteTo (Some msg) (input e) (Some pipe_write) (io_Pipe (reads ch)) of
             None \<Rightarrow> None
           | Some (n, err, mo, c, p) \<Rightarrow>
               if blocked p then None
               else Some ((err = None, err), (case mo of Some msg' \<Rightarrow> msg' | None \<Rightarrow> msg),
                          e\<lparr>respTable := r, input := c,
                            delivered := delivered e @ [(ch, header.truncate msg, got p, err)]\<rparr>)))"

definition sendAcknowledge :: "message \<Rightarrow> ('h, 'm) endpoint_scheme \<Rightarrow> error option \<times> ('h, 'm) endpoint_scheme" where
  "sendAcknowledge msg e =
     (if MsgType msg = acknowledgeTypeID then (None, e)
      else (None, e\<lparr>spawned := spawned e @ [NewMessage (ID msg) acknowledgeTypeID []]\<rparr>))"

text \<open>The \<open>i\<close>-th started goroutine of \<^verbatim>\<open>sendAcknowledge\<close> runs; its error is dropped.\<close>

definition run_spawned :: "ctx \<Rightarrow> nat \<Rightarrow> ('h, 'm) endpoint_scheme \<Rightarrow> ('h, 'm) endpoint_scheme option" where
  "run_spawned ctx i e =
     (if i < length (spawned e)
      then map_option (\<lambda>(err, mo, c, e'). e'\<lparr>spawned := take i (spawned e) @ drop (Suc i) (spawned e)\<rparr>)
             (Send ctx (Some (spawned e ! i)) (input e) e)
      else Some e)"

text \<open>\<^verbatim>\<open>handleMessage\<close>; the result \<open>None\<close> stands for a call that does not come back.\<close>

definition handleMessage ::
  "('h, 'm) runner \<Rightarrow> (nat \<Rightarrow> nat option) \<Rightarrow> ctx \<Rightarrow> message option \<Rightarrow> ('h, 'm) endpoint_scheme
     \<Rightarrow> (error option \<times> message option \<times> ('h, 'm) endpoint_scheme) option" where
  "handleMessage run reads ctx mo e =
     (case mo of
        None \<Rightarrow> Some (Some (VsockE ErrNilMessage), None, e)
      | Some msg \<Rightarrow>
          (case resolveResponse reads msg e of
             None \<Rightarrow> None
           | Some ((resolved, Some err), msg1, e1) \<Rightarrow> Some (Some err, Some msg1, e1)
           | Some ((resolved, None), msg1, e1) \<Rightarrow>
               if resolved then
                 (case sendAcknowledge msg1 e1 of (err, e2) \<Rightarrow> Some (err, Some msg1, e2))
               else if MsgType msg1 = acknowledgeTypeID then
                 (case resolveAck (ID msg1) (ackTable e1) of
                    None \<Rightarrow> None
                  | Some a \<Rightarrow> Some (None, Some msg1, e1\<lparr>ackTable := a\<rparr>))
               else
                 (case (case receivers e1 (MsgType msg1) of
                          Some h \<Rightarrow> run h ctx msg1 e1
                        | None \<Rightarrow>
                            (case unknownMessageReceiver e1 of
                               Some h \<Rightarrow> run h ctx msg1 e1
                             | None \<Rightarrow> Some (None, msg1, e1))) of
                    None \<Rightarrow> None
                  | Some (Some err, msg2, e2) \<Rightarrow> Some (Some err, Some msg2, e2)
                  | Some (None, msg2, e2) \<Rightarrow>
                      (case sendAcknowledge msg2 e2 of (err, e3) \<Rightarrow> Some (err, Some msg2, e3)))))"

section \<open>The receive loop\<close>

text \<open>
  \<^verbatim>\<open>Serve\<close>. The goroutine that sets a read deadline when the context ends shows in the error the
  connection reports; \<open>timeout x\<close> says that \<open>x\<close> is a \<^verbatim>\<open>net.Error\<close> whose \<^verbatim>\<open>Timeout()\<close> holds.
\<close>

partial_function (option) Serve_loop ::
  "(error \<Rightarrow> bool) \<Rightarrow> ('h, 'm) runner \<Rightarrow> (nat \<Rightarrow> nat option) \<Rightarrow> ctx \<Rightarrow> ('h, 'm) endpoint_scheme
     \<Rightarrow> (error option \<times> ('h, 'm) endpoint_scheme) option" where
  "Serve_loop timeout run reads ctx e =
     (case readHeader e of
        None \<Rightarrow> None
      | Some (Inl err, e1) \<Rightarrow>
          (case poll ctx e1 of
             (Some ce, e2) \<Rightarrow> Some (Some ce, e2)
           | (None, e2) \<Rightarrow>
               if errors_Is err (LibE EOF) \<or> errors_Is err (LibE ErrNetClosed) then Some (None, e2)
               else if timeout err then
                 (case poll ctx e2 of
                    (Some ce, e3) \<Rightarrow> Some (Some ce, e3)
                  | (None, e3) \<Rightarrow> Some (Some err, e3))
               else Some (Some err, e2))
      | Some (Inr hdr, e1) \<Rightarrow>
          (case handleMessage run reads ctx (newMessageFromHeader (Some hdr) OnConn) e1 of
             None \<Rightarrow> None
           | Some (err, mo, e2) \<Rightarrow>
               (case message_drain mo (input e2) of
                  None \<Rightarrow> None
                | Some (drainErr, mo', c) \<Rightarrow>
                    (case err of
                       Some x \<Rightarrow> Some (Some x, e2\<lparr>input := c\<rparr>)
                     | None \<Rightarrow>
                         (case drainErr of
                            Some x \<Rightarrow> Some (Some x, e2\<lparr>input := c\<rparr>)
                          | None \<Rightarrow> Serve_loop timeout run reads ctx (e2\<lparr>input := c\<rparr>))))))"

definition Serve ::
  "(error \<Rightarrow> bool) \<Rightarrow> ('h, 'm) runner \<Rightarrow> (nat \<Rightarrow> nat option) \<Rightarrow> ctx \<Rightarrow> ('h, 'm) endpoint_scheme option
     \<Rightarrow> (error option \<times> ('h, 'm) endpoint_scheme option) option" where
  "Serve timeout run reads ctx eo =
     (case eo of
        None \<Rightarrow> Some (Some (VsockE ErrNilTransport), None)
      | Some e \<Rightarrow>
          if \<not> connected e then Some (Some (VsockE ErrNilTransport), Some e)
          else map_option (\<lambda>(err, e'). (err, Some e')) (Serve_loop timeout run reads ctx e))"

section \<open>Requests\<close>

text \<open>
  What happens to the table of pending responses while a requester waits: other requesters
  register and give up, the receive loop takes in a message with some header; then one of the arms of the
  \<^verbatim>\<open>select\<close> is taken. Sending does not look at this table, so the events during the send are put after it.
\<close>

datatype resp_event =
    RespRegister u32 u64
  | RespUnregister u64 nat
  | Incoming header
  | RespReady
  | RespCtxDone error

text \<open>
  The waiter's channel holds the messages handed over (their headers) and whether it was
  closed. Without a deadline in the context a request waits for ever (\<open>None\<close>).
\<close>

fun wait_response ::
  "nat \<Rightarrow> resp_event list \<Rightarrow> header list \<times> bool \<Rightarrow> responses \<Rightarrow> (header result \<times> responses) option" where
  "wait_response ch (RespRegister t i # evs) buf r = wait_response ch evs buf (snd (registerPendingResponse i t r))"
| "wait_response ch (RespUnregister i c # evs) buf r = wait_response ch evs buf (unregisterPendingResponse i c r)"
| "wait_response ch (Incoming h # evs) (buf, closed) r =
     (case takeResponse (ID h) (MsgType h) r of
        (ch', r') \<Rightarrow> wait_response ch evs (if ch' = Some ch then (buf @ [h], True) else (buf, closed)) r')"
| "wait_response ch (RespReady # evs) (buf, closed) r =
     (case buf of
        h # _ \<Rightarrow> Some (Inr h, r)
      | [] \<Rightarrow> if closed then Some (Inl (VsockE ErrNilMessage), r) else wait_response ch evs (buf, closed) r)"
| "wait_response ch (RespCtxDone e # evs) buf r = Some (Inl e, r)"
| "wait_response ch [] (buf, closed) r =
     (case buf of
        h # _ \<Rightarrow> Some (Inr h, r)
      | [] \<Rightarrow> if closed then Some (Inl (VsockE ErrNilMessage), r) else None)"

definition request ::
  "u64 \<Rightarrow> u32 \<Rightarrow> (('h, 'm) endpoint_scheme \<Rightarrow> (error option \<times> ('h, 'm) endpoint_scheme) option) \<Rightarrow> resp_event list \<Rightarrow> ('h, 'm) endpoint_scheme
     \<Rightarrow> (header result \<times> ('h, 'm) endpoint_scheme) option" where
  "request mid responseType send evs e =
     (case registerPendingResponse mid responseType (respTable e) of
        (Inl err, r) \<Rightarrow> Some (Inl err, e\<lparr>respTable := r\<rparr>)
      | (Inr ch, r) \<Rightarrow>
          (case send (e\<lparr>respTable := r\<rparr>) of
             None \<Rightarrow> None
           | Some (Some err, e1) \<Rightarrow>
               Some (Inl err, e1\<lparr>respTable := unregisterPendingResponse mid ch (respTable e1)\<rparr>)
           | Some (None, e1) \<Rightarrow>
               map_option (\<lambda>(res, r1). (res, e1\<lparr>respTable := unregisterPendingResponse mid ch r1\<rparr>))
                 (wait_response ch evs ([], False) (respTable e1))))"

definition Request ::
  "ctx \<Rightarrow> message option \<Rightarrow> u32 \<Rightarrow> resp_event list \<Rightarrow> ('h, 'm) endpoint_scheme option
     \<Rightarrow> (header result \<times> ('h, 'm) endpoint_scheme option) option" where
  "Request ctx mo responseType evs eo =
     (case eo of
        None \<Rightarrow> Some (Inl (VsockE ErrNilTransport), None)
      | Some e \<Rightarrow>
          if \<not> connected e then Some (Inl (VsockE ErrNilTransport), Some e)
          else
            case mo of
              None \<Rightarrow> Some (Inl (VsockE ErrNilMessage), Some e)
            | Some msg \<Rightarrow>
                if responseType = 0 then Some (Inl (VsockE ErrInvalidTypeID), Some e)
                else map_option (\<lambda>(res, e'). (res, Some e'))
                       (request (ID msg) responseType
                          (\<lambda>e1. map_option (\<lambda>(err, mo', c, e2). (err, e2\<lparr>input := c\<rparr>)) (Send ctx mo (input e1) e1))
                          evs e))"

definition RequestStream ::
  "('s \<Rightarrow> nat \<Rightarrow> 's rres) \<Rightarrow> 's seeker option \<Rightarrow> (nat \<Rightarrow> byte list result) \<Rightarrow> ctx \<Rightarrow> u32 \<Rightarrow> u32 \<Rightarrow> 's option \<Rightarrow> u32
     \<Rightarrow> resp_event list \<Rightarrow> ('h, 'm) endpoint_scheme option \<Rightarrow> (header result \<times> ('h, 'm) endpoint_scheme option) option" where
  "RequestStream rd sk rand ctx msgType payloadLen ro responseType evs eo =
     (case eo of
        None \<Rightarrow> Some (Inl (VsockE ErrNilTransport), None)
      | Some e \<Rightarrow>
          if \<not> connected e then Some (Inl (VsockE ErrNilTransport), Some e)
          else if ro = None then Some (Inl (Msg ''reader is required''), Some e)
          else if msgType = 0 \<or> responseType = 0 then Some (Inl (VsockE ErrInvalidTypeID), Some e)
          else
            case newMessageID rand 0 of
              None \<Rightarrow> None
            | Some (Inl err, k) \<Rightarrow> Some (Inl err, Some e)
            | Some (Inr mid, k) \<Rightarrow>
                map_option (\<lambda>(res, e'). (res, Some e'))
                  (request mid responseType
                     (\<lambda>e1. map_option (\<lambda>(err, ro', eo'). (err, case eo' of Some e2 \<Rightarrow> e2 | None \<Rightarrow> e1))
                             (SendStreamWithID rd sk ctx mid msgType payloadLen ro (Some e1)))
                     evs e))"

section \<open>Reading headers\<close>

lemma readHeader_frame:
  assumes "connected e" and "conn_avail (input e) = header_bytes mid t len @ rest"
  shows "\<exists>c. readHeader e = Some
      (if mid = 0 then Inl (Msg ''id is required'')
       else if MaxMessageSizeReceived (config e) > 0 \<and> int (unat len) > MaxMessageSizeReceived (config e)
       then Inl (Msg ''received message size too large'')
       else Inr \<lparr>ID = mid, MsgType = t, Length = len, payloadReader = None, payloadCache = None\<rparr>, e\<lparr>input := c\<rparr>)
    \<and> conn_avail c = rest \<and> conn_fin c = conn_fin (input e)"
proof -
  have "headerLength \<le> length (conn_avail (input e))" by (simp add: assms(2))
  from conn.ReadFull_ok [OF this] obtain c where
    c: "io_ReadFull conn_read headerLength (input e) = Some (header_bytes mid t len, None, c)"
      "conn_avail c = rest" "conn_fin c = conn_fin (input e)"
    by (auto simp: assms(2))
  have fields: "Uint64 (take 8 (header_bytes mid t len)) = mid"
    "Uint32 (take 4 (drop 8 (header_bytes mid t len))) = t"
    "Uint32 (take 4 (drop 12 (header_bytes mid t len))) = len"
    using header_fields [of mid t len "[]"] by simp_all
  from c assms(1) show ?thesis
    by (intro exI [of _ c]) (simp add: readHeader_def Let_def fields)
qed

lemma readHeader_end:
  assumes "connected e" and "conn_avail (input e) = []"
  shows "\<exists>c. readHeader e = Some (Inl (conn_fin (input e)), e\<lparr>input := c\<rparr>)"
proof -
  have "length (conn_avail (input e)) < headerLength" by (simp add: assms(2) headerLength_def)
  from conn.ReadFull_short [OF this] assms obtain c where
    "io_ReadFull conn_read headerLength (input e) = Some ([], Some (conn_fin (input e)), c)"
    by auto
  with assms(1) show ?thesis by (intro exI [of _ c]) (simp add: readHeader_def)
qed

section \<open>Delivering a response\<close>

context reader begin

text \<open>A requester that reads everything gets the payload; one that stops early blocks the copy.\<close>

lemma Copy_to_patient_reader:
  assumes "budget p = None" and "\<not> blocked p"
  shows "\<exists>s' p'. io_Copy rd pipe_write s p =
            Some (length (avail s), if fin s = LibE EOF then None else Some (fin s), s', p')
          \<and> \<not> blocked p' \<and> got p' = got p @ avail s"
  using copy_loop_willing_writer [of "\<lambda>p. budget p = None \<and> \<not> blocked p" pipe_write got 32768 p 0 s] assms
  by (auto simp: io_Copy_def pipe_write_def)

lemma copy_loop_to_impatient_reader:
  "0 < k \<Longrightarrow> budget p = Some n \<Longrightarrow> \<not> blocked p \<Longrightarrow>
   \<exists>r err s' p'. copy_loop rd pipe_write k written s p = Some (r, err, s', p')
     \<and> (blocked p' \<longleftrightarrow> n < length (avail s))"
proof (induction "meas s" arbitrary: s p n written rule: less_induct)
  case less
  obtain bs e s1 where r: "rd s k = (bs, e, s1)" by (cases "rd s k")
  note step = copy_loop.simps [of rd pipe_write k written s p] r
  show ?case
  proof (cases e)
    case (Some x)
    with r rd_stop have "bs = []" "avail s = []" by blast+
    with Some less.prems show ?thesis by (simp add: step)
  next
    case None
    with r have av: "avail s = bs @ avail s1" and m: "meas s1 < meas s"
      using rd_ok rd_progress less.prems(1) by auto
    show ?thesis
    proof (cases "length bs \<le> n")
      case True
      define p1 where "p1 = (if bs = [] then p else p\<lparr>got := got p @ bs, budget := Some (n - length bs)\<rparr>)"
      have "budget p1 = Some (n - length bs)" "\<not> blocked p1"
        using less.prems by (auto simp: p1_def)
      from less.hyps [OF m less.prems(1) this, of "written + length bs"]
      obtain r' err s' p' where "copy_loop rd pipe_write k (written + length bs) s1 p1 = Some (r', err, s', p')"
        and "blocked p' \<longleftrightarrow> n - length bs < length (avail s1)" by blast
      moreover have "(if bs = [] then (None, p) else pipe_write p bs) = (None, p1)"
        using True less.prems by (simp add: p1_def pipe_write_def)
      moreover have "(n - length bs < length (avail s1)) = (n < length (avail s))"
        using True av by auto
      ultimately show ?thesis using None by (simp add: step)
    next
      case False
      then have "bs \<noteq> []" by auto
      with False None less.prems av show ?thesis by (auto simp: step pipe_write_def)
    qed
  qed
qed

end

definition conn_message :: "u64 \<Rightarrow> u32 \<Rightarrow> u32 \<Rightarrow> message" where
  "conn_message mid t len =
     \<lparr>ID = mid, MsgType = t, Length = len, payloadReader = Some (OnConn, unat len), payloadCache = None\<rparr>"

text \<open>
  What a handler must leave alone: the bytes after the payload of its message, how the connection ends, and
  the configuration.
\<close>

definition place :: "message \<Rightarrow> ('h, 'm) endpoint_scheme \<Rightarrow> byte list \<times> error \<times> MessengerConfig \<times> bool" where
  "place msg e = (after_payload msg (input e), conn_fin (input e), config e, connected e)"

lemma WriteTo_pipe:
  assumes "\<forall>ch. reads ch = None"
  shows "\<exists>n err msg' c p. message_WriteTo (Some msg) (input e) (Some pipe_write) (io_Pipe (reads ch))
      = Some (n, err, Some msg', c, p) \<and> \<not> blocked p
    \<and> after_payload msg' c = after_payload msg (input e) \<and> conn_fin c = conn_fin (input e)"
proof -
  have pipe0: "budget (io_Pipe (reads ch)) = None" "\<not> blocked (io_Pipe (reads ch))"
    by (simp_all add: io_Pipe_def assms)
  have "\<exists>n err msg' c p. message_WriteTo (Some msg) (input e) (Some pipe_write) (io_Pipe (reads ch))
      = Some (n, err, Some msg', c, p) \<and> \<not> blocked p"
  proof (cases "payloadCache msg")
    case (Some b)
    with bytes.Copy_to_patient_reader [OF pipe0, of b] show ?thesis
      by (auto simp: message_WriteTo_def)
  next
    case None
    show ?thesis
    proof (cases "payloadReader msg")
      case None
      with \<open>payloadCache msg = None\<close> pipe0 show ?thesis by (simp add: message_WriteTo_def)
    next
      case (Some rN)
      then obtain r N where rd: "payloadReader msg = Some (r, N)" by (cases rN) auto
      obtain s' p' where "io_Copy payload_read pipe_write ((r, input e), N) (io_Pipe (reads ch)) =
          Some (length (payload_avail ((r, input e), N)),
                if payload_fin ((r, input e), N) = LibE EOF then None else Some (payload_fin ((r, input e), N)), s', p')"
        "\<not> blocked p'"
        using payload.Copy_to_patient_reader [OF pipe0, of "((r, input e), N)"] by blast
      then show ?thesis using rd \<open>payloadCache msg = None\<close>
        by (cases s') (auto simp: message_WriteTo_def split: prod.splits)
    qed
  qed
  then obtain n err msg' c p where w: "message_WriteTo (Some msg) (input e) (Some pipe_write) (io_Pipe (reads ch))
      = Some (n, err, Some msg', c, p)" "\<not> blocked p" by blast
  with WriteTo_place [OF w(1)] show ?thesis by auto
qed

section \<open>Dispatching a message\<close>

text \<open>
  The contract of handlers: a call comes back, does not touch what lies beyond its message, and
  keeps the table of acknowledgements well-formed.
\<close>

locale handlers =
  fixes run :: "('h, 'm) runner"
  assumes run_ok: "\<exists>err msg' e'. run h ctx msg e = Some (err, msg', e') \<and> place msg' e' = place msg e
      \<and> (acks_ok (ackTable e) \<longrightarrow> acks_ok (ackTable e'))"
begin

lemma resolveResponse_place:
  assumes "\<forall>ch. reads ch = None"
  shows "\<exists>r err msg' e'. resolveResponse reads msg e = Some ((r, err), msg', e') \<and> place msg' e' = place msg e
      \<and> ackTable e' = ackTable e"
proof (cases "takeResponse (ID msg) (MsgType msg) (respTable e)")
  case (Pair cho r)
  show ?thesis
  proof (cases cho)
    case None
    with Pair have "resolveResponse reads msg e = Some ((False, None), msg, e\<lparr>respTable := r\<rparr>)"
      by (simp add: resolveResponse_def)
    then show ?thesis by (auto simp: place_def)
  next
    case (Some ch)
    from WriteTo_pipe [OF assms, of msg e ch] obtain n err msg' c p where
      "message_WriteTo (Some msg) (input e) (Some pipe_write) (io_Pipe (reads ch)) = Some (n, err, Some msg', c, p)"
      "\<not> blocked p" "after_payload msg' c = after_payload msg (input e)" "conn_fin c = conn_fin (input e)"
      by blast
    with Pair Some show ?thesis by (simp add: resolveResponse_def place_def)
  qed
qed

lemma sendAcknowledge_place:
  "sendAcknowledge msg e = (err, e') \<Longrightarrow> err = None \<and> place msg e' = place msg e \<and> ackTable e' = ackTable e"
  by (auto simp: sendAcknowledge_def place_def split: if_splits)

lemma handleMessage_place:
  assumes "\<forall>ch. reads ch = None" and "acks_ok (ackTable e)"
  shows "\<exists>err msg' e'. handleMessage run reads ctx (Some msg) e = Some (err, Some msg', e')
      \<and> place msg' e' = place msg e \<and> acks_ok (ackTable e')"
proof -
  obtain r err msg1 e1 where rr: "resolveResponse reads msg e = Some ((r, err), msg1, e1)"
    and p1: "place msg1 e1 = place msg e" and a1: "ackTable e1 = ackTable e"
    using resolveResponse_place [OF assms(1)] by blast
  note step = handleMessage_def rr
  show ?thesis
  proof (cases err)
    case (Some x)
    with p1 a1 assms(2) show ?thesis by (simp add: step)
  next
    case err: None
    show ?thesis
    proof (cases r)
      case True
      with err p1 a1 assms(2) show ?thesis
        by (auto simp: step dest: sendAcknowledge_place split: prod.splits)
    next
      case r: False
      show ?thesis
      proof (cases "MsgType msg1 = acknowledgeTypeID")
        case True
        obtain a where a: "resolveAck (ID msg1) (ackTable e1) = Some a"
          using resolveAck_ok [of "ackTable e1" "ID msg1"] assms(2) a1 by auto
        have "acks_ok a"
          using ack_step_ok [of "ackTable e1" "Settle () (ID msg1)"] assms(2) a1 a
          by (simp add: ack_step_def ack_settle_def)
        with True r err a p1 show ?thesis by (simp add: step place_def)
      next
        case False
        let ?call = "case receivers e1 (MsgType msg1) of
            Some h \<Rightarrow> run h ctx msg1 e1
          | None \<Rightarrow> (case unknownMessageReceiver e1 of Some h \<Rightarrow> run h ctx msg1 e1 | None \<Rightarrow> Some (None, msg1, e1))"
        obtain herr msg2 e2 where call: "?call = Some (herr, msg2, e2)" and p2: "place msg2 e2 = place msg e"
          and a2: "acks_ok (ackTable e2)"
        proof -
          have run: "\<exists>herr msg2 e2. run h ctx msg1 e1 = Some (herr, msg2, e2) \<and> place msg2 e2 = place msg e
              \<and> acks_ok (ackTable e2)" for h
            using run_ok [of h ctx msg1 e1] p1 a1 assms(2) by auto
          have "\<exists>herr msg2 e2. ?call = Some (herr, msg2, e2) \<and> place msg2 e2 = place msg e \<and> acks_ok (ackTable e2)"
          proof (cases "receivers e1 (MsgType msg1)")
            case None
            then show ?thesis using run p1 a1 assms(2) by (cases "unknownMessageReceiver e1") simp_all
          next
            case (Some h)
            then show ?thesis using run [of h] by simp
          qed
          with that show thesis by blast
        qed
        show ?thesis
        proof (cases herr)
          case (Some x)
          with call r err False p2 a2 show ?thesis by (simp add: step)
        next
          case None
          obtain aerr e3 where "sendAcknowledge msg2 e2 = (aerr, e3)" by (cases "sendAcknowledge msg2 e2")
          with call r err False p2 a2 None sendAcknowledge_place [OF this] show ?thesis by (simp add: step)
        qed
      qed
    qed
  qed
qed

end

section \<open>The receive loop\<close>

definition frames :: "(u64 \<times> u32 \<times> byte list) list \<Rightarrow> byte list" where
  "frames fs = concat (map (\<lambda>(mid, t, p). frame mid t p) fs)"

lemma frames_simps [simp]:
  "frames [] = []" "frames ((mid, t, p) # fs) = frame mid t p @ frames fs"
  by (simp_all add: frames_def)

text \<open>What a receiver accepts.\<close>

definition acceptable :: "MessengerConfig \<Rightarrow> u64 \<times> u32 \<times> byte list \<Rightarrow> bool" where
  "acceptable cfg f =
     (case f of (mid, t, p) \<Rightarrow>
        mid \<noteq> 0 \<and> length p < 2 ^ 32
        \<and> (MaxMessageSizeReceived cfg > 0 \<longrightarrow> int (length p) \<le> MaxMessageSizeReceived cfg))"

text \<open>
  What the receive loop does on a connection that carries the frames \<open>fs\<close> and then ends: each frame is dispatched
  once, in order, as a message whose payload is at the front of the connection and with the following frames behind it, up to
  the first call that fails.
\<close>

inductive serves ::
  "('h, 'm) runner \<Rightarrow> (nat \<Rightarrow> nat option) \<Rightarrow> ctx \<Rightarrow> (u64 \<times> u32 \<times> byte list) list \<Rightarrow> ('h, 'm) endpoint_scheme
     \<Rightarrow> error option \<Rightarrow> ('h, 'm) endpoint_scheme \<Rightarrow> bool"
  for run :: "('h, 'm) runner" and reads :: "nat \<Rightarrow> nat option" and ctx :: ctx where
  serves_end: "conn_avail (input e) = [] \<Longrightarrow>
     serves run reads ctx [] e None (e\<lparr>input := c, polls := Suc (polls e)\<rparr>)"
| serves_next: "conn_avail (input e) = frames ((mid, t, p) # fs) \<Longrightarrow> conn_avail c = p @ frames fs \<Longrightarrow>
     handleMessage run reads ctx (Some (conn_message mid t (of_nat (length p)))) (e\<lparr>input := c\<rparr>) = Some (None, Some msg, e2) \<Longrightarrow>
     message_drain (Some msg) (input e2) = Some (None, mo, c2) \<Longrightarrow> conn_avail c2 = frames fs \<Longrightarrow>
     serves run reads ctx fs (e2\<lparr>input := c2\<rparr>) err e' \<Longrightarrow>
     serves run reads ctx ((mid, t, p) # fs) e err e'"
| serves_fail: "conn_avail (input e) = frames ((mid, t, p) # fs) \<Longrightarrow> conn_avail c = p @ frames fs \<Longrightarrow>
     handleMessage run reads ctx (Some (conn_message mid t (of_nat (length p)))) (e\<lparr>input := c\<rparr>) = Some (Some x, Some msg, e2) \<Longrightarrow>
     message_drain (Some msg) (input e2) = Some (derr, mo, c2) \<Longrightarrow> conn_avail c2 = frames fs \<Longrightarrow>
     serves run reads ctx ((mid, t, p) # fs) e (Some x) (e2\<lparr>input := c2\<rparr>)"

lemma acceptable_header:
  assumes "acceptable cfg (mid, t, p)"
  shows "mid \<noteq> 0" and "unat (of_nat (length p) :: u32) = length p"
    and "\<not> (MaxMessageSizeReceived cfg > 0 \<and> int (unat (of_nat (length p) :: u32)) > MaxMessageSizeReceived cfg)"
  using assms unat_of_nat_u32 [of "length p"] by (auto simp: acceptable_def)

lemma readHeader_acceptable:
  assumes "connected e" and "conn_avail (input e) = frames ((mid, t, p) # fs)" and "acceptable (config e) (mid, t, p)"
  shows "\<exists>c. readHeader e = Some
      (Inr \<lparr>ID = mid, MsgType = t, Length = of_nat (length p), payloadReader = None, payloadCache = None\<rparr>, e\<lparr>input := c\<rparr>)
    \<and> conn_avail c = p @ frames fs \<and> conn_fin c = conn_fin (input e)"
proof -
  have "conn_avail (input e) = header_bytes mid t (of_nat (length p)) @ (p @ frames fs)"
    using assms(2) by (simp add: frame_def)
  from readHeader_frame [OF assms(1) this] acceptable_header [OF assms(3)]
  show ?thesis by auto
qed

context handlers begin

lemma Serve_loop_serves:
  assumes "\<forall>ch. reads ch = None" and "\<forall>k. ctx k = None"
  shows "connected e \<Longrightarrow> acks_ok (ackTable e) \<Longrightarrow> conn_fin (input e) = LibE EOF \<Longrightarrow>
     conn_avail (input e) = frames fs \<Longrightarrow> list_all (acceptable (config e)) fs \<Longrightarrow>
     \<exists>err e'. Serve_loop timeout run reads ctx e = Some (err, e') \<and> serves run reads ctx fs e err e'"
proof (induction fs arbitrary: e)
  case Nil
  then obtain c where "readHeader e = Some (Inl (LibE EOF), e\<lparr>input := c\<rparr>)"
    using readHeader_end [of e] by auto
  then have "Serve_loop timeout run reads ctx e = Some (None, e\<lparr>input := c, polls := Suc (polls e)\<rparr>)"
    using assms(2) by (subst Serve_loop.simps) (simp add: poll_def)
  with serves_end [of e run reads ctx c] Nil show ?case by auto
next
  case (Cons f fs)
  obtain mid t p where f: "f = (mid, t, p)" by (cases f)
  let ?msg = "conn_message mid t (of_nat (length p))"
  from Cons.prems f have av: "conn_avail (input e) = frames ((mid, t, p) # fs)"
    and ok: "acceptable (config e) (mid, t, p)" by simp_all
  obtain c where hdr: "readHeader e = Some
      (Inr \<lparr>ID = mid, MsgType = t, Length = of_nat (length p), payloadReader = None, payloadCache = None\<rparr>, e\<lparr>input := c\<rparr>)"
    and c: "conn_avail c = p @ frames fs" "conn_fin c = LibE EOF"
    using readHeader_acceptable [OF Cons.prems(1) av ok] Cons.prems(3) by auto
  have place0: "place ?msg (e\<lparr>input := c\<rparr>) = (frames fs, LibE EOF, config e, connected e)"
    using c acceptable_header(2) [OF ok] by (simp add: place_def after_payload_def conn_message_def)
  obtain err msg e2 where h: "handleMessage run reads ctx (Some ?msg) (e\<lparr>input := c\<rparr>) = Some (err, Some msg, e2)"
    and pl: "place msg e2 = (frames fs, LibE EOF, config e, connected e)" and ak: "acks_ok (ackTable e2)"
    using handleMessage_place [OF assms(1), of "e\<lparr>input := c\<rparr>" ctx ?msg] Cons.prems(2) place0 by auto
  obtain mo c2 where d: "message_drain (Some msg) (input e2) = Some (None, mo, c2)"
    and c2: "conn_avail c2 = frames fs" "conn_fin c2 = LibE EOF"
    using drain_place [of msg "input e2"] pl by (auto simp: place_def)
  have msg0: "newMessageFromHeader (Some \<lparr>ID = mid, MsgType = t, Length = of_nat (length p), payloadReader = None,
      payloadCache = None\<rparr>) OnConn = Some ?msg"
    by (simp add: newMessageFromHeader_def conn_message_def)
  show ?case
  proof (cases err)
    case (Some x)
    then have "Serve_loop timeout run reads ctx e = Some (Some x, e2\<lparr>input := c2\<rparr>)"
      using hdr h d msg0 by (subst Serve_loop.simps) simp
    moreover have "serves run reads ctx ((mid, t, p) # fs) e (Some x) (e2\<lparr>input := c2\<rparr>)"
      using serves_fail [OF av c(1) _ d c2(1)] h Some by blast
    ultimately show ?thesis using f by blast
  next
    case None
    then have step: "Serve_loop timeout run reads ctx e = Serve_loop timeout run reads ctx (e2\<lparr>input := c2\<rparr>)"
      using hdr h d msg0 by (subst Serve_loop.simps) simp
    have "connected e2" "config e2 = config e" using pl Cons.prems(1) by (simp_all add: place_def)
    with Cons.IH [of "e2\<lparr>input := c2\<rparr>"] ak c2 Cons.prems(5) obtain err' e' where
      rec: "Serve_loop timeout run reads ctx (e2\<lparr>input := c2\<rparr>) = Some (err', e')"
        "serves run reads ctx fs (e2\<lparr>input := c2\<rparr>) err' e'"
      by auto
    with serves_next [OF av c(1) _ d c2(1) rec(2)] h None f step show ?thesis by auto
  qed
qed

end

section \<open>Answers to requests\<close>

lemma Send_rest:
  assumes "Send ctx mo c m = Some (err, mo', c', m')"
  shows "respTable m' = respTable m \<and> messenger.more m' = messenger.more m \<and> config m' = config m \<and> connected m' = connected m"
  using assms
  by (auto simp: Send_def split: option.splits if_splits sum.splits dest!: byteReader.SendStreamWithID_rest)

lemma Send_acks_ok:
  assumes "acks_ok (ackTable m)" and "Send ctx mo c m = Some (err, mo', c', m')"
  shows "acks_ok (ackTable m')"
proof (cases "\<exists>msg payload mo1 c1. mo = Some msg \<and> connected m \<and> message_ReadAll (Some msg) c = Some (Inr payload, mo1, c1)")
  case False
  with assms show ?thesis by (auto simp: Send_def split: option.splits if_splits sum.splits)
next
  case True
  then obtain msg payload mo1 c1 where m: "mo = Some msg" "connected m" "message_ReadAll (Some msg) c = Some (Inr payload, mo1, c1)"
    by blast
  with assms(2) obtain ro m1 where send: "SendStreamWithID byteReader_Read (Some byteReader_Seek) ctx (ID msg) (MsgType msg)
      (of_nat (length payload)) (Some (payload, 0)) (Some m) = Some (err, ro, m1)"
    and m': "m' = (case m1 of Some x \<Rightarrow> x | None \<Rightarrow> m)"
    by (auto simp: Send_def)
  with byteReader.SendStreamWithID_acks_ok [OF assms(1)] assms(1) show ?thesis
    by (cases m1) auto
qed


text \<open>Sending a message made of bytes always comes back and does not read from the connection.\<close>

lemma ReadAll_NewMessage_conn:
  "\<exists>mo. message_ReadAll (Some (NewMessage mid t p)) c = Some (Inr p, mo, c)"
  by (cases "p = []")
     (simp_all add: NewMessage_def message_ReadAll_def io_ReadAll_def read_all_loop.simps payload_read_def limited_read_def)

lemma Send_NewMessage:
  "\<exists>err mo m'. Send ctx (Some (NewMessage mid t p)) c m = Some (err, mo, c, m')"
proof (cases "connected m")
  case False
  then show ?thesis by (simp add: Send_def)
next
  case True
  obtain mo where "message_ReadAll (Some (NewMessage mid t p)) c = Some (Inr p, mo, c)"
    using ReadAll_NewMessage_conn by blast
  moreover obtain e r m' where "SendStreamWithID byteReader_Read (Some byteReader_Seek) ctx mid t (of_nat (length p)) (Some (p, 0)) (Some m)
      = Some (e, r, m')"
    using byteReader.SendStreamWithID_total by (metis not_Some_eq prod.collapse)
  ultimately show ?thesis using True by (simp add: Send_def)
qed

text \<open>Only the entry of \<open>mid\<close>, with the type \<open>t\<close>, may have the channel \<open>ch\<close>.\<close>

definition owns :: "nat \<Rightarrow> u64 \<Rightarrow> u32 \<Rightarrow> responses \<Rightarrow> bool" where
  "owns ch mid t r \<longleftrightarrow> ch < nextRespChan r \<and> (\<forall>i t'. pendingResponses r i = Some (t', ch) \<longrightarrow> i = mid \<and> t' = t)"

lemma owns_steps:
  assumes "owns ch mid t r"
  shows "owns ch mid t (snd (registerPendingResponse i t' r))"
    and "owns ch mid t (unregisterPendingResponse i c r)"
    and "owns ch mid t (snd (takeResponse i t' r))"
  using assms
  by (auto simp: owns_def registerPendingResponse_def unregisterPendingResponse_def takeResponse_def
      split: option.splits if_splits)

lemma takeResponse_owned:
  "owns ch mid t r \<Longrightarrow> takeResponse i t' r = (Some ch, r') \<Longrightarrow> i = mid \<and> t' = t"
  by (auto simp: owns_def takeResponse_def split: option.splits if_splits)

lemma wait_response_owned:
  assumes "owns ch mid t r" and "\<forall>h \<in> set (fst buf). ID h = mid \<and> MsgType h = t"
    and "wait_response ch evs buf r = Some (res, r')"
  shows "owns ch mid t r' \<and> (\<forall>h. res = Inr h \<longrightarrow> ID h = mid \<and> MsgType h = t)"
  using assms
proof (induction ch evs buf r rule: wait_response.induct)
  case (1 ch t' i evs buf r)
  show ?case by (rule 1(1) [OF owns_steps(1) [OF 1(2)] 1(3)]) (use 1(4) in simp)
next
  case (2 ch i c evs buf r)
  show ?case by (rule 2(1) [OF owns_steps(2) [OF 2(2)] 2(3)]) (use 2(4) in simp)
next
  case (3 ch h evs buf closed r)
  obtain cho r1 where t: "takeResponse (ID h) (MsgType h) r = (cho, r1)" by (cases "takeResponse (ID h) (MsgType h) r")
  have "owns ch mid t r1" using owns_steps(3) [OF 3(2), of "ID h" "MsgType h"] t by simp
  moreover have "\<forall>x \<in> set (fst (if cho = Some ch then (buf @ [h], True) else (buf, closed))). ID x = mid \<and> MsgType x = t"
    using 3(3) takeResponse_owned [OF 3(2), of "ID h" "MsgType h" r1] t by auto
  moreover have "wait_response ch evs (if cho = Some ch then (buf @ [h], True) else (buf, closed)) r1 = Some (res, r')"
    using 3(4) unfolding wait_response.simps t by simp
  ultimately show ?case by (rule 3(1) [OF t [symmetric]])
next
  case (4 ch evs buf closed r)
  show ?case
  proof (cases buf)
    case (Cons h hs)
    with 4(4) have "res = Inr h" "r' = r" by simp_all
    with 4(2,3) Cons show ?thesis by simp
  next
    case Nil
    show ?thesis
    proof (cases closed)
      case True
      with 4(4) Nil have "res = Inl (VsockE ErrNilMessage)" "r' = r" by simp_all
      with 4(2) show ?thesis by simp
    next
      case False
      with 4(4) Nil have "wait_response ch evs ([], False) r = Some (res, r')" by simp
      with 4(1) [OF Nil] 4(2) Nil False show ?thesis by simp
    qed
  qed
next
  case (5 ch e evs buf r)
  then have "res = Inl e" "r' = r" by simp_all
  with 5(1) show ?case by simp
next
  case (6 ch buf closed r)
  show ?case
  proof (cases buf)
    case (Cons h hs)
    with 6(3) have "res = Inr h" "r' = r" by simp_all
    with 6(1,2) Cons show ?thesis by simp
  next
    case Nil
    with 6(3) have "res = Inl (VsockE ErrNilMessage)" "r' = r" by (cases closed; simp)+
    with 6(1) show ?thesis by simp
  qed
qed

lemma registered_owns:
  assumes "well_formed resp_table nextRespChan r" and "registerPendingResponse mid t r = (Inr ch, r1)"
  shows "owns ch mid t r1"
proof -
  have "pendingResponses r mid = None"
    using assms(2) by (cases "pendingResponses r mid") (simp_all add: registerPendingResponse_def)
  then have reg: "registerPendingResponse mid t r = (Inr (nextRespChan r),
      r\<lparr>pendingResponses := (pendingResponses r)(mid \<mapsto> (t, nextRespChan r)), nextRespChan := Suc (nextRespChan r)\<rparr>)"
    by (simp add: registerPendingResponse_def)
  have r: "ch = nextRespChan r" "pendingResponses r1 = (pendingResponses r)(mid \<mapsto> (t, ch))" "nextRespChan r1 = Suc ch"
    using arg_cong [OF assms(2) [unfolded reg], of fst] arg_cong [OF assms(2) [unfolded reg], of snd] by auto
  have "pendingResponses r i \<noteq> Some (t', ch)" for i t'
  proof
    assume "pendingResponses r i = Some (t', ch)"
    then have "resp_table r i = Some ch" by (simp add: resp_table_def)
    with assms(1) r(1) show False by (auto simp: well_formed_def)
  qed
  with r show ?thesis by (simp add: owns_def)
qed

lemma unregister_owned:
  "owns ch mid t r \<Longrightarrow> resp_table (unregisterPendingResponse mid ch r) i \<noteq> Some ch"
proof (cases "pendingResponses r mid")
  case None
  assume "owns ch mid t r"
  with None have "pendingResponses r i \<noteq> Some (t', ch)" for t' by (auto simp: owns_def)
  with None show ?thesis by (auto simp: resp_table_def unregisterPendingResponse_def)
next
  case (Some tc)
  assume o: "owns ch mid t r"
  obtain t1 c1 where tc: "tc = (t1, c1)" by (cases tc)
  show ?thesis
  proof (cases "i = mid")
    case True
    with Some tc show ?thesis by (simp add: resp_table_def unregisterPendingResponse_def)
  next
    case False
    with o have "pendingResponses r i \<noteq> Some (t', ch)" for t' by (auto simp: owns_def)
    with False Some tc show ?thesis by (auto simp: resp_table_def unregisterPendingResponse_def)
  qed
qed

lemma request_answer:
  assumes wf: "well_formed resp_table nextRespChan (respTable e)"
    and send: "\<And>e1 err e2. send e1 = Some (err, e2) \<Longrightarrow> respTable e2 = respTable e1"
    and "request mid t send evs e = Some (res, e')"
  shows "(\<forall>h. res = Inr h \<longrightarrow> ID h = mid \<and> MsgType h = t)
    \<and> (\<forall>i. resp_table (respTable e') i \<noteq> Some (nextRespChan (respTable e)))"
proof (cases "registerPendingResponse mid t (respTable e)")
  case (Pair chr r)
  show ?thesis
  proof (cases chr)
    case (Inl x)
    with Pair assms(3) have "res = Inl x" "e' = e\<lparr>respTable := r\<rparr>" by (simp_all add: request_def)
    moreover have "pendingResponses r = pendingResponses (respTable e)"
      using Pair Inl by (auto simp: registerPendingResponse_def split: if_splits)
    ultimately show ?thesis using wf by (auto simp: well_formed_def resp_table_def)
  next
    case (Inr ch)
    with Pair have ch: "ch = nextRespChan (respTable e)" and own: "owns ch mid t r"
      using registered_owns [OF wf] by (auto simp: registerPendingResponse_def split: if_splits)
    obtain err e1 where s: "send (e\<lparr>respTable := r\<rparr>) = Some (err, e1)"
      using assms(3) Pair Inr by (auto simp: request_def split: option.splits)
    with send have r1: "respTable e1 = r" by fastforce
    show ?thesis
    proof (cases err)
      case (Some x)
      with assms(3) Pair Inr s r1 have "res = Inl x" "respTable e' = unregisterPendingResponse mid ch r"
        by (auto simp: request_def)
      with unregister_owned [OF own] ch show ?thesis by simp
    next
      case None
      with assms(3) Pair Inr s r1 obtain r2 where w: "wait_response ch evs ([], False) r = Some (res, r2)"
        and "respTable e' = unregisterPendingResponse mid ch r2"
        by (auto simp: request_def)
      with wait_response_owned [OF own _ w] unregister_owned [of ch mid t r2] ch show ?thesis by simp
    qed
  qed
qed

section \<open>Places for one handler\<close>

text \<open>
  Several operations keep a place for at most one function: a nil function is refused, the first one stays, and a
  second one is refused as long as the first is there.
\<close>

locale slot =
  fixes current :: "'s \<Rightarrow> 'f option"
    and register :: "'f option \<Rightarrow> 's \<Rightarrow> error option \<times> 's"
  assumes register_nil: "register None s = (Some (VsockE ErrNilHandler), s)"
    and register_free: "current s = None \<Longrightarrow> \<exists>s'. register (Some f) s = (None, s') \<and> current s' = Some f"
    and register_taken: "current s = Some g \<Longrightarrow> register (Some f) s = (Some (VsockE ErrHandlerAlreadyRegistered), s)"
begin

lemma register_run_taken: "current s = Some g \<Longrightarrow> current (fold (\<lambda>f s. snd (register f s)) fs s) = Some g"
proof (induction fs arbitrary: s)
  case (Cons f fs)
  then show ?case by (cases f) (simp_all add: register_nil register_taken)
qed simp

lemma first_registration_stays:
  "current s = None \<Longrightarrow>
   current (fold (\<lambda>f s. snd (register f s)) fs s) = (case List.find (\<lambda>f. f \<noteq> None) fs of None \<Rightarrow> None | Some f \<Rightarrow> f)"
proof (induction fs arbitrary: s)
  case (Cons f fs)
  then show ?case
  proof (cases f)
    case None
    with Cons show ?thesis by (simp add: register_nil)
  next
    case (Some g)
    with register_free [OF Cons.prems, of g] register_run_taken show ?thesis by fastforce
  qed
qed simp

end

lemma receiver_slot: "t \<noteq> 0 \<Longrightarrow> slot (\<lambda>e. receivers e t) (OnReceive t)"
  by unfold_locales (auto simp: OnReceive_def)

section \<open>Properties\<close>

text \<open>
  C1: on a connection that carries the frames of acceptable messages, cut into segments in any way, \<^verbatim>\<open>Serve\<close> dispatches
  each message exactly once and in order, whatever part of its payload a handler reads; it
  returns nil at the end of the connection, or the error of the first call that fails.
\<close>

theorem Serve_dispatches_in_order:
  assumes "handlers run" and "\<forall>ch. reads ch = None" and "\<forall>k. ctx k = None"
    and "connected e" and "acks_ok (ackTable e)" and "conn_fin (input e) = LibE EOF"
    and "conn_avail (input e) = frames fs" and "list_all (acceptable (config e)) fs"
  shows "\<exists>err e'. Serve timeout run reads ctx (Some e) = Some (err, Some e') \<and> serves run reads ctx fs e err e'"
  using handlers.Serve_loop_serves [OF assms(1-3), of e fs timeout] assms(4-8)
  by (auto simp: Serve_def)

lemma ignoring_handlers: "handlers (\<lambda>h ctx msg e. Some (None, msg, e))"
  by unfold_locales auto

theorem Serve_dispatches_in_order_witness:
  "\<exists>err e'. Serve (\<lambda>_. False) (\<lambda>h ctx msg e. Some (None, msg, e)) (\<lambda>_. None) (\<lambda>_. None)
       (Some (NewMessenger (Some ([frame 1 2 [3], frame 4 5 []], LibE EOF)) :: nat endpoint)) = Some (err, Some e')
     \<and> serves (\<lambda>h ctx msg e. Some (None, msg, e)) (\<lambda>_. None) (\<lambda>_. None) [(1, 2, [3]), (4, 5, [])]
         (NewMessenger (Some ([frame 1 2 [3], frame 4 5 []], LibE EOF))) err e'"
  by (rule Serve_dispatches_in_order [OF ignoring_handlers])
     (simp_all add: NewMessenger_def newMessenger_def acceptable_def DefaultMessengerConfig_def DefaultMaxMessageSize_def)

text \<open>
  C4: a request that gets an answer gets one with its own ID and the response type it asked for, and
  whatever its outcome, its waiter is gone from the table of pending responses.
\<close>

theorem Request_answer_matches:
  assumes "well_formed resp_table nextRespChan (respTable e)"
    and "Request ctx (Some msg) t evs (Some e) = Some (res, Some e')"
  shows "(\<forall>h. res = Inr h \<longrightarrow> ID h = ID msg \<and> MsgType h = t)
    \<and> (\<forall>i. resp_table (respTable e') i \<noteq> Some (nextRespChan (respTable e)))"
proof (cases "connected e \<and> t \<noteq> 0")
  case True
  let ?send = "\<lambda>e1. map_option (\<lambda>(err, mo', c, e2). (err, e2\<lparr>input := c\<rparr>)) (Send ctx (Some msg) (input e1) e1)"
  from True assms(2) have req: "request (ID msg) t ?send evs e = Some (res, e')"
    by (auto simp: Request_def)
  have send: "respTable e2 = respTable e1" if "?send e1 = Some (err, e2)" for e1 err e2
    using that by (auto dest!: Send_rest)
  show ?thesis by (rule request_answer [OF assms(1) send req])
next
  case False
  with assms(2) have "\<exists>x. res = Inl x" "e' = e" by (auto simp: Request_def split: if_splits)
  with assms(1) show ?thesis by (auto simp: well_formed_def)
qed

definition quiet_endpoint :: "nat endpoint" where
  "quiet_endpoint = newMessenger (Some ([], LibE EOF)) (config plain_messenger)"

lemma quiet_endpoint_request:
  "\<exists>e'. Request (\<lambda>_. None) (Some (NewMessage 7 3 [])) 4 [Incoming \<lparr>ID = 7, MsgType = 4, Length = 9\<rparr>, RespReady]
     (Some quiet_endpoint) = Some (Inr \<lparr>ID = 7, MsgType = 4, Length = 9\<rparr>, Some e')"
  by (simp add: quiet_endpoint_def newMessenger_def plain_messenger_def Request_def request_def
      registerPendingResponse_def no_responses_def Send_def NewMessage_def message_ReadAll_def io_ReadAll_def
      read_all_loop.simps payload_read_def limited_read_def SendStreamWithID_def Let_def headerLength_def
      shouldAwaitAcknowledge_def send_attempts.simps sendStreamAttempt_def sendStreamOnce_def writeAll.simps
      poll_def vsock_Write_def sendPayload.simps takeResponse_def)

theorem Request_answer_matches_witness:
  "\<exists>h e'. Request (\<lambda>_. None) (Some (NewMessage 7 3 [])) 4 [Incoming \<lparr>ID = 7, MsgType = 4, Length = 9\<rparr>, RespReady]
     (Some quiet_endpoint) = Some (Inr h, Some e') \<and> ID h = 7 \<and> MsgType h = 4
     \<and> (\<forall>i. resp_table (respTable e') i \<noteq> Some 0)"
proof -
  have wf: "well_formed resp_table nextRespChan (respTable quiet_endpoint)"
    by (simp add: well_formed_def resp_table_def no_responses_def quiet_endpoint_def newMessenger_def)
  have "nextRespChan (respTable quiet_endpoint) = 0"
    by (simp add: no_responses_def quiet_endpoint_def newMessenger_def)
  with quiet_endpoint_request Request_answer_matches [OF wf] show ?thesis
    by (metis NewMessage_fields(1))
qed

text \<open>
  a request whose ID already waits for a response fails with \<^verbatim>\<open>ErrDuplicateMessageID\<close>; nothing is
  written, and the request that was there first keeps its place.
\<close>

theorem duplicate_request_refused:
  assumes "connected e" and "t \<noteq> 0" and "pendingResponses (respTable e) (ID msg) \<noteq> None"
  shows "\<exists>e'. Request ctx (Some msg) t evs (Some e) = Some (Inl (VsockE ErrDuplicateMessageID), Some e')
    \<and> wire e' = wire e \<and> pendingResponses (respTable e') = pendingResponses (respTable e)"
  using assms by (auto simp: Request_def request_def registerPendingResponse_def)

definition waiting_endpoint :: "nat endpoint" where
  "waiting_endpoint = quiet_endpoint\<lparr>respTable := \<lparr>pendingResponses = [7 \<mapsto> (4, 0)], nextRespChan = 1\<rparr>,
     input := ([[1, 2, 3]], LibE EOF)\<rparr>"

theorem duplicate_request_refused_witness:
  "\<exists>e'. Request (\<lambda>_. None) (Some (NewMessage 7 3 [1])) 4 [] (Some waiting_endpoint)
     = Some (Inl (VsockE ErrDuplicateMessageID), Some e') \<and> wire e' = []"
proof -
  have "connected waiting_endpoint" "pendingResponses (respTable waiting_endpoint) (ID (NewMessage 7 3 [1])) \<noteq> None"
    "wire waiting_endpoint = []"
    by (simp_all add: waiting_endpoint_def quiet_endpoint_def newMessenger_def)
  with duplicate_request_refused [of waiting_endpoint 4 "NewMessage 7 3 [1]" "\<lambda>_. None" "[]"]
  show ?thesis by auto
qed

text \<open>
  C10: the receive loop hangs on an abandoned response: when the requester was handed a response and stops reading before
  the end of its payload (its context ended, say), the dispatch of that message never returns, so
  that \<^verbatim>\<open>Serve\<close> receives no later message.
\<close>

theorem abandoned_response_blocks:
  assumes "payloadCache msg = None" and "payloadReader msg = Some (OnConn, N)" and "N \<le> length (conn_avail (input e))"
    and "takeResponse (ID msg) (MsgType msg) (respTable e) = (Some ch, r)" and "reads ch = Some n" and "n < N"
  shows "handleMessage run reads ctx (Some msg) e = None"
proof -
  let ?l = "((OnConn, input e), N)"
  have "length (payload_avail ?l) = N"
    using assms(3) by (cases "input e") (simp add: payload_avail_def limited_avail_def)
  with payload.copy_loop_to_impatient_reader [of 32768 "io_Pipe (reads ch)" n 0 ?l] assms(5,6)
  obtain k err s' p' where "io_Copy payload_read pipe_write ?l (io_Pipe (reads ch)) = Some (k, err, s', p')" "blocked p'"
    by (auto simp: io_Pipe_def io_Copy_def)
  with assms have "resolveResponse reads msg e = None"
    by (cases s') (auto simp: resolveResponse_def message_WriteTo_def split: prod.splits)
  then show ?thesis by (simp add: handleMessage_def)
qed

theorem abandoned_response_blocks_witness:
  "handleMessage (\<lambda>h ctx msg e. Some (None, msg, e)) (\<lambda>_. Some 1) (\<lambda>_. None) (Some (conn_message 7 4 3)) waiting_endpoint = None"
  by (rule abandoned_response_blocks [where N = 3 and n = 1 and ch = 0])
     (simp_all add: conn_message_def waiting_endpoint_def quiet_endpoint_def newMessenger_def takeResponse_def)

text \<open>
  a response that the connection cut short counts as delivered: the requester gets fewer bytes than the
  header announced and then the end of the stream, and the receive loop sees no error.
\<close>

theorem truncated_response_delivered:
  assumes "payloadCache msg = None" and "payloadReader msg = Some (OnConn, unat (Length msg))"
    and "length (conn_avail (input e)) < unat (Length msg)" and "conn_fin (input e) = LibE EOF"
    and "takeResponse (ID msg) (MsgType msg) (respTable e) = (Some ch, r)" and "reads ch = None"
  shows "\<exists>msg' e'. resolveResponse reads msg e = Some ((True, None), msg', e')
    \<and> delivered e' = delivered e @ [(ch, header.truncate msg, conn_avail (input e), None)]"
proof -
  let ?l = "((OnConn, input e), unat (Length msg))"
  have l: "payload_avail ?l = conn_avail (input e)" "payload_fin ?l = LibE EOF"
    using assms(3,4) by (cases "input e"; simp add: payload_avail_def limited_avail_def payload_fin_def limited_fin_def)+
  from payload.Copy_to_patient_reader [of "io_Pipe (reads ch)" ?l] assms(6)
  obtain s' p' where "io_Copy payload_read pipe_write ?l (io_Pipe (reads ch)) = Some (length (conn_avail (input e)), None, s', p')"
    "\<not> blocked p'" "got p' = conn_avail (input e)"
    by (auto simp: io_Pipe_def l)
  with assms(1,2,5) show ?thesis
    by (cases s') (auto simp: resolveResponse_def message_WriteTo_def split: prod.splits)
qed

theorem truncated_response_delivered_witness:
  "\<exists>msg' e'. resolveResponse (\<lambda>_. None) (conn_message 7 4 9) waiting_endpoint = Some ((True, None), msg', e')
    \<and> delivered e' = [(0, \<lparr>ID = 7, MsgType = 4, Length = 9\<rparr>, [1, 2, 3], None)]"
  using truncated_response_delivered [of "conn_message 7 4 9" waiting_endpoint 0
      "\<lparr>pendingResponses = Map.empty, nextRespChan = 1\<rparr>" "\<lambda>_. None"]
  by (simp add: conn_message_def waiting_endpoint_def quiet_endpoint_def newMessenger_def takeResponse_def header.truncate_def)

text \<open>A whole response is handed to the goroutine that waits for it, as long as that one reads it.\<close>

lemma response_handed_over:
  assumes "pendingResponses (respTable e) mid = Some (t, ch)" and "conn_avail (input e) = q @ rest" and "length q < 2 ^ 32"
    and "reads ch = None"
  shows "\<exists>msg e'. handleMessage run reads ctx (Some (conn_message mid t (of_nat (length q)))) e = Some (None, Some msg, e')
    \<and> delivered e' = delivered e @ [(ch, \<lparr>ID = mid, MsgType = t, Length = of_nat (length q)\<rparr>, q, None)]
    \<and> pendingResponses (respTable e') mid = None"
proof -
  let ?m = "conn_message mid t (of_nat (length q))" and ?l = "((OnConn, input e), length q)"
  let ?r = "(respTable e)\<lparr>pendingResponses := (pendingResponses (respTable e))(mid := None)\<rparr>"
  have len: "unat (of_nat (length q) :: u32) = length q" using assms(3) by (rule unat_of_nat_u32)
  have l: "payload_fin ?l = LibE EOF" "payload_avail ?l = q"
    using assms(2) by (simp_all add: payload_fin_def payload_avail_def limited_fin_def limited_avail_def)
  from payload.Copy_to_patient_reader [of "io_Pipe (reads ch)" ?l] assms(4)
  obtain s' p' where c: "io_Copy payload_read pipe_write ?l (io_Pipe (reads ch)) = Some (length q, None, s', p')"
    "\<not> blocked p'" "got p' = q"
    by (auto simp: io_Pipe_def l)
  have tk: "takeResponse mid t (respTable e) = (Some ch, ?r)" using assms(1) by (simp add: takeResponse_def)
  obtain msg e1 where r: "resolveResponse reads ?m e = Some ((True, None), msg, e1)"
    "delivered e1 = delivered e @ [(ch, \<lparr>ID = mid, MsgType = t, Length = of_nat (length q)\<rparr>, q, None)]" "respTable e1 = ?r"
    using c tk by (cases s') (auto simp: resolveResponse_def message_WriteTo_def conn_message_def len header.truncate_def split: prod.splits)
  show ?thesis
    by (cases "sendAcknowledge msg e1") (use r in \<open>auto simp: handleMessage_def sendAcknowledge_def split: if_splits\<close>)
qed

text \<open>A message that no handler takes is acknowledged all the same.\<close>

lemma unhandled_message_acknowledged:
  assumes "receivers e (MsgType msg) = None" and "unknownMessageReceiver e = None"
    and "pendingResponses (respTable e) (ID msg) = None" and "MsgType msg \<noteq> acknowledgeTypeID"
  shows "handleMessage run reads ctx (Some msg) e
    = Some (None, Some msg, e\<lparr>spawned := spawned e @ [NewMessage (ID msg) acknowledgeTypeID []]\<rparr>)"
  using assms by (simp add: handleMessage_def resolveResponse_def takeResponse_def sendAcknowledge_def)

end
