(* ===== verification/Codec.thy ===== *)
theory Codec
  imports Messenger
begin

text \<open>
  \<^verbatim>\<open>vsock/codec.go\<close> and \<^verbatim>\<open>vsock/helpers.go\<close>: which codec a Go type gets, encoding and
  decoding of values, and the stream payloads that hand the reader of a message on.

  A Go type is a number; \<open>\<Gamma>\<close> gives its kind as \<^verbatim>\<open>reflect\<close> reports it, \<open>impl t i\<close> says that its
  method set implements the interface \<open>i\<close>, and \<open>ptr t\<close> is \<^verbatim>\<open>reflect.PointerTo(t)\<close>. The
  encoders of the libraries (msgpack, gob, json, yaml) are parameters.
\<close>

section \<open>Codec types\<close>

type_synonym CodecType = byte

definition CodecUnknown :: CodecType where "CodecUnknown = 0"
definition CodecMsgpack :: CodecType where "CodecMsgpack = 1"
definition CodecGob :: CodecType where "CodecGob = 2"
definition CodecJSON :: CodecType where "CodecJSON = 3"
definition CodecYAML :: CodecType where "CodecYAML = 4"
definition CodecStream :: CodecType where "CodecStream = 5"

lemmas codec_types = CodecUnknown_def CodecMsgpack_def CodecGob_def CodecJSON_def CodecYAML_def CodecStream_def

definition isValidCodecType :: "CodecType \<Rightarrow> bool" where
  "isValidCodecType c \<longleftrightarrow> c \<in> {CodecMsgpack, CodecGob, CodecJSON, CodecYAML, CodecStream}"

section \<open>Types by reflection\<close>

type_synonym tid = nat

record struct_field =
  fieldTag :: "string \<Rightarrow> string"
  fieldType :: tid

datatype kind = Struct "struct_field list" | Ptr tid | OtherKind

datatype iface = IReader | IReadSeeker | IStreamSource

definition typeImplements ::
  "(tid \<Rightarrow> kind) \<Rightarrow> (tid \<Rightarrow> iface \<Rightarrow> bool) \<Rightarrow> (tid \<Rightarrow> tid) \<Rightarrow> tid option \<Rightarrow> iface option \<Rightarrow> bool" where
  "typeImplements \<Gamma> impl ptr to io =
     (case (to, io) of
        (Some t, Some i) \<Rightarrow>
          if impl t i then True
          else (case \<Gamma> t of Ptr u \<Rightarrow> False | _ \<Rightarrow> impl (ptr t) i)
      | _ \<Rightarrow> False)"

definition isStreamType :: "(tid \<Rightarrow> kind) \<Rightarrow> (tid \<Rightarrow> iface \<Rightarrow> bool) \<Rightarrow> (tid \<Rightarrow> tid) \<Rightarrow> tid \<Rightarrow> bool" where
  "isStreamType \<Gamma> impl ptr t \<longleftrightarrow>
     typeImplements \<Gamma> impl ptr (Some t) (Some IReader)
     \<or> typeImplements \<Gamma> impl ptr (Some t) (Some IReadSeeker)
     \<or> typeImplements \<Gamma> impl ptr (Some t) (Some IStreamSource)"

text \<open>The loop \<^verbatim>\<open>for t.Kind() == reflect.Ptr { t = t.Elem() }\<close>.\<close>

partial_function (option) deref :: "(tid \<Rightarrow> kind) \<Rightarrow> tid \<Rightarrow> tid option" where
  "deref \<Gamma> t = (case \<Gamma> t of Ptr u \<Rightarrow> deref \<Gamma> u | _ \<Rightarrow> Some t)"

text \<open>
  \<open>scan_fields\<close> is the field loop of \<^verbatim>\<open>hasStructTag\<close> with the recursive call of
  \<^verbatim>\<open>hasStructTag\<close> unfolded in it; the map \<open>seen\<close> is shared by all calls and is returned.
\<close>

partial_function (option) scan_fields ::
  "(tid \<Rightarrow> kind) \<Rightarrow> string \<Rightarrow> struct_field list \<Rightarrow> tid set \<Rightarrow> (bool \<times> tid set) option" where
  "scan_fields \<Gamma> tag sfs seen =
     (case sfs of
        [] \<Rightarrow> Some (False, seen)
      | f # fs \<Rightarrow>
          if fieldTag f tag \<noteq> '''' then Some (True, seen)
          else
            (case deref \<Gamma> (fieldType f) of
               None \<Rightarrow> None
             | Some ft \<Rightarrow>
                 (case \<Gamma> ft of
                    Struct gs \<Rightarrow>
                      if ft \<in> seen then scan_fields \<Gamma> tag fs seen
                      else
                        Option.bind (scan_fields \<Gamma> tag gs (insert ft seen))
                          (\<lambda>(found, seen'). if found then Some (True, seen') else scan_fields \<Gamma> tag fs seen')
                  | _ \<Rightarrow> scan_fields \<Gamma> tag fs seen)))"

definition hasStructTag :: "(tid \<Rightarrow> kind) \<Rightarrow> tid \<Rightarrow> string \<Rightarrow> tid set \<Rightarrow> (bool \<times> tid set) option" where
  "hasStructTag \<Gamma> t tag seen =
     (case \<Gamma> t of
        Struct fs \<Rightarrow> if t \<in> seen then Some (False, seen) else scan_fields \<Gamma> tag fs (insert t seen)
      | _ \<Rightarrow> Some (False, seen))"

definition inferCodecType ::
  "(tid \<Rightarrow> kind) \<Rightarrow> (tid \<Rightarrow> iface \<Rightarrow> bool) \<Rightarrow> (tid \<Rightarrow> tid) \<Rightarrow> tid option \<Rightarrow> CodecType option" where
  "inferCodecType \<Gamma> impl ptr to =
     (case to of
        None \<Rightarrow> Some CodecUnknown
      | Some t0 \<Rightarrow>
          if isStreamType \<Gamma> impl ptr t0 then Some CodecStream
          else
            (case deref \<Gamma> t0 of
               None \<Rightarrow> None
             | Some t \<Rightarrow>
                 (case hasStructTag \<Gamma> t ''msgpack'' {} of
                    None \<Rightarrow> None
                  | Some (True, _) \<Rightarrow> Some CodecMsgpack
                  | Some (False, _) \<Rightarrow>
                      (case hasStructTag \<Gamma> t ''json'' {} of
                         None \<Rightarrow> None
                       | Some (True, _) \<Rightarrow> Some CodecJSON
                       | Some (False, _) \<Rightarrow>
                           (case hasStructTag \<Gamma> t ''yaml'' {} of
                              None \<Rightarrow> None
                            | Some (found, _) \<Rightarrow> Some (if found then CodecYAML else CodecUnknown))))))"

section \<open>Codecs\<close>

text \<open>\<^verbatim>\<open>Codec[T]\<close>; the field \<open>elemT\<close> is its type parameter.\<close>

record codec =
  codec :: CodecType
  typeID :: u32
  Stream :: bool
  elemT :: tid

definition NewCodec ::
  "(tid \<Rightarrow> kind) \<Rightarrow> (tid \<Rightarrow> iface \<Rightarrow> bool) \<Rightarrow> (tid \<Rightarrow> tid) \<Rightarrow> tid \<Rightarrow> u32 \<Rightarrow> codec result option" where
  "NewCodec \<Gamma> impl ptr T typeid =
     (if typeid = 0 then Some (Inl (Wrap ''must be non-zero'' (VsockE ErrInvalidTypeID)))
      else
        (case inferCodecType \<Gamma> impl ptr (Some T) of
           None \<Rightarrow> None
         | Some c \<Rightarrow>
             Some (if c = CodecUnknown
                   then Inl (Wrap ''add msgpack/json/yaml tags on T or use NewCodecWithEncoding'' (VsockE ErrInvalidCodecType))
                   else Inr \<lparr>codec = c, typeID = typeid, Stream = (c = CodecStream), elemT = T\<rparr>)))"

definition NewCodecOfType :: "tid \<Rightarrow> u32 \<Rightarrow> CodecType \<Rightarrow> codec result" where
  "NewCodecOfType T typeid codecType =
     (if typeid = 0 then Inl (Wrap ''must be non-zero'' (VsockE ErrInvalidTypeID))
      else if \<not> isValidCodecType codecType then Inl (Wrap ''unsupported codec'' (VsockE ErrInvalidCodecType))
      else Inr \<lparr>codec = codecType, typeID = typeid, Stream = (codecType = CodecStream), elemT = T\<rparr>)"

definition generateID :: "(nat \<Rightarrow> byte list result) \<Rightarrow> nat \<Rightarrow> (u64 result \<times> nat) option" where
  "generateID = newMessageID"

text \<open>An encoding library: encoding a value, and decoding bytes into a variable of a given type.\<close>

record 'v library =
  marshal :: "'v \<Rightarrow> byte list result"
  unmarshal :: "tid \<Rightarrow> byte list \<Rightarrow> 'v result"

record 'v libraries =
  msgpack :: "'v library"
  gob :: "'v library"
  json :: "'v library"
  yaml :: "'v library"

definition encodeWith :: "'v libraries \<Rightarrow> CodecType \<Rightarrow> 'v \<Rightarrow> byte list result" where
  "encodeWith libs c v =
     (if c = CodecMsgpack then marshal (msgpack libs) v
      else if c = CodecGob then marshal (gob libs) v
      else if c = CodecJSON then marshal (json libs) v
      else if c = CodecYAML then marshal (yaml libs) v
      else if c = CodecStream then Inl (Msg ''stream codec requires stream transport'')
      else Inl (Msg ''unsupported codec''))"

definition decodeWith :: "'v libraries \<Rightarrow> CodecType \<Rightarrow> tid \<Rightarrow> byte list \<Rightarrow> 'v result" where
  "decodeWith libs c T payload =
     (if c = CodecMsgpack then unmarshal (msgpack libs) T payload
      else if c = CodecGob then unmarshal (gob libs) T payload
      else if c = CodecJSON then unmarshal (json libs) T payload
      else if c = CodecYAML then unmarshal (yaml libs) T payload
      else if c = CodecStream then Inl (Msg ''stream codec does not support byte-buffer decode'')
      else Inl (Msg ''unsupported codec''))"

definition codec_Encode :: "'v libraries \<Rightarrow> codec \<Rightarrow> 'v \<Rightarrow> byte list result" where
  "codec_Encode libs c v = encodeWith libs (codec c) v"

definition ToMessageWithID :: "'v libraries \<Rightarrow> codec \<Rightarrow> u64 \<Rightarrow> 'v \<Rightarrow> message result" where
  "ToMessageWithID libs c mid v =
     (case codec_Encode libs c v of
        Inl e \<Rightarrow> Inl e
      | Inr payload \<Rightarrow> Inr (NewMessage mid (typeID c) payload))"

definition ToMessage :: "'v libraries \<Rightarrow> codec \<Rightarrow> (nat \<Rightarrow> byte list result) \<Rightarrow> 'v \<Rightarrow> message result option" where
  "ToMessage libs c rand v =
     (case generateID rand 0 of
        None \<Rightarrow> None
      | Some (Inl e, k) \<Rightarrow> Some (Inl e)
      | Some (Inr mid, k) \<Rightarrow> Some (ToMessageWithID libs c mid v))"

section \<open>Stream payloads\<close>

text \<open>
  How \<^verbatim>\<open>decodeStreamPayload\<close> can fill a variable of type \<open>T\<close>: the shapes of its type switch, a struct
  (or a pointer to one) with whether \<^verbatim>\<open>Reader\<close> can be set and what \<^verbatim>\<open>Length\<close> is if it
  can be set, or something else.
\<close>

datatype length_kind = LenUint32 | LenUint | LenInt | LenOther

datatype stream_target =
    ToReaderPayload
  | ToReader
  | ToMessagePtr
  | ToMessageValue
  | ToStruct bool "length_kind option"
  | ToOther

text \<open>
  A decoded value: plain, or one that holds the live reader of the message, with the length where
  it is copied.
\<close>

datatype 'v decoded =
    Plain 'v
  | LiveReader
  | LiveReaderPayload u32
  | LiveMessage
  | LiveStruct "int option"

definition decodeStreamPayload :: "stream_target \<Rightarrow> message \<Rightarrow> 'v decoded result" where
  "decodeStreamPayload target msg =
     (case message_Reader (Some msg) of
        None \<Rightarrow> Inl (VsockE ErrNilMessage)
      | Some rdr \<Rightarrow>
          (case target of
             ToReaderPayload \<Rightarrow> Inr (LiveReaderPayload (Length msg))
           | ToReader \<Rightarrow> Inr LiveReader
           | ToMessagePtr \<Rightarrow> Inr LiveMessage
           | ToMessageValue \<Rightarrow> Inr LiveMessage
           | ToOther \<Rightarrow> Inl (Msg ''stream codec cannot decode into T'')
           | ToStruct readerOK len \<Rightarrow>
               if \<not> readerOK then Inl (Msg ''stream codec cannot set Reader on T'')
               else
                 (case len of
                    None \<Rightarrow> Inr (LiveStruct None)
                  | Some LenOther \<Rightarrow> Inl (Msg ''stream codec cannot set Length on T'')
                  | Some _ \<Rightarrow> Inr (LiveStruct (Some (int (unat (Length msg))))))))"

definition codec_Decode ::
  "'v libraries \<Rightarrow> (tid \<Rightarrow> stream_target) \<Rightarrow> codec \<Rightarrow> message option \<Rightarrow> conn
     \<Rightarrow> ('v decoded result \<times> message option \<times> conn) option" where
  "codec_Decode libs shape c mo con =
     (case mo of
        None \<Rightarrow> Some (Inl (Msg ''message is nil''), None, con)
      | Some msg \<Rightarrow>
          if MsgType msg \<noteq> typeID c then Some (Inl (Msg ''message type mismatch''), Some msg, con)
          else if Stream c then Some (decodeStreamPayload (shape (elemT c)) msg, Some msg, con)
          else
            (case message_ReadAll (Some msg) con of
               None \<Rightarrow> None
             | Some (Inl e, mo', con') \<Rightarrow> Some (Inl e, mo', con')
             | Some (Inr payload, mo', con') \<Rightarrow>
                 Some (case decodeWith libs (codec c) (elemT c) payload of
                         Inl e \<Rightarrow> Inl e
                       | Inr v \<Rightarrow> Inr (Plain v), mo', con')))"

section \<open>Looking for a tag\<close>

text \<open>The struct types that can be reached from \<open>t\<close> through fields and pointers, and those with a tagged field.\<close>

inductive reaches :: "(tid \<Rightarrow> kind) \<Rightarrow> tid \<Rightarrow> tid \<Rightarrow> bool" for \<Gamma> :: "tid \<Rightarrow> kind" and t :: tid where
  reaches_refl: "reaches \<Gamma> t t"
| reaches_step: "reaches \<Gamma> t u \<Longrightarrow> \<Gamma> u = Struct fs \<Longrightarrow> f \<in> set fs \<Longrightarrow> deref \<Gamma> (fieldType f) = Some w \<Longrightarrow>
     \<Gamma> w = Struct gs \<Longrightarrow> reaches \<Gamma> t w"

lemma reaches_trans: "reaches \<Gamma> u v \<Longrightarrow> reaches \<Gamma> t u \<Longrightarrow> reaches \<Gamma> t v"
  by (induction rule: reaches.induct) (auto intro: reaches_step)

definition tagged :: "(tid \<Rightarrow> kind) \<Rightarrow> string \<Rightarrow> tid \<Rightarrow> bool" where
  "tagged \<Gamma> tag u \<longleftrightarrow> (\<exists>fs f. \<Gamma> u = Struct fs \<and> f \<in> set fs \<and> fieldTag f tag \<noteq> '''')"

text \<open>A field that needs no further search: no tag, and its struct type is in \<open>S\<close>.\<close>

definition searched :: "(tid \<Rightarrow> kind) \<Rightarrow> string \<Rightarrow> tid set \<Rightarrow> struct_field \<Rightarrow> bool" where
  "searched \<Gamma> tag S f \<longleftrightarrow>
     fieldTag f tag = '''' \<and> (\<forall>w gs. deref \<Gamma> (fieldType f) = Some w \<longrightarrow> \<Gamma> w = Struct gs \<longrightarrow> w \<in> S)"

lemma searched_mono: "searched \<Gamma> tag S f \<Longrightarrow> S \<subseteq> S' \<Longrightarrow> searched \<Gamma> tag S' f"
  by (auto simp: searched_def)

definition all_searched :: "(tid \<Rightarrow> kind) \<Rightarrow> string \<Rightarrow> tid set \<Rightarrow> tid set \<Rightarrow> bool" where
  "all_searched \<Gamma> tag new S \<longleftrightarrow> (\<forall>u \<in> new. \<forall>fs. \<Gamma> u = Struct fs \<longrightarrow> (\<forall>f \<in> set fs. searched \<Gamma> tag S f))"

lemma all_searched_mono: "all_searched \<Gamma> tag new S \<Longrightarrow> S \<subseteq> S' \<Longrightarrow> all_searched \<Gamma> tag new S'"
  unfolding all_searched_def by (blast intro: searched_mono)

lemma scan_fields_False:
  "scan_fields \<Gamma> tag fs seen = Some r \<Longrightarrow> seen \<subseteq> snd r \<and>
     (\<not> fst r \<longrightarrow> (\<forall>f \<in> set fs. searched \<Gamma> tag (snd r) f) \<and> all_searched \<Gamma> tag (snd r - seen) (snd r))"
proof (induction rule: scan_fields.raw_induct [rotated, consumes 1])
  case (1 scan \<Gamma> tag fs seen r)
  show ?case
  proof (cases fs)
    case Nil
    with 1(2) have "r = (False, seen)" by simp
    with Nil show ?thesis by (auto simp: all_searched_def)
  next
    case fs: (Cons f fs')
    show ?thesis
    proof (cases "fieldTag f tag = ''''")
      case False
      with 1(2) fs show ?thesis by auto
    next
      case tag: True
      then obtain ft where ft: "deref \<Gamma> (fieldType f) = Some ft"
        using 1(2) fs by (auto split: option.splits)
      show ?thesis
      proof (cases "\<exists>gs. \<Gamma> ft = Struct gs \<and> ft \<notin> seen")
        case False
        with 1(2) fs tag ft have "scan \<Gamma> tag fs' seen = Some r" by (auto split: kind.splits)
        from 1(1) [OF this] False tag ft fs show ?thesis by (auto simp: searched_def)
      next
        case True
        then obtain gs where gs: "\<Gamma> ft = Struct gs" "ft \<notin> seen" by blast
        with 1(2) fs tag ft obtain found seen1 where s1: "scan \<Gamma> tag gs (insert ft seen) = Some (found, seen1)"
          and r: "(if found then Some (True, seen1) else scan \<Gamma> tag fs' seen1) = Some r"
          by (auto simp: Option.bind_eq_Some_conv)
        note i1 = 1(1) [OF s1]
        show ?thesis
        proof (cases found)
          case True
          with i1 r show ?thesis by auto
        next
          case False
          with r have s2: "scan \<Gamma> tag fs' seen1 = Some r" by simp
          note i2 = 1(1) [OF s2]
          have sub: "seen \<subseteq> seen1" "seen1 \<subseteq> snd r" "ft \<in> seen1" using i1 i2 by auto
          have "(\<forall>f \<in> set fs. searched \<Gamma> tag (snd r) f) \<and> all_searched \<Gamma> tag (snd r - seen) (snd r)" if nf: "\<not> fst r"
          proof -
            have g: "\<forall>f \<in> set gs. searched \<Gamma> tag (snd r) f"
              using i1 False sub searched_mono by fastforce
            have a1: "all_searched \<Gamma> tag (seen1 - insert ft seen) (snd r)"
              using i1 False sub all_searched_mono by fastforce
            have a2: "all_searched \<Gamma> tag (snd r - seen1) (snd r)" using i2 nf by simp
            have "all_searched \<Gamma> tag {ft} (snd r)" using g gs by (simp add: all_searched_def)
            moreover have "snd r - seen \<subseteq> (snd r - seen1) \<union> (seen1 - insert ft seen) \<union> {ft}" by blast
            ultimately have "all_searched \<Gamma> tag (snd r - seen) (snd r)"
              using a1 a2 unfolding all_searched_def by blast
            moreover have "searched \<Gamma> tag (snd r) f" using tag ft sub by (auto simp: searched_def)
            ultimately show ?thesis using i2 nf fs by auto
          qed
          with sub show ?thesis by blast
        qed
      qed
    qed
  qed
qed

lemma scan_fields_True:
  "scan_fields \<Gamma> tag fs seen = Some r \<Longrightarrow> fst r \<longrightarrow>
     (\<exists>f \<in> set fs. fieldTag f tag \<noteq> '''' \<or>
        (\<exists>w gs u. deref \<Gamma> (fieldType f) = Some w \<and> \<Gamma> w = Struct gs \<and> reaches \<Gamma> w u \<and> tagged \<Gamma> tag u))"
proof (induction rule: scan_fields.raw_induct [rotated, consumes 1])
  case (1 scan \<Gamma> tag fs seen r)
  show ?case
  proof (cases fs)
    case Nil
    with 1 show ?thesis by auto
  next
    case fs: (Cons f fs')
    show ?thesis
    proof (cases "fieldTag f tag = ''''")
      case False
      with fs show ?thesis by auto
    next
      case tag: True
      then obtain ft where ft: "deref \<Gamma> (fieldType f) = Some ft"
        using 1(2) fs by (auto split: option.splits)
      note IH = 1(1)
      consider s where "scan \<Gamma> tag fs' s = Some r"
        | gs s where "\<Gamma> ft = Struct gs" "scan \<Gamma> tag gs (insert ft seen) = Some (True, s)"
        using 1(2) fs tag ft by (auto simp: Option.bind_eq_Some_conv split: kind.splits if_splits)
      then show ?thesis
      proof cases
        case rest: 1
        with IH [OF rest] fs show ?thesis by auto
      next
        case (2 gs s)
        from IH [OF 2(2)] obtain g where g: "g \<in> set gs"
          "fieldTag g tag \<noteq> '''' \<or> (\<exists>w hs u. deref \<Gamma> (fieldType g) = Some w \<and> \<Gamma> w = Struct hs \<and> reaches \<Gamma> w u \<and> tagged \<Gamma> tag u)"
          by auto
        have "\<exists>u. reaches \<Gamma> ft u \<and> tagged \<Gamma> tag u"
        proof (cases "fieldTag g tag = ''''")
          case False
          with 2(1) g(1) reaches_refl [of \<Gamma> ft] show ?thesis by (auto simp: tagged_def)
        next
          case True
          with g obtain w hs u where "deref \<Gamma> (fieldType g) = Some w" "\<Gamma> w = Struct hs" "reaches \<Gamma> w u" "tagged \<Gamma> tag u"
            by blast
          with reaches_step [OF reaches_refl [of \<Gamma> ft] 2(1) g(1)] reaches_trans [of \<Gamma> w u ft] show ?thesis by blast
        qed
        with fs ft 2(1) show ?thesis by auto
      qed
    qed
  qed
qed

text \<open>
  The search ends, also on types that refer to themselves, if there are finitely many struct types
  and no pointer type points only to itself.
\<close>

lemma scan_fields_total:
  assumes "finite {t. \<exists>fs. \<Gamma> t = Struct fs}" and "\<And>t. deref \<Gamma> t \<noteq> None"
  shows "\<exists>r. scan_fields \<Gamma> tag fs seen = Some r"
proof (induction "card ({t. \<exists>fs. \<Gamma> t = Struct fs} - seen)" arbitrary: fs seen rule: less_induct)
  case less
  note outer = less
  let ?U = "{t. \<exists>fs. \<Gamma> t = Struct fs}"
  show ?case
  proof (induction fs)
    case Nil
    show ?case
      by (rule exI [of _ "(False, seen)"]) (simp add: scan_fields.simps [of \<Gamma> tag "[]"])
  next
    case (Cons f fs)
    obtain ft where ft: "deref \<Gamma> (fieldType f) = Some ft" using assms(2) by blast
    note step = scan_fields.simps [of \<Gamma> tag "f # fs" seen]
    show ?case
    proof (cases "\<exists>gs. \<Gamma> ft = Struct gs \<and> ft \<notin> seen")
      case False
      with Cons ft show ?thesis by (auto simp: step split: kind.splits)
    next
      case True
      then obtain gs where gs: "\<Gamma> ft = Struct gs" "ft \<notin> seen" by blast
      have smaller: "card (?U - seen') < card (?U - seen)" if "insert ft seen \<subseteq> seen'" for seen'
      proof (rule psubset_card_mono)
        show "finite (?U - seen)" using assms(1) by simp
        have "ft \<in> ?U - seen" "ft \<notin> ?U - seen'" using gs that by auto
        with that show "?U - seen' \<subset> ?U - seen" by blast
      qed
      from outer [OF smaller, OF subset_refl, of gs] obtain found seen1 where
        s1: "scan_fields \<Gamma> tag gs (insert ft seen) = Some (found, seen1)" by auto
      then have "insert ft seen \<subseteq> seen1" using scan_fields_False by fastforce
      from outer [OF smaller [OF this], of fs] obtain r where "scan_fields \<Gamma> tag fs seen1 = Some r" by auto
      with s1 gs ft show ?thesis by (auto simp: step)
    qed
  qed
qed

lemma hasStructTag_spec:
  assumes "finite {t. \<exists>fs. \<Gamma> t = Struct fs}" and "\<And>t. deref \<Gamma> t \<noteq> None"
  shows "\<exists>seen. hasStructTag \<Gamma> t tag {} = Some (\<exists>u. reaches \<Gamma> t u \<and> tagged \<Gamma> tag u, seen)"
proof (cases "\<exists>fs. \<Gamma> t = Struct fs")
  case False
  have "reaches \<Gamma> t u \<Longrightarrow> u = t" for u
    by (induction rule: reaches.induct) (use False in auto)
  with False have "\<not> (\<exists>u. reaches \<Gamma> t u \<and> tagged \<Gamma> tag u)" by (auto simp: tagged_def)
  with False show ?thesis by (auto simp: hasStructTag_def split: kind.splits)
next
  case True
  then obtain fs where fs: "\<Gamma> t = Struct fs" by blast
  obtain found seen where s: "scan_fields \<Gamma> tag fs {t} = Some (found, seen)"
    using scan_fields_total [OF assms, of tag fs "{t}"] by auto
  have "found \<longleftrightarrow> (\<exists>u. reaches \<Gamma> t u \<and> tagged \<Gamma> tag u)"
  proof
    assume found
    with scan_fields_True [OF s] obtain f where f: "f \<in> set fs" "fieldTag f tag \<noteq> '''' \<or>
        (\<exists>w gs u. deref \<Gamma> (fieldType f) = Some w \<and> \<Gamma> w = Struct gs \<and> reaches \<Gamma> w u \<and> tagged \<Gamma> tag u)"
      by auto
    show "\<exists>u. reaches \<Gamma> t u \<and> tagged \<Gamma> tag u"
    proof (cases "fieldTag f tag = ''''")
      case False
      with f fs reaches_refl [of \<Gamma> t] show ?thesis by (auto simp: tagged_def)
    next
      case True
      with f obtain w gs u where "deref \<Gamma> (fieldType f) = Some w" "\<Gamma> w = Struct gs" "reaches \<Gamma> w u" "tagged \<Gamma> tag u"
        by blast
      with reaches_step [OF reaches_refl [of \<Gamma> t] fs f(1)] reaches_trans [of \<Gamma> w u t] show ?thesis by blast
    qed
  next
    assume "\<exists>u. reaches \<Gamma> t u \<and> tagged \<Gamma> tag u"
    then obtain u where u: "reaches \<Gamma> t u" "tagged \<Gamma> tag u" by blast
    show found
    proof (rule ccontr)
      assume nf: "\<not> found"
      with scan_fields_False [OF s] have here: "\<forall>f \<in> set fs. searched \<Gamma> tag seen f"
        and rest: "all_searched \<Gamma> tag (seen - {t}) seen" by auto
      have fields: "\<forall>f \<in> set gs. searched \<Gamma> tag seen f" if "v \<in> insert t seen" "\<Gamma> v = Struct gs" for v gs
        using that here rest fs by (cases "v = t") (auto simp: all_searched_def)
      have "u \<in> insert t seen" using u(1)
      proof (induction rule: reaches.induct)
        case (reaches_step u fs f w gs)
        with fields [of u fs] show ?case by (auto simp: searched_def)
      qed (use scan_fields_False [OF s] in auto)
      with u(2) fields show False by (auto simp: tagged_def searched_def)
    qed
  qed
  with s fs show ?thesis by (simp add: hasStructTag_def)
qed

section \<open>Properties\<close>

text \<open>
  the codec of a type is found for every type, recursive ones included, by the first rule that
  applies: a stream type gets the stream codec; otherwise the type behind the pointers decides, with msgpack before
  json before yaml, by whether some struct reachable through fields and pointers has a field with the tag.
\<close>

theorem inferCodecType_first_tag:
  assumes "finite {t. \<exists>fs. \<Gamma> t = Struct fs}" and "\<And>t. deref \<Gamma> t \<noteq> None"
  shows "inferCodecType \<Gamma> impl ptr (Some t) =
     Some (let has = (\<lambda>tag. \<exists>u. reaches \<Gamma> (the (deref \<Gamma> t)) u \<and> tagged \<Gamma> tag u)
           in if isStreamType \<Gamma> impl ptr t then CodecStream
              else if has ''msgpack'' then CodecMsgpack
              else if has ''json'' then CodecJSON
              else if has ''yaml'' then CodecYAML
              else CodecUnknown)"
proof (cases "isStreamType \<Gamma> impl ptr t")
  case True
  then show ?thesis by (simp add: inferCodecType_def Let_def)
next
  case False
  obtain u where u: "deref \<Gamma> t = Some u" using assms(2) by blast
  obtain s1 where s1: "hasStructTag \<Gamma> u ''msgpack'' {} = Some (\<exists>v. reaches \<Gamma> u v \<and> tagged \<Gamma> ''msgpack'' v, s1)"
    using hasStructTag_spec [OF assms] by blast
  obtain s2 where s2: "hasStructTag \<Gamma> u ''json'' {} = Some (\<exists>v. reaches \<Gamma> u v \<and> tagged \<Gamma> ''json'' v, s2)"
    using hasStructTag_spec [OF assms] by blast
  obtain s3 where s3: "hasStructTag \<Gamma> u ''yaml'' {} = Some (\<exists>v. reaches \<Gamma> u v \<and> tagged \<Gamma> ''yaml'' v, s3)"
    using hasStructTag_spec [OF assms] by blast
  from False u s1 s2 s3 show ?thesis
    by (cases "\<exists>v. reaches \<Gamma> u v \<and> tagged \<Gamma> ''msgpack'' v";
        cases "\<exists>v. reaches \<Gamma> u v \<and> tagged \<Gamma> ''json'' v")
       (simp_all only: inferCodecType_def option.case prod.case bool.case if_True if_False Let_def option.sel simp_thms)
qed

text \<open>A struct with a pointer to itself and a field tagged for json.\<close>

definition list_type :: "tid \<Rightarrow> kind" where
  "list_type = (\<lambda>t. if t = 0 then Struct [\<lparr>fieldTag = (\<lambda>_. ''''), fieldType = 1\<rparr>,
       \<lparr>fieldTag = (\<lambda>tag. if tag = ''json'' then ''x'' else ''''), fieldType = 2\<rparr>]
     else if t = 1 then Ptr 0 else OtherKind)"

theorem inferCodecType_first_tag_witness:
  "inferCodecType list_type (\<lambda>_ _. False) (\<lambda>t. t) (Some 1) = Some CodecJSON"
proof -
  have "{t. \<exists>fs. list_type t = Struct fs} \<subseteq> {0}" by (auto simp: list_type_def split: if_splits)
  then have fin: "finite {t. \<exists>fs. list_type t = Struct fs}" by (rule finite_subset) simp
  have d: "deref list_type t = Some (if t = 1 then 0 else t)" for t
    by (subst deref.simps) (simp add: list_type_def deref.simps [of _ 0])
  then have total: "deref list_type t \<noteq> None" for t by simp
  have ns: "\<not> isStreamType list_type (\<lambda>_ _. False) (\<lambda>t. t) 1"
    by (simp add: isStreamType_def typeImplements_def list_type_def)
  have "\<not> tagged list_type ''msgpack'' u" for u
    by (auto simp: tagged_def list_type_def split: if_splits)
  then have nm: "\<not> (\<exists>u. reaches list_type (the (deref list_type 1)) u \<and> tagged list_type ''msgpack'' u)" by blast
  have "tagged list_type ''json'' 0"
  proof -
    have "list_type 0 = Struct [\<lparr>fieldTag = (\<lambda>_. ''''), fieldType = 1\<rparr>,
       \<lparr>fieldTag = (\<lambda>tag. if tag = ''json'' then ''x'' else ''''), fieldType = 2\<rparr>]"
      by (simp add: list_type_def)
    then show ?thesis unfolding tagged_def by fastforce
  qed
  then have hj: "\<exists>u. reaches list_type (the (deref list_type 1)) u \<and> tagged list_type ''json'' u"
    using reaches_refl [of list_type 0] d [of 1] by auto
  show ?thesis
    unfolding inferCodecType_first_tag [OF fin total, of "\<lambda>_ _. False" "\<lambda>t. t" 1] Let_def
    by (simp only: if_not_P [OF ns] if_not_P [OF nm] if_P [OF hj])
qed

text \<open>
  What is asked of an encoding library, for the one value at hand: it encodes \<open>v\<close> as \<open>p\<close>, and decodes \<open>p\<close>
  into a variable of the type of the codec as \<open>v\<close>. Whether a library does this is a matter of the value.
\<close>

definition carries :: "'v libraries \<Rightarrow> codec \<Rightarrow> 'v \<Rightarrow> byte list \<Rightarrow> bool" where
  "carries libs c v p \<longleftrightarrow> encodeWith libs (codec c) v = Inr p \<and> decodeWith libs (codec c) (elemT c) p = Inr v
     \<and> length p < 2 ^ 32"

lemma codec_Decode_ReadAll:
  assumes "\<not> Stream c" and "MsgType msg = typeID c" and "message_ReadAll (Some msg) con = Some (Inr bs, mo, con')"
  shows "codec_Decode libs shape c (Some msg) con =
    Some (case decodeWith libs (codec c) (elemT c) bs of Inl e \<Rightarrow> Inl e | Inr v \<Rightarrow> Inr (Plain v), mo, con')"
  using assms by (simp add: codec_Decode_def)

lemma ReadAll_conn_message:
  assumes "conn_avail con = p @ rest" and "length p < 2 ^ 32"
  shows "\<exists>msg con'. message_ReadAll (Some (conn_message mid t (of_nat (length p)))) con = Some (Inr p, Some msg, con')"
proof -
  let ?m = "conn_message mid t (of_nat (length p))"
  have len: "unat (of_nat (length p) :: u32) = length p" using assms(2) by (rule unat_of_nat_u32)
  have l: "payload_fin ((OnConn, con), length p) = LibE EOF" "payload_avail ((OnConn, con), length p) = p"
    using assms(1) by (simp_all add: payload_fin_def payload_avail_def limited_fin_def limited_avail_def)
  have "payloadCache ?m = None" "payloadReader ?m = Some (OnConn, length p)"
    by (simp_all add: conn_message_def len)
  from ReadAll_reader [OF this, of con, unfolded l] obtain mo con' where
    r: "message_ReadAll (Some ?m) con = Some (Inr p, mo, con')" by auto
  from ReadAll_place [OF r] r show ?thesis by blast
qed

text \<open>
  a buffered codec decodes what it encoded: the message made from a value carries its encoding, and decoding a received message
  with that payload gives what the library decodes it to, however the connection cuts the payload into segments.
\<close>

theorem decode_received_value:
  assumes "carries libs c v p" and "\<not> Stream c" and "conn_avail con = p @ rest"
  shows "ToMessageWithID libs c mid v = Inr (NewMessage mid (typeID c) p)
    \<and> (\<exists>msg con'. codec_Decode libs shape c (Some (conn_message mid (typeID c) (of_nat (length p)))) con
         = Some (Inr (Plain v), Some msg, con'))"
proof -
  have p: "length p < 2 ^ 32" using assms(1) by (simp add: carries_def)
  obtain msg con' where r: "message_ReadAll (Some (conn_message mid (typeID c) (of_nat (length p)))) con
      = Some (Inr p, Some msg, con')"
    using ReadAll_conn_message [OF assms(3) p, of mid "typeID c"] by blast
  have "MsgType (conn_message mid (typeID c) (of_nat (length p))) = typeID c" by (simp add: conn_message_def)
  from codec_Decode_ReadAll [OF assms(2) this r, of libs shape] assms(1)
  show ?thesis by (auto simp: carries_def codec_Encode_def ToMessageWithID_def)
qed

definition byte_library :: "byte list library" where
  "byte_library = \<lparr>marshal = (\<lambda>v. Inr v), unmarshal = (\<lambda>T bs. Inr bs)\<rparr>"

definition byte_libraries :: "byte list libraries" where
  "byte_libraries = \<lparr>msgpack = byte_library, gob = byte_library, json = byte_library, yaml = byte_library\<rparr>"

theorem decode_received_value_witness:
  "\<exists>msg con'. codec_Decode byte_libraries (\<lambda>_. ToOther) \<lparr>codec = CodecJSON, typeID = 9, Stream = False, elemT = 0\<rparr>
     (Some (conn_message 1 9 3)) ([[7], [8, 9, 5]], LibE EOF) = Some (Inr (Plain [7, 8, 9]), Some msg, con')"
  using decode_received_value [of byte_libraries "\<lparr>codec = CodecJSON, typeID = 9, Stream = False, elemT = 0\<rparr>" "[7, 8, 9]"
      "[7, 8, 9]" "([[7], [8, 9, 5]], LibE EOF)" "[5]" 1 "\<lambda>_. ToOther"]
  by (simp add: carries_def byte_libraries_def byte_library_def encodeWith_def decodeWith_def codec_types)

end
