(* ===== verification/Protocol.thy ===== *)
theory Protocol
  imports Codec
begin

text \<open>
  \<^verbatim>\<open>vsock/protocol/m.go\<close> and \<^verbatim>\<open>vsock/protocol/r.go\<close>: typed messages \<^verbatim>\<open>M[T]\<close> and typed
  requests \<^verbatim>\<open>R[Req, Resp]\<close> over a messenger.

  An \<^verbatim>\<open>M\<close> or \<^verbatim>\<open>R\<close> object is an address with its codecs; what it may change, the
  registered function, is in the state under its address. Names of the functions that users register have
  type \<open>'f\<close>; what calling them does is given by \<open>callM\<close> and \<open>callR\<close>. A stream payload keeps
  the reader of the message it came with, so these calls take and return the message.
\<close>

section \<open>State\<close>

text \<open>The two kinds of handlers that this package registers with the messenger.\<close>

datatype handler_name =
    HandleM nat codec
  | HandleR nat codec codec

record 'f peer = "handler_name endpoint" +
  receiverM :: "nat \<Rightarrow> 'f option"
  handlerR :: "nat \<Rightarrow> 'f option"

record mobj =
  addrM :: nat
  codecM :: "codec option"

text \<open>\<open>hasMessenger\<close> is false for the zero value of \<^verbatim>\<open>R\<close>, whose messenger is nil.\<close>

record robj =
  addrR :: nat
  hasMessenger :: bool
  requestCodec :: "codec option"
  responseCodec :: "codec option"

section \<open>Typed messages\<close>

definition NewM :: "nat \<Rightarrow> ('f, 'm) peer_scheme option \<Rightarrow> codec option
    \<Rightarrow> mobj result \<times> ('f, 'm) peer_scheme option" where
  "NewM addr so co =
     (case so of
        None \<Rightarrow> (Inl (VsockE ErrNilTransport), None)
      | Some s \<Rightarrow>
          (case co of
             None \<Rightarrow> (Inl (VsockE ErrNilCodec), Some s)
           | Some c \<Rightarrow>
               (let s1 = s\<lparr>receiverM := (receiverM s)(addr := None)\<rparr> in
                case OnReceive (typeID c) (Some (HandleM addr c)) s1 of
                  (Some e, s2) \<Rightarrow> (Inl e, Some s2)
                | (None, s2) \<Rightarrow> (Inr \<lparr>addrM = addr, codecM = Some c\<rparr>, Some s2))))"

text \<open>The function that \<^verbatim>\<open>NewM\<close> registers.\<close>

definition M_handle ::
  "'v libraries \<Rightarrow> (tid \<Rightarrow> stream_target)
     \<Rightarrow> ('f \<Rightarrow> ctx \<Rightarrow> 'v decoded \<Rightarrow> message \<Rightarrow> ('f, 'm) peer_scheme \<Rightarrow> (error option \<times> message \<times> ('f, 'm) peer_scheme) option)
     \<Rightarrow> nat \<Rightarrow> codec \<Rightarrow> ctx \<Rightarrow> message \<Rightarrow> ('f, 'm) peer_scheme
     \<Rightarrow> (error option \<times> message \<times> ('f, 'm) peer_scheme) option" where
  "M_handle libs shape callM addr c ctx msg s =
     (case receiverM s addr of
        None \<Rightarrow> Some (None, msg, s)
      | Some f \<Rightarrow>
          (case codec_Decode libs shape c (Some msg) (input s) of
             None \<Rightarrow> None
           | Some (Inl e, mo, con) \<Rightarrow>
               Some (Some e, (case mo of Some msg1 \<Rightarrow> msg1 | None \<Rightarrow> msg), s\<lparr>input := con\<rparr>)
           | Some (Inr t, mo, con) \<Rightarrow>
               callM f ctx t (case mo of Some msg1 \<Rightarrow> msg1 | None \<Rightarrow> msg) (s\<lparr>input := con\<rparr>)))"

definition M_Send ::
  "'v libraries \<Rightarrow> ('v \<Rightarrow> 's dynamic_payload) \<Rightarrow> ('s \<Rightarrow> nat \<Rightarrow> 's rres) \<Rightarrow> 's seeker option
     \<Rightarrow> (nat \<Rightarrow> byte list result) \<Rightarrow> ctx \<Rightarrow> mobj option \<Rightarrow> 'v \<Rightarrow> ('f, 'm) peer_scheme
     \<Rightarrow> (error option \<times> ('f, 'm) peer_scheme) option" where
  "M_Send libs dyn rd sk rand ctx mo payload s =
     (case mo of
        None \<Rightarrow> Some (Some (VsockE ErrNilCodec), s)
      | Some m \<Rightarrow>
          (case codecM m of
             None \<Rightarrow> Some (Some (VsockE ErrNilCodec), s)
           | Some c \<Rightarrow>
               if Stream c then
                 (case StreamSourceFromPayload (dyn payload) of
                    Inl e \<Rightarrow> Some (Some e, s)
                  | Inr (r, payloadLen) \<Rightarrow>
                      map_option (\<lambda>(res, ro, so). (case res of Inl e \<Rightarrow> Some e | Inr mid \<Rightarrow> None,
                                                   case so of Some s' \<Rightarrow> s' | None \<Rightarrow> s))
                        (SendStream rd sk rand ctx (typeID c) payloadLen (Some r) (Some s)))
               else
                 (case ToMessage libs c rand payload of
                    None \<Rightarrow> None
                  | Some (Inl e) \<Rightarrow> Some (Some e, s)
                  | Some (Inr msg) \<Rightarrow>
                      map_option (\<lambda>(e, mo', con, s'). (e, s'\<lparr>input := con\<rparr>)) (Send ctx (Some msg) (input s) s))))"

definition M_OnReceive :: "mobj option \<Rightarrow> 'f option \<Rightarrow> ('f, 'm) peer_scheme \<Rightarrow> error option \<times> ('f, 'm) peer_scheme" where
  "M_OnReceive mo handler s =
     (case mo of
        None \<Rightarrow> (Some (VsockE ErrNilHandler), s)
      | Some m \<Rightarrow>
          (case handler of
             None \<Rightarrow> (Some (VsockE ErrNilHandler), s)
           | Some f \<Rightarrow>
               if receiverM s (addrM m) \<noteq> None then (Some (VsockE ErrHandlerAlreadyRegistered), s)
               else (None, s\<lparr>receiverM := (receiverM s)(addrM m \<mapsto> f)\<rparr>)))"

definition M_RemoveReceiver :: "mobj option \<Rightarrow> ('f, 'm) peer_scheme \<Rightarrow> bool \<times> ('f, 'm) peer_scheme" where
  "M_RemoveReceiver mo s =
     (case mo of
        None \<Rightarrow> (False, s)
      | Some m \<Rightarrow>
          if receiverM s (addrM m) = None then (False, s)
          else (True, s\<lparr>receiverM := (receiverM s)(addrM m := None)\<rparr>))"

section \<open>Typed requests\<close>

definition NewR :: "nat \<Rightarrow> ('f, 'm) peer_scheme option \<Rightarrow> codec option \<Rightarrow> codec option
    \<Rightarrow> robj result \<times> ('f, 'm) peer_scheme option" where
  "NewR addr so qo ro =
     (case so of
        None \<Rightarrow> (Inl (VsockE ErrNilTransport), None)
      | Some s \<Rightarrow>
          (case (qo, ro) of
             (Some qc, Some rc) \<Rightarrow>
               (let s1 = s\<lparr>handlerR := (handlerR s)(addr := None)\<rparr> in
                case OnReceive (typeID qc) (Some (HandleR addr qc rc)) s1 of
                  (Some e, s2) \<Rightarrow> (Inl e, Some s2)
                | (None, s2) \<Rightarrow> (Inr \<lparr>addrR = addr, hasMessenger = True, requestCodec = Some qc, responseCodec = Some rc\<rparr>, Some s2))
           | _ \<Rightarrow> (Inl (VsockE ErrNilCodec), Some s)))"

text \<open>The function that \<^verbatim>\<open>NewR\<close> registers.\<close>

definition R_handle ::
  "'v libraries \<Rightarrow> (tid \<Rightarrow> stream_target) \<Rightarrow> ('v \<Rightarrow> 's dynamic_payload) \<Rightarrow> ('s \<Rightarrow> nat \<Rightarrow> 's rres) \<Rightarrow> 's seeker option
     \<Rightarrow> ('f \<Rightarrow> ctx \<Rightarrow> 'v decoded \<Rightarrow> message \<Rightarrow> ('f, 'm) peer_scheme \<Rightarrow> ('v result \<times> message \<times> ('f, 'm) peer_scheme) option)
     \<Rightarrow> nat \<Rightarrow> codec \<Rightarrow> codec \<Rightarrow> ctx \<Rightarrow> message \<Rightarrow> ('f, 'm) peer_scheme
     \<Rightarrow> (error option \<times> message \<times> ('f, 'm) peer_scheme) option" where
  "R_handle libs shape dyn rd sk callR addr qc rc ctx msg s =
     (case handlerR s addr of
        None \<Rightarrow> Some (None, msg, s)
      | Some f \<Rightarrow>
          (case codec_Decode libs shape qc (Some msg) (input s) of
             None \<Rightarrow> None
           | Some (Inl e, mo, con) \<Rightarrow>
               Some (Some e, (case mo of Some msg1 \<Rightarrow> msg1 | None \<Rightarrow> msg), s\<lparr>input := con\<rparr>)
           | Some (Inr req, mo, con) \<Rightarrow>
               (case callR f ctx req (case mo of Some msg1 \<Rightarrow> msg1 | None \<Rightarrow> msg) (s\<lparr>input := con\<rparr>) of
                  None \<Rightarrow> None
                | Some (Inl e, msg2, s2) \<Rightarrow> Some (Some e, msg2, s2)
                | Some (Inr resp, msg2, s2) \<Rightarrow>
                    if Stream rc then
                      (case StreamSourceFromPayload (dyn resp) of
                         Inl e \<Rightarrow> Some (Some e, msg2, s2)
                       | Inr (r, payloadLen) \<Rightarrow>
                           map_option (\<lambda>(e, ro, so). (e, msg2, case so of Some s3 \<Rightarrow> s3 | None \<Rightarrow> s2))
                             (SendStreamWithID rd sk ctx (ID msg2) (typeID rc) payloadLen (Some r) (Some s2)))
                    else
                      (case ToMessageWithID libs rc (ID msg2) resp of
                         Inl e \<Rightarrow> Some (Some e, msg2, s2)
                       | Inr out \<Rightarrow>
                           map_option (\<lambda>(e, mo', con', s3). (e, msg2, s3\<lparr>input := con'\<rparr>))
                             (Send ctx (Some out) (input s2) s2)))))"

text \<open>
  \<^verbatim>\<open>R.Request\<close>. The response message that comes out of \<^verbatim>\<open>Messenger.Request\<close> has a pipe for its
  payload; \<open>arrived\<close> are the bytes that the receive loop writes into it before it is closed.
\<close>

definition R_Request ::
  "'v libraries \<Rightarrow> (tid \<Rightarrow> stream_target) \<Rightarrow> ('v \<Rightarrow> 's dynamic_payload) \<Rightarrow> ('s \<Rightarrow> nat \<Rightarrow> 's rres) \<Rightarrow> 's seeker option
     \<Rightarrow> (nat \<Rightarrow> byte list result) \<Rightarrow> ctx \<Rightarrow> robj option \<Rightarrow> 'v \<Rightarrow> resp_event list \<Rightarrow> byte list \<Rightarrow> ('f, 'm) peer_scheme
     \<Rightarrow> ('v decoded result \<times> ('f, 'm) peer_scheme) option" where
  "R_Request libs shape dyn rd sk rand ctx ro payload evs arrived s =
     (case ro of
        None \<Rightarrow> Some (Inl (VsockE ErrNilTransport), s)
      | Some r \<Rightarrow>
          if \<not> hasMessenger r then Some (Inl (VsockE ErrNilTransport), s)
          else (case (requestCodec r, responseCodec r) of
             (Some qc, Some rc) \<Rightarrow>
               (case (if Stream qc then
                        (case StreamSourceFromPayload (dyn payload) of
                           Inl e \<Rightarrow> Some (Inl e, Some s)
                         | Inr (rdr, payloadLen) \<Rightarrow>
                             RequestStream rd sk rand ctx (typeID qc) payloadLen (Some rdr) (typeID rc) evs (Some s))
                      else
                        (case ToMessage libs qc rand payload of
                           None \<Rightarrow> None
                         | Some (Inl e) \<Rightarrow> Some (Inl e, Some s)
                         | Some (Inr msg) \<Rightarrow> Request ctx (Some msg) (typeID rc) evs (Some s))) of
                  None \<Rightarrow> None
                | Some (Inl e, so) \<Rightarrow> Some (Inl e, case so of Some s' \<Rightarrow> s' | None \<Rightarrow> s)
                | Some (Inr h, so) \<Rightarrow>
                    (let respMsg = \<lparr>ID = ID h, MsgType = MsgType h, Length = Length h,
                           payloadReader = Some (OnBytes arrived, unat (Length h)), payloadCache = None\<rparr>;
                         s' = (case so of Some s' \<Rightarrow> s' | None \<Rightarrow> s)
                     in map_option (\<lambda>(res, mo, con). (res, s'\<lparr>input := con\<rparr>))
                          (codec_Decode libs shape rc (Some respMsg) (input s'))))
           | _ \<Rightarrow> Some (Inl (VsockE ErrNilCodec), s)))"

definition R_OnRequest :: "robj option \<Rightarrow> 'f option \<Rightarrow> ('f, 'm) peer_scheme \<Rightarrow> error option \<times> ('f, 'm) peer_scheme" where
  "R_OnRequest ro handler s =
     (case ro of
        None \<Rightarrow> (Some (VsockE ErrNilHandler), s)
      | Some r \<Rightarrow>
          (case handler of
             None \<Rightarrow> (Some (VsockE ErrNilHandler), s)
           | Some f \<Rightarrow>
               if handlerR s (addrR r) \<noteq> None then (Some (VsockE ErrHandlerAlreadyRegistered), s)
               else (None, s\<lparr>handlerR := (handlerR s)(addrR r \<mapsto> f)\<rparr>)))"

definition R_RemoveReceiver :: "robj option \<Rightarrow> ('f, 'm) peer_scheme \<Rightarrow> bool \<times> ('f, 'm) peer_scheme" where
  "R_RemoveReceiver ro s =
     (case ro of
        None \<Rightarrow> (False, s)
      | Some r \<Rightarrow>
          if handlerR s (addrR r) = None then (False, s)
          else (True, s\<lparr>handlerR := (handlerR s)(addrR r := None)\<rparr>))"

text \<open>What the messenger runs when it calls one of the two handlers.\<close>

fun protocol_run ::
  "'v libraries \<Rightarrow> (tid \<Rightarrow> stream_target) \<Rightarrow> ('v \<Rightarrow> 's dynamic_payload) \<Rightarrow> ('s \<Rightarrow> nat \<Rightarrow> 's rres) \<Rightarrow> 's seeker option
     \<Rightarrow> ('f \<Rightarrow> ctx \<Rightarrow> 'v decoded \<Rightarrow> message \<Rightarrow> ('f, 'm) peer_scheme \<Rightarrow> (error option \<times> message \<times> ('f, 'm) peer_scheme) option)
     \<Rightarrow> ('f \<Rightarrow> ctx \<Rightarrow> 'v decoded \<Rightarrow> message \<Rightarrow> ('f, 'm) peer_scheme \<Rightarrow> ('v result \<times> message \<times> ('f, 'm) peer_scheme) option)
     \<Rightarrow> handler_name \<Rightarrow> ctx \<Rightarrow> message \<Rightarrow> ('f, 'm) peer_scheme
     \<Rightarrow> (error option \<times> message \<times> ('f, 'm) peer_scheme) option" where
  "protocol_run libs shape dyn rd sk callM callR (HandleM addr c) = M_handle libs shape callM addr c"
| "protocol_run libs shape dyn rd sk callM callR (HandleR addr qc rc) = R_handle libs shape dyn rd sk callR addr qc rc"

section \<open>Places for one function\<close>

interpretation m_slot: slot "\<lambda>s. receiverM s (addrM m)" "M_OnReceive (Some m)"
  by unfold_locales (auto simp: M_OnReceive_def)

interpretation r_slot: slot "\<lambda>s. handlerR s (addrR r)" "R_OnRequest (Some r)"
  by unfold_locales (auto simp: R_OnRequest_def)

section \<open>The handlers keep to their message\<close>

lemma ReadAll_total: "message_ReadAll (Some m) c \<noteq> None"
proof (cases "payloadCache m = None \<and> payloadReader m \<noteq> None")
  case False
  then show ?thesis by (auto simp: message_ReadAll_def split: option.splits)
next
  case True
  then obtain r N where rd: "payloadReader m = Some (r, N)" by auto
  obtain s' where "io_ReadAll payload_read ((r, c), N) = Some (payload_avail ((r, c), N),
      if payload_fin ((r, c), N) = LibE EOF then None else Some (payload_fin ((r, c), N)), s')"
    using payload.ReadAll_spec [of "((r, c), N)"] by blast
  with True rd show ?thesis by (cases s') (auto simp: message_ReadAll_def split: prod.splits)
qed

lemma codec_Decode_place:
  "\<exists>res msg' con'. codec_Decode libs shape c (Some msg) con = Some (res, Some msg', con')
     \<and> after_payload msg' con' = after_payload msg con \<and> conn_fin con' = conn_fin con"
proof (cases "MsgType msg = typeID c \<and> \<not> Stream c")
  case False
  then have "\<exists>res. codec_Decode libs shape c (Some msg) con = Some (res, Some msg, con)"
    by (auto simp: codec_Decode_def)
  then show ?thesis by blast
next
  case True
  obtain r mo con' where ra: "message_ReadAll (Some msg) con = Some (r, mo, con')"
    using ReadAll_total [of msg con] by auto
  from ReadAll_place [OF this] obtain msg' where "mo = Some msg'" "after_payload msg' con' = after_payload msg con"
    "conn_fin con' = conn_fin con" by blast
  with True ra show ?thesis by (cases r) (simp_all add: codec_Decode_def)
qed

lemma place_input:
  "after_payload msg' con' = after_payload msg (input s) \<Longrightarrow> conn_fin con' = conn_fin (input s) \<Longrightarrow>
   place msg' (s\<lparr>input := con'\<rparr>) = place msg s"
  by (simp add: place_def)

text \<open>A state that differs only in what sending changes.\<close>

definition sent :: "('h, 'm) endpoint_scheme \<Rightarrow> ('h, 'm) endpoint_scheme \<Rightarrow> bool" where
  "sent s s' \<longleftrightarrow> messenger.more s' = messenger.more s \<and> config s' = config s \<and> connected s' = connected s
     \<and> (acks_ok (ackTable s) \<longrightarrow> acks_ok (ackTable s'))"

lemma input_more: "messenger.more s' = messenger.more s \<Longrightarrow> input s' = input s"
  by (cases s; cases s') simp

lemma sent_place: "sent s s' \<Longrightarrow> place msg s' = place msg s"
  using input_more [of s' s] by (simp add: sent_def place_def)

lemma Send_sent: "Send ctx mo c s = Some (e, mo', c', s') \<Longrightarrow> sent s s'"
  using Send_rest [of ctx mo c s e mo' c' s'] Send_acks_ok [of s ctx mo c e mo' c' s']
  by (auto simp: sent_def)

text \<open>
  The contract of the functions that users register, given the reader of outgoing streams: as for handlers of the
  messenger, a call comes back, leaves what lies beyond its message alone, and keeps the table of acknowledgements
  well-formed.
\<close>

locale user_functions = reader rd avail fin meas
  for rd :: "'s \<Rightarrow> nat \<Rightarrow> 's rres" and avail fin meas +
  fixes callM :: "'f \<Rightarrow> ctx \<Rightarrow> 'v decoded \<Rightarrow> message \<Rightarrow> ('f, 'm) peer_scheme \<Rightarrow> (error option \<times> message \<times> ('f, 'm) peer_scheme) option"
    and callR :: "'f \<Rightarrow> ctx \<Rightarrow> 'v decoded \<Rightarrow> message \<Rightarrow> ('f, 'm) peer_scheme \<Rightarrow> ('v result \<times> message \<times> ('f, 'm) peer_scheme) option"
  assumes callM_ok: "\<exists>err msg' s'. callM f ctx v msg s = Some (err, msg', s') \<and> place msg' s' = place msg s
        \<and> (acks_ok (ackTable s) \<longrightarrow> acks_ok (ackTable s'))"
    and callR_ok: "\<exists>res msg' s'. callR f ctx v msg s = Some (res, msg', s') \<and> place msg' s' = place msg s
        \<and> (acks_ok (ackTable s) \<longrightarrow> acks_ok (ackTable s'))"
begin

lemma SendStreamWithID_sent:
  "SendStreamWithID rd sk ctx mid t len ro (Some s) = Some (e, ro', so) \<Longrightarrow> \<exists>s'. so = Some s' \<and> sent s s'"
  using SendStreamWithID_rest [of sk ctx mid t len ro s e ro' so] SendStreamWithID_acks_ok [of s sk ctx mid t len ro e ro']
  by (auto simp: sent_def)

lemma M_handle_ok:
  "\<exists>err msg' s'. M_handle libs shape callM addr c ctx msg s = Some (err, msg', s') \<and> place msg' s' = place msg s
     \<and> (acks_ok (ackTable s) \<longrightarrow> acks_ok (ackTable s'))"
proof (cases "receiverM s addr")
  case None
  then show ?thesis by (simp add: M_handle_def)
next
  case (Some f)
  obtain res msg1 con where d: "codec_Decode libs shape c (Some msg) (input s) = Some (res, Some msg1, con)"
    and p: "after_payload msg1 con = after_payload msg (input s)" "conn_fin con = conn_fin (input s)"
    using codec_Decode_place by blast
  note pl = place_input [OF p]
  show ?thesis
  proof (cases res)
    case (Inl e)
    with Some d pl show ?thesis by (simp add: M_handle_def)
  next
    case (Inr t)
    with Some d pl callM_ok [of f ctx t msg1 "s\<lparr>input := con\<rparr>"] show ?thesis by (simp add: M_handle_def)
  qed
qed

lemma R_handle_ok:
  "\<exists>err msg' s'. R_handle libs shape dyn rd sk callR addr qc rc ctx msg s = Some (err, msg', s') \<and> place msg' s' = place msg s
     \<and> (acks_ok (ackTable s) \<longrightarrow> acks_ok (ackTable s'))"
proof (cases "handlerR s addr")
  case None
  then show ?thesis by (simp add: R_handle_def)
next
  case (Some f)
  obtain res msg1 con where d: "codec_Decode libs shape qc (Some msg) (input s) = Some (res, Some msg1, con)"
    and p: "after_payload msg1 con = after_payload msg (input s)" "conn_fin con = conn_fin (input s)"
    using codec_Decode_place by blast
  note pl = place_input [OF p]
  show ?thesis
  proof (cases res)
    case (Inl e)
    with Some d pl show ?thesis by (simp add: R_handle_def)
  next
    case (Inr req)
    obtain rr msg2 s2 where c: "callR f ctx req msg1 (s\<lparr>input := con\<rparr>) = Some (rr, msg2, s2)"
      and p2: "place msg2 s2 = place msg s" and a2: "acks_ok (ackTable s) \<longrightarrow> acks_ok (ackTable s2)"
      using callR_ok [of f ctx req msg1 "s\<lparr>input := con\<rparr>"] pl by auto
    note step = R_handle_def Some d Inr c
    show ?thesis
    proof (cases rr)
      case (Inl e)
      with p2 a2 show ?thesis by (simp add: step)
    next
      case rr: (Inr resp)
      show ?thesis
      proof (cases "Stream rc")
        case True
        show ?thesis
        proof (cases "StreamSourceFromPayload (dyn resp)")
          case (Inl e)
          with True rr p2 a2 show ?thesis by (simp add: step)
        next
          case (Inr rl)
          obtain r l where rl: "rl = (r, l)" by (cases rl)
          obtain e ro so where snd: "SendStreamWithID rd sk ctx (ID msg2) (typeID rc) l (Some r) (Some s2) = Some (e, ro, so)"
            using SendStreamWithID_total by (metis not_Some_eq prod.collapse)
          from SendStreamWithID_sent [OF this] obtain s3 where "so = Some s3" "sent s2 s3" by blast
          with True rr Inr rl snd p2 a2 sent_place [of s2 s3 msg2] show ?thesis
            by (simp add: step) (simp add: sent_def)
        qed
      next
        case False
        show ?thesis
        proof (cases "ToMessageWithID libs rc (ID msg2) resp")
          case (Inl e)
          with False rr p2 a2 show ?thesis by (simp add: step)
        next
          case (Inr out)
          then obtain pl where "out = NewMessage (ID msg2) (typeID rc) pl"
            by (auto simp: ToMessageWithID_def split: sum.splits)
          then obtain e mo s3 where snd: "Send ctx (Some out) (input s2) s2 = Some (e, mo, input s2, s3)"
            using Send_NewMessage by blast
          from Send_sent [OF this] have s: "sent s2 s3" .
          moreover have "input s3 = input s2" using s input_more [of s3 s2] by (simp add: sent_def)
          then have "s3\<lparr>input := input s2\<rparr> = s3" by (cases s3) simp
          ultimately show ?thesis using False rr Inr snd p2 a2 sent_place [of s2 s3 msg2]
            by (simp add: step) (simp add: sent_def)
        qed
      qed
    qed
  qed
qed

end

lemma protocol_handlers:
  assumes "user_functions rd avail fin meas callM callR"
  shows "handlers (protocol_run libs shape dyn rd sk callM callR)"
proof (rule handlers.intro)
  fix h ctx msg s
  show "\<exists>err msg' e'. protocol_run libs shape dyn rd sk callM callR h ctx msg s = Some (err, msg', e') \<and> place msg' e' = place msg s
      \<and> (acks_ok (ackTable s) \<longrightarrow> acks_ok (ackTable e'))"
    using user_functions.M_handle_ok [OF assms] user_functions.R_handle_ok [OF assms] by (cases h) simp_all
qed

sublocale user_functions \<subseteq> handlers "protocol_run libs shape dyn rd sk callM callR" for libs shape dyn sk
  by (rule protocol_handlers) (rule user_functions_axioms)

section \<open>Properties\<close>

lemma resolveResponse_none:
  "pendingResponses (respTable s) (ID msg) = None \<Longrightarrow> resolveResponse reads msg s = Some ((False, None), msg, s)"
  by (simp add: resolveResponse_def takeResponse_def)

text \<open>
  What dispatching a message with the encoding of a value does; that the receiver is called depends on nothing but the tables.
\<close>

lemma dispatch_value:
  assumes "carries libs c v p" and "\<not> Stream c" and "receivers s (typeID c) = Some (HandleM a c)" and "receiverM s a = Some f"
    and "typeID c \<noteq> acknowledgeTypeID" and "pendingResponses (respTable s) mid = None" and "conn_avail (input s) = p @ rest"
  shows "\<exists>msg1 con. handleMessage (protocol_run libs shape dyn rd sk callM callR) reads ctx
      (Some (conn_message mid (typeID c) (of_nat (length p)))) s =
    (case callM f ctx (Plain v) msg1 (s\<lparr>input := con\<rparr>) of
       None \<Rightarrow> None
     | Some (Some e, msg2, s2) \<Rightarrow> Some (Some e, Some msg2, s2)
     | Some (None, msg2, s2) \<Rightarrow> (case sendAcknowledge msg2 s2 of (e, s3) \<Rightarrow> Some (e, Some msg2, s3)))"
proof -
  let ?m = "conn_message mid (typeID c) (of_nat (length p))"
  have p: "length p < 2 ^ 32" using assms(1) by (simp add: carries_def)
  obtain msg1 con where ra: "message_ReadAll (Some ?m) (input s) = Some (Inr p, Some msg1, con)"
    using ReadAll_conn_message [OF assms(7) p] by blast
  have t: "MsgType ?m = typeID c" "ID ?m = mid" by (simp_all add: conn_message_def)
  have d: "codec_Decode libs shape c (Some ?m) (input s) = Some (Inr (Plain v), Some msg1, con)"
    using codec_Decode_ReadAll [OF assms(2) t(1) ra, of libs shape] assms(1) by (simp add: carries_def)
  have "resolveResponse reads ?m s = Some ((False, None), ?m, s)"
    using assms(6) t by (simp add: resolveResponse_none)
  with d t assms(3-5) show ?thesis
    by (intro exI [of _ msg1] exI [of _ con]) (simp add: handleMessage_def M_handle_def)
qed

lemma M_Send_frame:
  assumes "carries libs c v p" and "\<not> Stream c" and "codecM m = Some c" and "generateID rand 0 = Some (Inr mid, k)" and "mid \<noteq> 0"
    and "connected s" and "fits s (of_nat (length p))" and "quiet ctx s" and "\<not> shouldAwaitAcknowledge s (typeID c)"
    and "0 \<le> MaxRetries (config s)"
  shows "\<exists>s'. M_Send libs dyn rd sk rand ctx (Some m) v s = Some (None, s') \<and> wire s' = wire s @ frame mid (typeID c) p"
proof -
  have t: "ToMessage libs c rand v = Some (Inr (NewMessage mid (typeID c) p))"
    using assms(1,4) by (simp add: carries_def ToMessage_def ToMessageWithID_def codec_Encode_def)
  have "length p < 2 ^ 32" using assms(1) by (simp add: carries_def)
  with Send_quiet [OF assms(6,5,7-10), of "input s"] obtain mo con s1 where
    "Send ctx (Some (NewMessage mid (typeID c) p)) (input s) s = Some (None, mo, con, s1)"
    "wire s1 = wire s @ frame mid (typeID c) p" by (auto simp: frame_def)
  with t assms(2,3) show ?thesis by (simp add: M_Send_def)
qed

text \<open>
  C11: a typed message reaches the receiver of the other peer as the value that was sent. When \<open>A\<close> sends \<open>v\<close> on an \<^verbatim>\<open>M\<close>
  over a connection without faults and without acknowledgements, what it writes is one frame. When this frame is at the front
  of what \<open>B\<close> receives, in any segmentation and with any frames behind it, \<open>B\<close> reads its header, and dispatching the message calls
  the function registered on the \<^verbatim>\<open>M\<close> of this type with \<open>v\<close>; the dispatch returns the error of this function, or starts an
  acknowledgement if there is none. The encoding library is asked to decode the encoding of \<open>v\<close> to \<open>v\<close>, and nothing of other values.
\<close>

theorem typed_message_delivered:
  assumes "carries libs c v p" and "\<not> Stream c" and "codecM m = Some c" and "generateID rand 0 = Some (Inr mid, k)" and "mid \<noteq> 0"
    and "connected A" and "fits A (of_nat (length p))" and "quiet ctxA A" and "\<not> shouldAwaitAcknowledge A (typeID c)"
    and "0 \<le> MaxRetries (config A)"
    and "connected B" and "receivers B (typeID c) = Some (HandleM b c)" and "receiverM B b = Some f" and "typeID c \<noteq> acknowledgeTypeID"
    and "pendingResponses (respTable B) mid = None" and "acceptable (config B) (mid, typeID c, p)"
    and "conn_avail (input B) = frames ((mid, typeID c, p) # fs)"
  shows "(\<exists>A'. M_Send libs dyn rd sk rand ctxA (Some m) v A = Some (None, A') \<and> wire A' = wire A @ frame mid (typeID c) p)
    \<and> (\<exists>con0 msg1 con. readHeader B = Some (Inr \<lparr>ID = mid, MsgType = typeID c, Length = of_nat (length p), payloadReader = None,
            payloadCache = None\<rparr>, B\<lparr>input := con0\<rparr>)
        \<and> handleMessage (protocol_run libs shape dyn rd sk callM callR) reads ctxB
            (Some (conn_message mid (typeID c) (of_nat (length p)))) (B\<lparr>input := con0\<rparr>) =
          (case callM f ctxB (Plain v) msg1 (B\<lparr>input := con\<rparr>) of
             None \<Rightarrow> None
           | Some (Some e, msg2, s2) \<Rightarrow> Some (Some e, Some msg2, s2)
           | Some (None, msg2, s2) \<Rightarrow> (case sendAcknowledge msg2 s2 of (e, s3) \<Rightarrow> Some (e, Some msg2, s3))))"
proof (rule conjI)
  show "\<exists>A'. M_Send libs dyn rd sk rand ctxA (Some m) v A = Some (None, A') \<and> wire A' = wire A @ frame mid (typeID c) p"
    by (rule M_Send_frame [OF assms(1-10)])
next
  obtain con0 where h: "readHeader B = Some (Inr \<lparr>ID = mid, MsgType = typeID c, Length = of_nat (length p), payloadReader = None,
      payloadCache = None\<rparr>, B\<lparr>input := con0\<rparr>)" "conn_avail con0 = p @ frames fs"
    using readHeader_acceptable [OF assms(11,17,16)] by blast
  have B: "receivers (B\<lparr>input := con0\<rparr>) (typeID c) = Some (HandleM b c)" "receiverM (B\<lparr>input := con0\<rparr>) b = Some f"
    "pendingResponses (respTable (B\<lparr>input := con0\<rparr>)) mid = None" "conn_avail (input (B\<lparr>input := con0\<rparr>)) = p @ frames fs"
    using assms(12,13,15) h(2) by simp_all
  obtain msg1 con where "handleMessage (protocol_run libs shape dyn rd sk callM callR) reads ctxB
      (Some (conn_message mid (typeID c) (of_nat (length p)))) (B\<lparr>input := con0\<rparr>) =
      (case callM f ctxB (Plain v) msg1 (B\<lparr>input := con0, input := con\<rparr>) of
         None \<Rightarrow> None
       | Some (Some e, msg2, s2) \<Rightarrow> Some (Some e, Some msg2, s2)
       | Some (None, msg2, s2) \<Rightarrow> (case sendAcknowledge msg2 s2 of (e, s3) \<Rightarrow> Some (e, Some msg2, s3)))"
    using dispatch_value [OF assms(1,2) B(1,2) assms(14) B(3,4)] by blast
  with h(1) show "\<exists>con0 msg1 con. readHeader B = Some (Inr \<lparr>ID = mid, MsgType = typeID c, Length = of_nat (length p),
            payloadReader = None, payloadCache = None\<rparr>, B\<lparr>input := con0\<rparr>)
        \<and> handleMessage (protocol_run libs shape dyn rd sk callM callR) reads ctxB
            (Some (conn_message mid (typeID c) (of_nat (length p)))) (B\<lparr>input := con0\<rparr>) =
          (case callM f ctxB (Plain v) msg1 (B\<lparr>input := con\<rparr>) of
             None \<Rightarrow> None
           | Some (Some e, msg2, s2) \<Rightarrow> Some (Some e, Some msg2, s2)
           | Some (None, msg2, s2) \<Rightarrow> (case sendAcknowledge msg2 s2 of (e, s3) \<Rightarrow> Some (e, Some msg2, s3)))"
    by (intro exI [of _ con0] exI [of _ msg1] exI [of _ con]) simp
qed

text \<open>A peer with one \<^verbatim>\<open>M\<close> and one \<^verbatim>\<open>R\<close> over byte strings, for the examples.\<close>

definition byte_codec :: "u32 \<Rightarrow> codec" where
  "byte_codec t = \<lparr>codec = CodecJSON, typeID = t, Stream = False, elemT = 0\<rparr>"

definition sample_peer :: "MessengerConfig \<Rightarrow> nat peer" where
  "sample_peer cfg =
     \<lparr>config = cfg, connected = True, ackTable = no_acks, respTable = no_responses, wire = [], writes = [], polls = 0,
      events = [], receivers = [9 \<mapsto> HandleM 0 (byte_codec 9), 5 \<mapsto> HandleR 1 (byte_codec 5) (byte_codec 6)],
      unknownMessageReceiver = None, input = ([[7, 8], [9, 5]], LibE EOF), delivered = [], spawned = [],
      receiverM = (\<lambda>a. Some 3), handlerR = (\<lambda>a. Some 4)\<rparr>"

definition accept_call :: "nat \<Rightarrow> ctx \<Rightarrow> byte list decoded \<Rightarrow> message \<Rightarrow> nat peer \<Rightarrow> (error option \<times> message \<times> nat peer) option" where
  "accept_call f ctx v msg s = Some (None, msg, s)"

definition echo_call :: "nat \<Rightarrow> ctx \<Rightarrow> byte list decoded \<Rightarrow> message \<Rightarrow> nat peer \<Rightarrow> (byte list result \<times> message \<times> nat peer) option" where
  "echo_call f ctx v msg s = Some (case v of Plain bs \<Rightarrow> Inr bs | _ \<Rightarrow> Inr [], msg, s)"

theorem typed_message_delivered_witness:
  "\<exists>A' con0 msg2 s2. M_Send byte_libraries (\<lambda>_. NotASource) bytes_read None (\<lambda>k. Inr [0, 0, 0, 0, 0, 0, 0, 2]) (\<lambda>_. None)
        (Some \<lparr>addrM = 0, codecM = Some (byte_codec 9)\<rparr>) [7, 8, 9] (sample_peer (config plain_messenger)) = Some (None, A')
    \<and> wire A' = frame 2 9 [7, 8, 9]
    \<and> handleMessage (protocol_run byte_libraries (\<lambda>_. ToOther) (\<lambda>_. NotASource) bytes_read None accept_call echo_call) (\<lambda>_. None) (\<lambda>_. None)
      (Some (conn_message 2 9 3)) ((sample_peer (config plain_messenger))\<lparr>input := con0\<rparr>) = Some (None, Some msg2, s2)"
proof -
  let ?A = "sample_peer (config plain_messenger)" and ?rand = "\<lambda>k :: nat. Inr [0, 0, 0, 0, 0, 0, 0, 2] :: byte list result"
  let ?fr = "frame 2 9 [7, 8, 9]" and ?m = "\<lparr>addrM = 0, codecM = Some (byte_codec 9)\<rparr>"
  let ?B = "?A\<lparr>input := ([take 5 ?fr, drop 5 ?fr], LibE EOF)\<rparr>"
  have "Uint64 [0, 0, 0, 0, 0, 0, 0, 2] = 2" by code_simp
  then have g: "generateID ?rand 0 = Some (Inr 2, 1)" by (simp add: generateID_def newMessageID.simps)
  have c: "carries byte_libraries (byte_codec 9) [7, 8, 9] [7, 8, 9]" "\<not> Stream (byte_codec 9)" "codecM ?m = Some (byte_codec 9)"
    "typeID (byte_codec 9) = 9" "(2 :: u64) \<noteq> 0" "(9 :: u32) \<noteq> acknowledgeTypeID"
    by (simp_all add: carries_def byte_codec_def encodeWith_def decodeWith_def byte_libraries_def byte_library_def codec_types
        acknowledgeTypeID_def)
  have A: "connected ?A" "fits ?A (of_nat (length [7 :: byte, 8, 9]))" "quiet (\<lambda>_. None) ?A" "\<not> shouldAwaitAcknowledge ?A 9"
    "0 \<le> MaxRetries (config ?A)" "wire ?A = []"
    by (simp_all add: sample_peer_def plain_messenger_def fits_def quiet_def shouldAwaitAcknowledge_def)
  have B: "connected ?B" "receivers ?B 9 = Some (HandleM 0 (byte_codec 9))" "receiverM ?B 0 = Some 3"
    "pendingResponses (respTable ?B) 2 = None" "acceptable (config ?B) (2, 9, [7, 8, 9])"
    "conn_avail (input ?B) = frames ((2, 9, [7, 8, 9]) # [])"
    by (simp_all add: sample_peer_def no_responses_def plain_messenger_def acceptable_def)
  obtain A' con0 msg1 con where A': "M_Send byte_libraries (\<lambda>_. NotASource) bytes_read None ?rand (\<lambda>_. None) (Some ?m) [7, 8, 9] ?A = Some (None, A')"
    "wire A' = wire ?A @ ?fr"
    and h: "handleMessage (protocol_run byte_libraries (\<lambda>_. ToOther) (\<lambda>_. NotASource) bytes_read None accept_call echo_call) (\<lambda>_. None) (\<lambda>_. None)
      (Some (conn_message 2 9 (of_nat (length [7 :: byte, 8, 9])))) (?B\<lparr>input := con0\<rparr>) =
    (case accept_call 3 (\<lambda>_. None) (Plain [7, 8, 9]) msg1 (?B\<lparr>input := con\<rparr>) of
       None \<Rightarrow> None
     | Some (Some e, msg2, s2) \<Rightarrow> Some (Some e, Some msg2, s2)
     | Some (None, msg2, s2) \<Rightarrow> (case sendAcknowledge msg2 s2 of (e, s3) \<Rightarrow> Some (e, Some msg2, s3)))"
    using typed_message_delivered [OF c(1-3) g c(5), unfolded c(4), OF A(1-5) B(1-3) c(6) B(4-6)] by blast
  have "\<exists>s3. sendAcknowledge msg1 (?B\<lparr>input := con\<rparr>) = (None, s3)"
    by (cases "MsgType msg1 = acknowledgeTypeID") (simp_all add: sendAcknowledge_def)
  then obtain s3 where "sendAcknowledge msg1 (?B\<lparr>input := con\<rparr>) = (None, s3)" by blast
  with h have "handleMessage (protocol_run byte_libraries (\<lambda>_. ToOther) (\<lambda>_. NotASource) bytes_read None accept_call echo_call) (\<lambda>_. None) (\<lambda>_. None)
      (Some (conn_message 2 9 3)) (?A\<lparr>input := con0\<rparr>) = Some (None, Some msg1, s3)"
    by (simp add: accept_call_def)
  with A' A(6) show ?thesis by (intro exI [of _ A'] exI [of _ con0] exI [of _ msg1] exI [of _ s3]) simp
qed

text \<open>
  While the receive loop is inside a handler, what happens to the table of acknowledgements comes from the goroutines that send:
  a send registers its waiter and takes it out again. \<^verbatim>\<open>resolveAck\<close> has one caller, \<^verbatim>\<open>handleMessage\<close>, which runs on
  the goroutine of the receive loop, so an acknowledgement is settled only after the loop has read its frame.
\<close>

fun by_a_sender :: "unit table_op \<Rightarrow> bool" where
  "by_a_sender (Register _ _) = True"
| "by_a_sender (Unregister _ _) = True"
| "by_a_sender (Settle _ _) = False"

definition from_senders :: "wait_event list \<Rightarrow> bool" where
  "from_senders evs \<longleftrightarrow> (\<forall>op. Other op \<in> set evs \<longrightarrow> by_a_sender op)"

lemma answer_not_acknowledged:
  assumes "RequireAcknowledge (config s)" and "0 \<le> MaxRetries (config s)" and "acks_ok (ackTable s)"
    and "handlerR s addr = Some f" and "\<not> Stream rc" and "typeID rc \<noteq> acknowledgeTypeID" and "from_senders (events s)"
    and "\<And>v msg1 con resp msg2 s2. callR f ctx v msg1 (s\<lparr>input := con\<rparr>) = Some (Inr resp, msg2, s2) \<Longrightarrow>
           config s2 = config s \<and> ackTable s2 = ackTable s \<and> events s2 = events s"
    and "R_handle libs shape dyn rd sk callR addr qc rc ctx msg s = Some (err, msg', s')"
  shows "err \<noteq> None"
proof
  assume ok: "err = None"
  obtain res msg1 con where d: "codec_Decode libs shape qc (Some msg) (input s) = Some (res, Some msg1, con)"
    using codec_Decode_place by blast
  from assms(4,9) ok d obtain req where req: "res = Inr req" by (cases res) (auto simp: R_handle_def)
  from assms(4,9) ok d req obtain resp msg2 s2 where
    c: "callR f ctx req msg1 (s\<lparr>input := con\<rparr>) = Some (Inr resp, msg2, s2)"
    by (auto simp: R_handle_def split: option.splits sum.splits)
  from assms(8) [OF c] have s2: "config s2 = config s" "ackTable s2 = ackTable s" "events s2 = events s" by blast+
  from assms(4,5,9) ok d req c obtain out where out: "ToMessageWithID libs rc (ID msg2) resp = Inr out"
    by (cases "ToMessageWithID libs rc (ID msg2) resp") (auto simp: R_handle_def)
  then obtain p where p: "out = NewMessage (ID msg2) (typeID rc) p"
    by (auto simp: ToMessageWithID_def split: sum.splits)
  from assms(4,5,9) ok d req c out obtain mo c' s3 where snd: "Send ctx (Some out) (input s2) s2 = Some (None, mo, c', s3)"
    by (auto simp: R_handle_def)
  then have con2: "connected s2" by (auto simp: Send_def p split: if_splits)
  obtain mo2 c2 where "Send ctx (Some (NewMessage (ID msg2) (typeID rc) p)) (input s2) s2 =
      map_option (\<lambda>(e, r, m'). (e, mo2, c2, case m' of Some m1 \<Rightarrow> m1 | None \<Rightarrow> s2))
        (SendStreamWithID byteReader_Read (Some byteReader_Seek) ctx (ID msg2) (typeID rc) (of_nat (length p))
           (Some (p, 0)) (Some s2))"
    using Send_SendStreamWithID [OF con2] by blast
  with snd p obtain r so where send: "SendStreamWithID byteReader_Read (Some byteReader_Seek) ctx (ID msg2) (typeID rc)
      (of_nat (length p)) (Some (p, 0)) (Some s2) = Some (None, r, so)"
    by auto
  from byteReader.SendStreamWithID_rest [OF send] obtain s4 where so: "so = Some s4" by blast
  have aw: "shouldAwaitAcknowledge s2 (typeID rc)"
    using assms(1,6) s2(1) by (simp add: shouldAwaitAcknowledge_def)
  have "acks_ok (ackTable s2)" "0 \<le> MaxRetries (config s2)" using assms(2,3) s2 by simp_all
  from byteReader.SendStreamWithID_acks(2) [OF this(1) send [unfolded so] this(2) aw refl] s2(3)
  have "Other (Settle () (ID msg2)) \<in> set (events s)" by auto
  with assms(7) have "by_a_sender (Settle () (ID msg2))" unfolding from_senders_def by blast
  then show False by simp
qed

lemma serves_stops:
  assumes "serves run reads ctx ((mid, t, p) # fs) e err e'"
    and "\<And>c x msg e2. handleMessage run reads ctx (Some (conn_message mid t (of_nat (length p)))) (e\<lparr>input := c\<rparr>) = Some (x, Some msg, e2)
      \<Longrightarrow> x \<noteq> None"
  shows "\<exists>x. err = Some x \<and> conn_avail (input e') = frames fs"
  using assms(1)
proof (cases rule: serves.cases)
  case (serves_next c msg e2 mo c2)
  with assms(2) show ?thesis by blast
qed simp_all

text \<open>
  C13: a handler of \<^verbatim>\<open>R\<close> with a buffered response cannot answer when acknowledgements are required. Its answer waits for an
  acknowledgement that the receive loop could take in, but the handler runs on this loop: even when the acknowledgement of the
  answer already lies on the connection, right behind the request, \<^verbatim>\<open>Serve\<close> returns an error and has not read it. The
  function of the user leaves the tables alone, and what other goroutines do to the table meanwhile is what sends do.
\<close>

theorem response_never_acknowledged:
  assumes "user_functions rd avail fin meas callM callR" and "\<forall>ch. reads ch = None" and "\<forall>k. ctx k = None"
    and "connected s" and "acks_ok (ackTable s)" and "conn_fin (input s) = LibE EOF"
    and "conn_avail (input s) = frames ((mid, typeID qc, p) # (mid, acknowledgeTypeID, []) # fs)"
    and "list_all (acceptable (config s)) ((mid, typeID qc, p) # (mid, acknowledgeTypeID, []) # fs)"
    and "RequireAcknowledge (config s)" and "0 \<le> MaxRetries (config s)" and "from_senders (events s)"
    and "receivers s (typeID qc) = Some (HandleR addr qc rc)" and "handlerR s addr = Some f" and "\<not> Stream rc"
    and "typeID qc \<noteq> acknowledgeTypeID" and "typeID rc \<noteq> acknowledgeTypeID" and "pendingResponses (respTable s) mid = None"
    and "\<And>v msg1 s1 resp msg2 s2. callR f ctx v msg1 s1 = Some (Inr resp, msg2, s2) \<Longrightarrow>
           config s2 = config s1 \<and> ackTable s2 = ackTable s1 \<and> events s2 = events s1"
  shows "\<exists>x s'. Serve timeout (protocol_run libs shape dyn rd sk callM callR) reads ctx (Some s) = Some (Some x, Some s')
    \<and> conn_avail (input s') = frames ((mid, acknowledgeTypeID, []) # fs)"
proof -
  let ?run = "protocol_run libs shape dyn rd sk callM callR"
  have "handlers ?run" by (rule protocol_handlers [OF assms(1)])
  from handlers.Serve_loop_serves [OF this assms(2-8), of timeout] obtain err s' where
    loop: "Serve_loop timeout ?run reads ctx s = Some (err, s')"
    and sv: "serves ?run reads ctx ((mid, typeID qc, p) # (mid, acknowledgeTypeID, []) # fs) s err s'" by blast
  have bad: "e \<noteq> None" if h: "handleMessage ?run reads ctx (Some (conn_message mid (typeID qc) len)) (s\<lparr>input := c\<rparr>) = Some (e, Some m2, s2)"
    for len c e m2 s2
  proof -
    let ?s = "s\<lparr>input := c\<rparr>" and ?m = "conn_message mid (typeID qc) len"
    have m: "ID ?m = mid" "MsgType ?m = typeID qc" by (simp_all add: conn_message_def)
    have none: "resolveResponse reads ?m ?s = Some ((False, None), ?m, ?s)"
      using assms(17) m by (simp add: resolveResponse_none)
    obtain r where r: "R_handle libs shape dyn rd sk callR addr qc rc ctx ?m ?s = Some r"
      using user_functions.R_handle_ok [OF assms(1)] by blast
    obtain e1 m1 s1 where rr: "r = (e1, m1, s1)" by (cases r)
    have "e1 \<noteq> None"
      by (rule answer_not_acknowledged [OF _ _ _ _ assms(14,16) _ _ r [unfolded rr], where f = f])
        (use assms(5,9-11,13) assms(18) in \<open>auto dest!: assms(18)\<close>)
    with h none m assms(12,15) r rr show ?thesis by (auto simp: handleMessage_def)
  qed
  from serves_stops [OF sv bad] have "\<exists>x. err = Some x \<and> conn_avail (input s') = frames ((mid, acknowledgeTypeID, []) # fs)" .
  with loop assms(4) show ?thesis by (auto simp: Serve_def)
qed

lemma example_functions: "user_functions bytes_read (\<lambda>bs. bs) (\<lambda>_. LibE EOF) length accept_call echo_call"
  by unfold_locales (simp_all add: accept_call_def echo_call_def)

theorem response_never_acknowledged_witness:
  "\<exists>x s'. Serve (\<lambda>_. False) (protocol_run byte_libraries (\<lambda>_. ToOther) (\<lambda>_. NotASource) bytes_read None accept_call echo_call) (\<lambda>_. None)
      (\<lambda>_. None) (Some ((sample_peer (config acking_messenger))\<lparr>input := ([frame 2 5 [7], frame 2 acknowledgeTypeID []], LibE EOF)\<rparr>)) =
    Some (Some x, Some s') \<and> conn_avail (input s') = frame 2 acknowledgeTypeID []"
proof -
  let ?s = "(sample_peer (config acking_messenger))\<lparr>input := ([frame 2 5 [7], frame 2 acknowledgeTypeID []], LibE EOF)\<rparr>"
  have b: "typeID (byte_codec 5) = 5" by (simp add: byte_codec_def)
  have "\<exists>x s'. Serve (\<lambda>_. False) (protocol_run byte_libraries (\<lambda>_. ToOther) (\<lambda>_. NotASource) bytes_read None accept_call echo_call) (\<lambda>_. None)
      (\<lambda>_. None) (Some ?s) = Some (Some x, Some s') \<and> conn_avail (input s') = frames ((2, acknowledgeTypeID, []) # [])"
    by (rule response_never_acknowledged [OF example_functions, where qc = "byte_codec 5" and rc = "byte_codec 6" and addr = 1 and f = 4
          and p = "[7]"])
      (auto simp: sample_peer_def acking_messenger_def plain_messenger_def byte_codec_def acknowledgeTypeID_def echo_call_def
        acceptable_def no_responses_def from_senders_def)
  then show ?thesis by simp
qed

text \<open>
  an \<^verbatim>\<open>R\<close> handler answers under the ID of the request: without acknowledgements, and with a connection that
  does not fail, it puts on the wire exactly the frame of the encoded response with the ID of the message it was given.
\<close>

theorem response_has_request_ID:
  assumes "handlerR s addr = Some f" and "codec_Decode libs shape qc (Some msg) (input s) = Some (Inr req, Some msg1, con)"
    and "callR f ctx req msg1 (s\<lparr>input := con\<rparr>) = Some (Inr resp, msg2, s2)" and "ID msg2 = ID msg"
    and "\<not> Stream rc" and "codec_Encode libs rc resp = Inr p" and "length p < 2 ^ 32"
    and "connected s2" and "ID msg \<noteq> 0" and "fits s2 (of_nat (length p))" and "quiet ctx s2"
    and "\<not> shouldAwaitAcknowledge s2 (typeID rc)" and "0 \<le> MaxRetries (config s2)"
  shows "\<exists>s'. R_handle libs shape dyn rd sk callR addr qc rc ctx msg s = Some (None, msg2, s')
    \<and> wire s' = wire s2 @ frame (ID msg) (typeID rc) p"
proof -
  from Send_quiet [OF assms(8,9,10,11,12,13), of "input s2"] assms(7)
  obtain mo c' s3 where "Send ctx (Some (NewMessage (ID msg) (typeID rc) p)) (input s2) s2 = Some (None, mo, c', s3)"
    "wire s3 = wire s2 @ frame (ID msg) (typeID rc) p"
    by (auto simp: frame_def)
  with assms(1-6) show ?thesis
    by (auto simp: R_handle_def ToMessageWithID_def)
qed

theorem response_has_request_ID_witness:
  "\<exists>msg2 s'. R_handle byte_libraries (\<lambda>_. ToOther) (\<lambda>_. NotASource) bytes_read None echo_call 1 (byte_codec 5) (byte_codec 6) (\<lambda>_. None)
     (conn_message 2 5 3) (sample_peer (config plain_messenger)) = Some (None, msg2, s') \<and> wire s' = frame 2 6 [7, 8, 9]"
proof -
  let ?s = "sample_peer (config plain_messenger)"
  let ?m = "conn_message 2 5 3"
  have c: "conn_avail (input ?s) = [7, 8, 9] @ [5]" by (simp add: sample_peer_def)
  obtain msg1 con where ra: "message_ReadAll (Some ?m) (input ?s) = Some (Inr [7, 8, 9], Some msg1, con)"
    using ReadAll_conn_message [OF c, of 2 5] by auto
  have b: "\<not> Stream (byte_codec 5)" "MsgType ?m = typeID (byte_codec 5)"
    by (simp_all add: byte_codec_def conn_message_def)
  have d: "codec_Decode byte_libraries (\<lambda>_. ToOther) (byte_codec 5) (Some ?m) (input ?s) = Some (Inr (Plain [7, 8, 9]), Some msg1, con)"
    using codec_Decode_ReadAll [OF b ra, of byte_libraries "\<lambda>_. ToOther"]
    by (simp add: byte_codec_def decodeWith_def byte_libraries_def byte_library_def codec_types)
  have i: "ID msg1 = 2"
    using ra by (auto simp: message_ReadAll_def conn_message_def split: option.splits prod.splits)
  show ?thesis
    using response_has_request_ID [of ?s 1 4 byte_libraries "\<lambda>_. ToOther" "byte_codec 5" ?m "Plain [7, 8, 9]" msg1 con
        echo_call "\<lambda>_. None" "[7, 8, 9]" msg1 "?s\<lparr>input := con\<rparr>" "byte_codec 6" "[7, 8, 9]" "\<lambda>_. NotASource" bytes_read None] d i
    by (auto simp: sample_peer_def echo_call_def conn_message_def byte_codec_def codec_Encode_def encodeWith_def
        byte_libraries_def byte_library_def codec_types plain_messenger_def fits_def quiet_def shouldAwaitAcknowledge_def)
qed

text \<open>
  the first function registered on an \<^verbatim>\<open>M\<close> stays, whatever is registered after it, until it is removed; after
  the removal the place is free.
\<close>

theorem first_receiver_stays:
  "receiverM (fold (\<lambda>f s. snd (M_OnReceive (Some m) f s)) fs (snd (M_RemoveReceiver (Some m) s))) (addrM m) =
     (case List.find (\<lambda>f. f \<noteq> None) fs of None \<Rightarrow> None | Some f \<Rightarrow> f)"
  by (rule m_slot.first_registration_stays) (simp add: M_RemoveReceiver_def)

text \<open>
  the type ID of acknowledgements is not reserved: a codec can be made for it and a handler registered, but a
  message with it is taken for an acknowledgement and the handler is never called.
\<close>

theorem acknowledge_type_swallowed:
  assumes "isValidCodecType ct" and "receivers s acknowledgeTypeID = None"
    and "pendingResponses (respTable s) mid = None" and "acks_ok (ackTable s)"
  shows "\<exists>c e' a. NewCodecOfType T acknowledgeTypeID ct = Inr c \<and> typeID c = acknowledgeTypeID
    \<and> OnReceive (typeID c) (Some h) s = (None, e') \<and> receivers e' (typeID c) = Some h
    \<and> handleMessage run reads ctx (Some (conn_message mid (typeID c) len)) e'
        = Some (None, Some (conn_message mid (typeID c) len), e'\<lparr>ackTable := a\<rparr>)"
proof -
  let ?m = "conn_message mid acknowledgeTypeID len"
  let ?e = "s\<lparr>receivers := (receivers s)(acknowledgeTypeID \<mapsto> h)\<rparr>"
  obtain a where a: "resolveAck mid (ackTable s) = Some a"
    using resolveAck_ok [OF assms(4), of mid] by auto
  have "resolveResponse reads ?m ?e = Some ((False, None), ?m, ?e)"
    using assms(3) by (intro resolveResponse_none) (simp add: conn_message_def)
  with a have "handleMessage run reads ctx (Some ?m) ?e = Some (None, Some ?m, ?e\<lparr>ackTable := a\<rparr>)"
    by (simp add: handleMessage_def conn_message_def)
  moreover have "OnReceive acknowledgeTypeID (Some h) s = (None, ?e)"
    using assms(2) by (simp add: OnReceive_def acknowledgeTypeID_def)
  moreover have "(acknowledgeTypeID :: u32) \<noteq> 0" by (simp add: acknowledgeTypeID_def)
  ultimately show ?thesis using assms(1) by (auto simp: NewCodecOfType_def)
qed

theorem acknowledge_type_swallowed_witness:
  "\<exists>c e' a. NewCodecOfType 0 acknowledgeTypeID CodecJSON = Inr c
    \<and> OnReceive (typeID c) (Some (HandleM 0 c)) (sample_peer (config plain_messenger)) = (None, e')
    \<and> handleMessage (\<lambda>h ctx msg e. None) (\<lambda>_. None) (\<lambda>_. None) (Some (conn_message 3 (typeID c) 0)) e'
        = Some (None, Some (conn_message 3 (typeID c) 0), e'\<lparr>ackTable := a\<rparr>)"
  using acknowledge_type_swallowed [of CodecJSON "sample_peer (config plain_messenger)" 3 0
      "HandleM 0 \<lparr>codec = CodecJSON, typeID = acknowledgeTypeID, Stream = False, elemT = 0\<rparr>" "\<lambda>h ctx msg e. None" "\<lambda>_. None" "\<lambda>_. None" 0]
  by (auto simp: sample_peer_def isValidCodecType_def no_responses_def acknowledgeTypeID_def NewCodecOfType_def codec_types)

end
