(* ===== verification/Go_Path.thy ===== *)
theory Go_Path
  imports Prelude
begin

text \<open>
  What the code uses of \<^verbatim>\<open>path/filepath\<close> on Unix, and lemmas on paths as lists of components:
  \<^verbatim>\<open>Clean\<close>, \<^verbatim>\<open>Join\<close>, \<^verbatim>\<open>Base\<close>, \<^verbatim>\<open>Dir\<close>, \<^verbatim>\<open>IsAbs\<close>, \<^verbatim>\<open>Abs\<close> and \<^verbatim>\<open>Rel\<close>.
  A string is a list of bytes (characters).
\<close>

section \<open>Definitions\<close>

text \<open>\<^verbatim>\<open>strings.Split(s, "/")\<close> and \<^verbatim>\<open>strings.Join(cs, "/")\<close>.\<close>

fun split_slash :: "string \<Rightarrow> string list" where
  "split_slash [] = [[]]"
| "split_slash (c # cs) =
     (if c = CHR ''/'' then [] # split_slash cs
      else (case split_slash cs of [] \<Rightarrow> [[c]] | x # xs \<Rightarrow> (c # x) # xs))"

fun join_slash :: "string list \<Rightarrow> string" where
  "join_slash [] = []"
| "join_slash [c] = c"
| "join_slash (c # d # cs) = c @ ''/'' @ join_slash (d # cs)"

text \<open>The components of a path that count.\<close>

definition comps :: "string \<Rightarrow> string list" where
  "comps p = filter (\<lambda>c. c \<noteq> '''' \<and> c \<noteq> ''.'') (split_slash p)"

text \<open>One step of the lexical elimination of \<^verbatim>\<open>..\<close>; \<open>acc\<close> is the path so far.\<close>

definition push_comp :: "bool \<Rightarrow> string list \<Rightarrow> string \<Rightarrow> string list" where
  "push_comp rooted acc c =
     (if c = ''..'' then
        (if acc \<noteq> [] \<and> last acc \<noteq> ''..'' then butlast acc
         else if rooted then acc
         else acc @ [''..''])
      else acc @ [c])"

definition IsAbs :: "string \<Rightarrow> bool" where
  "IsAbs p \<longleftrightarrow> p \<noteq> [] \<and> hd p = CHR ''/''"

definition clean_comps :: "string \<Rightarrow> string list" where
  "clean_comps p = foldl (push_comp (IsAbs p)) [] (comps p)"

definition render :: "bool \<Rightarrow> string list \<Rightarrow> string" where
  "render rooted cs = (if rooted then CHR ''/'' # join_slash cs else if cs = [] then ''.'' else join_slash cs)"

definition Clean :: "string \<Rightarrow> string" where
  "Clean p = render (IsAbs p) (clean_comps p)"

definition path_Join :: "string list \<Rightarrow> string" where
  "path_Join es = (let ne = filter (\<lambda>e. e \<noteq> '''') es in if ne = [] then '''' else Clean (join_slash ne))"

text \<open>\<^verbatim>\<open>Abs\<close>; \<open>wd\<close> is the answer of \<^verbatim>\<open>os.Getwd\<close>.\<close>

definition path_Abs :: "string result \<Rightarrow> string \<Rightarrow> string result" where
  "path_Abs wd p =
     (if IsAbs p then Inr (Clean p)
      else (case wd of Inl e \<Rightarrow> Inl e | Inr w \<Rightarrow> Inr (path_Join [w, p])))"

fun drop_common :: "string list \<Rightarrow> string list \<Rightarrow> string list \<times> string list" where
  "drop_common (b # bs) (t # ts) = (if b = t then drop_common bs ts else (b # bs, t # ts))"
| "drop_common bs ts = (bs, ts)"

definition path_Rel :: "string \<Rightarrow> string \<Rightarrow> string result" where
  "path_Rel basepath targpath =
     (let base = Clean basepath; targ = Clean targpath in
      if targ = base then Inr ''.''
      else if IsAbs base \<noteq> IsAbs targ then Inl (Msg ''Rel: can't make targpath relative to basepath'')
      else (case drop_common (comps base) (comps targ) of
              (bs, ts) \<Rightarrow>
                if bs \<noteq> [] \<and> hd bs = ''..'' then Inl (Msg ''Rel: can't make targpath relative to basepath'')
                else Inr (join_slash (replicate (length bs) ''..'' @ ts))))"

definition strip_trailing :: "string \<Rightarrow> string" where
  "strip_trailing p = rev (dropWhile (\<lambda>c. c = CHR ''/'') (rev p))"

definition path_Base :: "string \<Rightarrow> string" where
  "path_Base p =
     (if p = '''' then ''.''
      else if strip_trailing p = '''' then ''/''
      else last (split_slash (strip_trailing p)))"

text \<open>Everything up to and including the last slash, cleaned.\<close>

definition path_Dir :: "string \<Rightarrow> string" where
  "path_Dir p = Clean (rev (dropWhile (\<lambda>c. c \<noteq> CHR ''/'') (rev p)))"

definition HasPrefix :: "string \<Rightarrow> string \<Rightarrow> bool" where
  "HasPrefix s p \<longleftrightarrow> take (length p) s = p"

definition TrimPrefix :: "string \<Rightarrow> string \<Rightarrow> string" where
  "TrimPrefix s p = (if HasPrefix s p then drop (length p) s else s)"

section \<open>Splitting and joining\<close>

text \<open>A proper name, and a normal list of components.\<close>

definition name_ok :: "string \<Rightarrow> bool" where
  "name_ok c \<longleftrightarrow> CHR ''/'' \<notin> set c \<and> c \<noteq> '''' \<and> c \<noteq> ''.''"

definition names :: "string list \<Rightarrow> bool" where
  "names cs \<longleftrightarrow> (\<forall>c \<in> set cs. name_ok c \<and> c \<noteq> ''..'')"

definition normal :: "bool \<Rightarrow> string list \<Rightarrow> bool" where
  "normal rooted cs \<longleftrightarrow> (\<exists>n ns. cs = replicate n ''..'' @ ns \<and> names ns \<and> (rooted \<longrightarrow> n = 0))"

lemma split_slash_neq_Nil [simp]: "split_slash s \<noteq> []"
  by (induction s) (auto split: list.splits)

lemma split_slash_no_slash: "CHR ''/'' \<notin> set c \<Longrightarrow> split_slash c = [c]"
  by (induction c) auto

lemma split_slash_append: "CHR ''/'' \<notin> set c \<Longrightarrow> split_slash (c @ CHR ''/'' # s) = c # split_slash s"
  by (induction c) auto

lemma split_slash_append_any: "split_slash (a @ CHR ''/'' # b) = split_slash a @ split_slash b"
  by (induction a) (auto split: list.splits)

lemma split_slash_join:
  "cs \<noteq> [] \<Longrightarrow> \<forall>c \<in> set cs. CHR ''/'' \<notin> set c \<Longrightarrow> split_slash (join_slash cs) = cs"
  by (induction cs rule: join_slash.induct) (auto simp: split_slash_no_slash split_slash_append)

lemma split_slash_no_slash_in: "c \<in> set (split_slash s) \<Longrightarrow> CHR ''/'' \<notin> set c"
  by (induction s arbitrary: c) (auto split: if_splits list.splits)

lemma comps_ok: "c \<in> set (comps p) \<Longrightarrow> name_ok c"
  by (auto simp: comps_def name_ok_def dest: split_slash_no_slash_in)

lemma comps_append [path_simps]: "comps (a @ CHR ''/'' # b) = comps a @ comps b"
  by (simp add: comps_def split_slash_append_any)

lemma comps_Nil [path_simps]: "comps '''' = []"
  by (simp add: comps_def)

lemma comps_slash [path_simps]: "comps (CHR ''/'' # p) = comps p"
  by (simp add: comps_def)

lemma comps_dot [path_simps]: "comps ''.'' = []"
  by (simp add: comps_def)

lemma comps_join [path_simps]: "\<forall>c \<in> set cs. name_ok c \<Longrightarrow> comps (join_slash cs) = cs"
proof (cases "cs = []")
  case False
  assume ok: "\<forall>c \<in> set cs. name_ok c"
  with False have "split_slash (join_slash cs) = cs" by (intro split_slash_join) (auto simp: name_ok_def)
  with ok show ?thesis by (auto simp: comps_def name_ok_def filter_id_conv)
qed (simp add: path_simps)

lemma name_ok_dotdot [simp]: "name_ok ''..''"
  by (simp add: name_ok_def)

lemma normal_name_ok: "normal rooted cs \<Longrightarrow> c \<in> set cs \<Longrightarrow> name_ok c"
  by (auto simp: normal_def names_def)

lemma normal_rooted: "normal True cs \<longleftrightarrow> names cs"
  by (auto simp: normal_def)

lemma join_slash_hd: "cs \<noteq> [] \<Longrightarrow> hd cs \<noteq> [] \<Longrightarrow> join_slash cs \<noteq> [] \<and> hd (join_slash cs) = hd (hd cs)"
  by (induction cs rule: join_slash.induct) auto

lemma IsAbs_render:
  assumes "\<forall>c \<in> set cs. name_ok c"
  shows "IsAbs (render rooted cs) = rooted"
proof (cases "rooted \<or> cs = []")
  case True
  then show ?thesis by (auto simp: render_def IsAbs_def)
next
  case False
  with assms have ok: "name_ok (hd cs)" by simp
  then have "hd cs \<noteq> []" "hd (hd cs) \<noteq> CHR ''/''"
    by (simp add: name_ok_def, metis hd_in_set name_ok_def)
  with False join_slash_hd [of cs] show ?thesis by (auto simp: render_def IsAbs_def)
qed

lemma comps_render [path_simps]: "\<forall>c \<in> set cs. name_ok c \<Longrightarrow> comps (render rooted cs) = cs"
  by (simp add: render_def path_simps)

section \<open>Clean paths\<close>

lemma push_comp_normal:
  assumes "normal rooted acc" and "name_ok c"
  shows "normal rooted (push_comp rooted acc c)"
proof -
  from assms(1) obtain n ns where acc: "acc = replicate n ''..'' @ ns" and ns: "names ns" and r: "rooted \<longrightarrow> n = 0"
    by (auto simp: normal_def)
  show ?thesis
  proof (cases "c = ''..''")
    case False
    then have "push_comp rooted acc c = replicate n ''..'' @ (ns @ [c])" by (simp add: push_comp_def acc)
    moreover have "names (ns @ [c])" using ns assms(2) False by (auto simp: names_def)
    ultimately show ?thesis using r unfolding normal_def by blast
  next
    case True
    show ?thesis
    proof (cases "ns = []")
      case False
      then have "last ns \<noteq> ''..''" using ns by (auto simp: names_def)
      with True False have "push_comp rooted acc c = replicate n ''..'' @ butlast ns"
        by (simp add: push_comp_def acc butlast_append)
      moreover have "names (butlast ns)" using ns by (auto simp: names_def dest: in_set_butlastD)
      ultimately show ?thesis using r unfolding normal_def by blast
    next
      case ns0: True
      have "last (replicate n ''..'') = ''..''" if "n \<noteq> 0" using that by (cases n) auto
      with True ns0 r have "push_comp rooted acc c = (if rooted then [] else replicate (Suc n) ''..'')"
        by (auto simp: push_comp_def acc replicate_append_same)
      then show ?thesis using r unfolding normal_def names_def
        by (cases rooted) (auto intro: exI [of _ "Suc n"] exI [of _ "[]"])
    qed
  qed
qed

lemma foldl_push_normal:
  "normal rooted acc \<Longrightarrow> \<forall>c \<in> set cs. name_ok c \<Longrightarrow> normal rooted (foldl (push_comp rooted) acc cs)"
  by (induction cs arbitrary: acc) (auto intro: push_comp_normal)

lemma normal_Nil [simp]: "normal rooted []"
  by (auto simp: normal_def names_def)

lemma clean_comps_normal: "normal (IsAbs p) (clean_comps p)"
  unfolding clean_comps_def by (rule foldl_push_normal) (auto dest: comps_ok)

lemma foldl_push_names: "names cs \<Longrightarrow> foldl (push_comp rooted) acc cs = acc @ cs"
  by (induction cs arbitrary: acc) (auto simp: names_def push_comp_def)

lemma foldl_push_dotdots: "foldl (push_comp False) (replicate m ''..'') (replicate n ''..'') = replicate (m + n) ''..''"
proof (induction n arbitrary: m)
  case (Suc n)
  have "last (replicate m ''..'') = ''..''" if "m \<noteq> 0" using that by (cases m) auto
  then have "push_comp False (replicate m ''..'') ''..'' = replicate (Suc m) ''..''"
    by (auto simp: push_comp_def replicate_append_same)
  with Suc.IH [of "Suc m"] show ?case by simp
qed simp

lemma foldl_push_id: "normal rooted cs \<Longrightarrow> foldl (push_comp rooted) [] cs = cs"
proof -
  assume "normal rooted cs"
  then obtain n ns where cs: "cs = replicate n ''..'' @ ns" and ns: "names ns" and r: "rooted \<longrightarrow> n = 0"
    by (auto simp: normal_def)
  have "foldl (push_comp rooted) [] (replicate n ''..'') = replicate n ''..''"
  proof (cases rooted)
    case True
    with r show ?thesis by simp
  next
    case False
    with foldl_push_dotdots [of 0 n] show ?thesis by simp
  qed
  then show ?thesis by (simp add: cs foldl_push_names [OF ns])
qed

lemma Clean_render: "normal rooted cs \<Longrightarrow> Clean (render rooted cs) = render rooted cs"
proof -
  assume n: "normal rooted cs"
  then have "\<forall>c \<in> set cs. name_ok c" by (auto dest: normal_name_ok)
  then have r: "IsAbs (render rooted cs) = rooted" "comps (render rooted cs) = cs"
    using IsAbs_render comps_render by blast+
  show ?thesis unfolding Clean_def clean_comps_def r foldl_push_id [OF n] ..
qed

lemma clean_comps_ok: "\<forall>c \<in> set (clean_comps p). name_ok c"
  using normal_name_ok [OF clean_comps_normal [of p]] by blast

lemma comps_Clean [path_simps]: "comps (Clean p) = clean_comps p"
  unfolding Clean_def by (rule comps_render [OF clean_comps_ok])

lemma IsAbs_Clean [simp]: "IsAbs (Clean p) = IsAbs p"
  unfolding Clean_def by (rule IsAbs_render [OF clean_comps_ok])

lemma Clean_Clean [simp]: "Clean (Clean p) = Clean p"
  unfolding Clean_def [of p] by (rule Clean_render [OF clean_comps_normal])

lemma clean_comps_Clean [path_simps]: "clean_comps (Clean p) = clean_comps p"
  unfolding clean_comps_def [of "Clean p"] comps_Clean IsAbs_Clean by (rule foldl_push_id [OF clean_comps_normal])

lemma Clean_eq_iff: "Clean p = Clean q \<longleftrightarrow> IsAbs p = IsAbs q \<and> clean_comps p = clean_comps q"
proof
  assume "Clean p = Clean q"
  then show "IsAbs p = IsAbs q \<and> clean_comps p = clean_comps q"
    using IsAbs_Clean [of p] IsAbs_Clean [of q] comps_Clean [of p] comps_Clean [of q] by argo
qed (simp add: Clean_def)

lemma names_clean_abs: "IsAbs p \<Longrightarrow> names (clean_comps p)"
  using clean_comps_normal [of p] by (simp add: normal_rooted)

section \<open>Joining and relating paths\<close>

lemma IsAbs_append: "a \<noteq> '''' \<Longrightarrow> IsAbs (a @ b) = IsAbs a"
  by (cases a) (simp_all add: IsAbs_def)

lemma path_Join_two: "a \<noteq> '''' \<Longrightarrow> b \<noteq> '''' \<Longrightarrow> path_Join [a, b] = Clean (a @ CHR ''/'' # b)"
  by (simp add: path_Join_def)

lemma clean_comps_append:
  "a \<noteq> '''' \<Longrightarrow> clean_comps (a @ CHR ''/'' # b) = foldl (push_comp (IsAbs a)) (clean_comps a) (comps b)"
  by (simp add: clean_comps_def comps_append IsAbs_append)

lemma path_Join_names:
  assumes "a \<noteq> ''''" and "b \<noteq> ''''" and "names (comps b)"
  shows "clean_comps (path_Join [a, b]) = clean_comps a @ comps b" and "IsAbs (path_Join [a, b]) = IsAbs a"
  using assms
  by (simp_all add: path_Join_two path_simps clean_comps_append foldl_push_names IsAbs_append)

lemma drop_common_spec:
  "drop_common bs ts = (bs', ts') \<Longrightarrow>
     \<exists>cs. bs = cs @ bs' \<and> ts = cs @ ts' \<and> (bs' = [] \<or> ts' = [] \<or> hd bs' \<noteq> hd ts')"
proof (induction bs ts rule: drop_common.induct)
  case (1 b bs t ts)
  show ?case
  proof (cases "b = t")
    case True
    with 1 obtain cs where "bs = cs @ bs'" "ts = cs @ ts'" "bs' = [] \<or> ts' = [] \<or> hd bs' \<noteq> hd ts'" by auto
    with True show ?thesis by (intro exI [of _ "b # cs"]) simp
  next
    case False
    with 1(2) show ?thesis by auto
  qed
qed auto

text \<open>A relative path begins with \<open>..\<close> exactly if its first component does.\<close>

lemma begins_dotdot:
  assumes "\<forall>c \<in> set cs. name_ok c"
  shows "(join_slash cs = ''..'' \<or> HasPrefix (join_slash cs) ''../'') \<longleftrightarrow> cs \<noteq> [] \<and> hd cs = ''..''"
proof
  assume b: "join_slash cs = ''..'' \<or> HasPrefix (join_slash cs) ''../''"
  have "comps (join_slash cs) = cs" using assms by (rule comps_join)
  moreover have "comps (join_slash cs) \<noteq> [] \<and> hd (comps (join_slash cs)) = ''..''"
  proof (cases "join_slash cs = ''..''")
    case True
    have "comps ''..'' = [''..'']" by (simp add: comps_def)
    with True show ?thesis by simp
  next
    case False
    with b have "take 3 (join_slash cs) = ''../''"
      by (simp add: HasPrefix_def numeral_3_eq_3)
    then have "join_slash cs = ''../'' @ drop 3 (join_slash cs)"
      by (metis append_take_drop_id)
    then have "join_slash cs = ''..'' @ CHR ''/'' # drop 3 (join_slash cs)" by simp
    then have "comps (join_slash cs) = comps ''..'' @ comps (drop 3 (join_slash cs))"
      using comps_append [of "''..''" "drop 3 (join_slash cs)"] by argo
    moreover have "comps ''..'' = [''..'']" by (simp add: comps_def)
    ultimately show ?thesis by simp
  qed
  ultimately show "cs \<noteq> [] \<and> hd cs = ''..''" by argo
next
  assume "cs \<noteq> [] \<and> hd cs = ''..''"
  then obtain ds where "cs = ''..'' # ds" by (cases cs) auto
  then show "join_slash cs = ''..'' \<or> HasPrefix (join_slash cs) ''../''"
    by (cases ds) (simp_all add: HasPrefix_def)
qed

text \<open>
  \<^verbatim>\<open>Rel\<close> between absolute paths tells whether the target lies under the base.
\<close>

lemma Rel_under:
  assumes "IsAbs base" and "IsAbs targ"
  shows "\<exists>r. path_Rel base targ = Inr r
    \<and> ((r = ''..'' \<or> HasPrefix r ''../'') \<longleftrightarrow> \<not> (\<exists>ns. clean_comps targ = clean_comps base @ ns))
    \<and> (\<forall>ns. clean_comps targ = clean_comps base @ ns \<longrightarrow> r = (if ns = [] then ''.'' else join_slash ns))"
proof (cases "Clean targ = Clean base")
  case True
  then have "clean_comps targ = clean_comps base" by (simp add: Clean_eq_iff)
  moreover have "path_Rel base targ = Inr ''.''" using True by (simp add: path_Rel_def)
  moreover have "\<not> HasPrefix ''.'' ''../''" by (simp add: HasPrefix_def)
  ultimately show ?thesis by simp
next
  case False
  let ?b = "clean_comps base" and ?t = "clean_comps targ"
  have ne: "?t \<noteq> ?b" using False assms by (simp add: Clean_eq_iff)
  have nb: "names ?b" "names ?t" using assms names_clean_abs by blast+
  obtain bs ts where d: "drop_common ?b ?t = (bs, ts)" by (cases "drop_common ?b ?t")
  from drop_common_spec [OF d] obtain cs where cs: "?b = cs @ bs" "?t = cs @ ts" "bs = [] \<or> ts = [] \<or> hd bs \<noteq> hd ts"
    by blast
  have nbs: "names bs" "names ts" using nb cs by (auto simp: names_def)
  then have hb: "\<not> (bs \<noteq> [] \<and> hd bs = ''..'')" by (cases bs) (auto simp: names_def)
  let ?L = "replicate (length bs) ''..'' @ ts"
  have r: "path_Rel base targ = Inr (join_slash ?L)"
    unfolding path_Rel_def Let_def Clean_Clean comps_Clean IsAbs_Clean d using False assms hb by auto
  have okL: "\<forall>c \<in> set ?L. name_ok c" using nbs by (auto simp: names_def)
  have under: "(\<exists>ns. ?t = ?b @ ns) \<longleftrightarrow> bs = []"
  proof
    assume "\<exists>ns. ?t = ?b @ ns"
    then obtain ns where "cs @ ts = cs @ bs @ ns" using cs(1,2) by auto
    then have "ts = bs @ ns" by simp
    with cs(3) show "bs = []" by (cases bs) auto
  next
    assume "bs = []"
    with cs show "\<exists>ns. ?t = ?b @ ns" by simp
  qed
  have "(join_slash ?L = ''..'' \<or> HasPrefix (join_slash ?L) ''../'') \<longleftrightarrow> bs \<noteq> []"
  proof -
    have "ts \<noteq> [] \<longrightarrow> hd ts \<noteq> ''..''" using nbs by (cases ts) (auto simp: names_def)
    then have "(?L \<noteq> [] \<and> hd ?L = ''..'') \<longleftrightarrow> bs \<noteq> []" by (cases bs) auto
    with begins_dotdot [OF okL] show ?thesis by argo
  qed
  moreover have "join_slash ?L = (if ns = [] then ''.'' else join_slash ns)" if "?t = ?b @ ns" for ns
  proof -
    have "bs = []" using that under by blast
    with that cs have "ts = ns" by simp
    with \<open>bs = []\<close> that ne show ?thesis by auto
  qed
  ultimately show ?thesis using r under by blast
qed

lemma path_Abs_abs:
  assumes "path_Abs wd p = Inr a" and "p \<noteq> ''''" and "\<And>w. wd = Inr w \<Longrightarrow> IsAbs w"
  shows "IsAbs a" and "Clean a = a"
proof -
  have "IsAbs a \<and> Clean a = a"
  proof (cases "IsAbs p")
    case True
    with assms(1) show ?thesis by (auto simp: path_Abs_def)
  next
    case False
    with assms(1) obtain w where w: "wd = Inr w" "a = path_Join [w, p]"
      by (auto simp: path_Abs_def split: sum.splits)
    with assms(3) have "IsAbs w" by blast
    then have "w \<noteq> ''''" by (auto simp: IsAbs_def)
    with w assms(2) \<open>IsAbs w\<close> show ?thesis by (simp add: path_Join_two IsAbs_append)
  qed
  then show "IsAbs a" "Clean a = a" by blast+
qed

end
