(* ===== verification/Transfer_Paths.thy ===== *)
theory Transfer_Paths
  imports Go_Path
begin

text \<open>
  The two functions of \<^verbatim>\<open>vsock/protocol/common/file_transfer.go\<close> that turn a name from the
  other side into a path under a root directory. \<open>wd\<close> is the answer of \<^verbatim>\<open>os.Getwd\<close>.
\<close>

definition ResolveSenderPathUnderRoot :: "string result \<Rightarrow> string \<Rightarrow> string \<Rightarrow> string \<Rightarrow> string result" where
  "ResolveSenderPathUnderRoot wd rootDir requestedPath fallbackName =
     (if rootDir = '''' then Inl (Msg ''rootDir is required'')
      else
        let path = (if requestedPath = '''' then fallbackName else requestedPath) in
        if path = '''' then Inl (Msg ''requested path is required'')
        else if IsAbs path then Inl (Msg ''absolute paths are not allowed'')
        else
          let clean = Clean path in
          if clean = ''.'' \<or> clean = '''' \<or> clean = ''..'' then Inl (Msg ''invalid relative path'')
          else if HasPrefix clean ''../'' then Inl (Msg ''path traversal is not allowed'')
          else
            (case path_Abs wd rootDir of
               Inl e \<Rightarrow> Inl e
             | Inr rootAbs \<Rightarrow>
                 let dest = path_Join [rootAbs, clean] in
                 (case path_Rel rootAbs dest of
                    Inl e \<Rightarrow> Inl e
                  | Inr rel \<Rightarrow>
                      if rel = ''..'' \<or> HasPrefix rel ''../'' then Inl (Msg ''path traversal is not allowed'')
                      else Inr dest)))"

definition ResolveHostPathByName :: "string result \<Rightarrow> string \<Rightarrow> string \<Rightarrow> string result" where
  "ResolveHostPathByName wd rootDir name =
     (if rootDir = '''' then Inl (Msg ''rootDir is required'')
      else
        let base = path_Base name in
        if base = ''.'' \<or> base = '''' \<or> base = ''/'' then Inl (Msg ''name is required'')
        else
          (case path_Abs wd rootDir of
             Inl e \<Rightarrow> Inl e
           | Inr rootAbs \<Rightarrow> Inr (path_Join [rootAbs, base])))"

section \<open>Relative paths\<close>

lemma Clean_relative:
  assumes "\<not> IsAbs p"
  shows "Clean p = ''.'' \<longleftrightarrow> clean_comps p = []"
    and "clean_comps p \<noteq> [] \<Longrightarrow> Clean p = join_slash (clean_comps p)"
    and "Clean p \<noteq> ''''"
proof -
  show "clean_comps p \<noteq> [] \<Longrightarrow> Clean p = join_slash (clean_comps p)"
    using assms by (simp add: Clean_def render_def)
  show "Clean p = ''.'' \<longleftrightarrow> clean_comps p = []"
  proof
    assume "Clean p = ''.''"
    then have "comps (Clean p) = comps ''.''" by simp
    then show "clean_comps p = []" by (simp add: path_simps)
  next
    assume "clean_comps p = []"
    with assms show "Clean p = ''.''" by (simp add: Clean_def render_def)
  qed
  show "Clean p \<noteq> ''''"
  proof (cases "clean_comps p = []")
    case True
    with assms show ?thesis by (simp add: Clean_def render_def)
  next
    case False
    then have "comps (Clean p) \<noteq> []" by (simp add: path_simps)
    then show ?thesis by (auto simp: comps_Nil)
  qed
qed

lemma normal_names_iff: "normal False cs \<Longrightarrow> names cs \<longleftrightarrow> \<not> (cs \<noteq> [] \<and> hd cs = ''..'')"
proof -
  assume "normal False cs"
  then obtain n ns where cs: "cs = replicate n ''..'' @ ns" and ns: "names ns" by (auto simp: normal_def)
  show ?thesis
  proof (cases n)
    case 0
    with cs ns show ?thesis by (cases ns) (auto simp: names_def)
  next
    case (Suc k)
    with cs show ?thesis by (auto simp: names_def)
  qed
qed

lemma Clean_traverses:
  assumes "\<not> IsAbs p" and "clean_comps p \<noteq> []"
  shows "(Clean p = ''..'' \<or> HasPrefix (Clean p) ''../'') \<longleftrightarrow> \<not> names (clean_comps p)"
proof -
  have "normal False (clean_comps p)" using clean_comps_normal [of p] assms(1) by simp
  with begins_dotdot [OF clean_comps_ok] Clean_relative(2) [OF assms] normal_names_iff assms(2)
  show ?thesis by simp
qed

text \<open>Joining the root with clean names stays under the root, so the second check never fails.\<close>

lemma Join_under_root:
  assumes "IsAbs root" and "b \<noteq> ''''" and "names (comps b)"
  shows "IsAbs (path_Join [root, b])" and "Clean (path_Join [root, b]) = path_Join [root, b]"
    and "clean_comps (path_Join [root, b]) = clean_comps root @ comps b"
    and "comps (path_Join [root, b]) = clean_comps root @ comps b"
proof -
  have ne: "root \<noteq> ''''" using assms(1) by (auto simp: IsAbs_def)
  then have j: "path_Join [root, b] = Clean (root @ CHR ''/'' # b)" using assms(2) by (rule path_Join_two)
  show "IsAbs (path_Join [root, b])" "clean_comps (path_Join [root, b]) = clean_comps root @ comps b"
    using path_Join_names [OF ne assms(2,3)] assms(1) by simp_all
  then show "comps (path_Join [root, b]) = clean_comps root @ comps b"
    unfolding j by (simp add: path_simps)
  show "Clean (path_Join [root, b]) = path_Join [root, b]" unfolding j by simp
qed

lemma Rel_of_Join:
  assumes "IsAbs root" and "b \<noteq> ''''" and "names (comps b)"
  shows "\<exists>r. path_Rel root (path_Join [root, b]) = Inr r \<and> r \<noteq> ''..'' \<and> \<not> HasPrefix r ''../''"
  using Rel_under [OF assms(1) Join_under_root(1) [OF assms]] Join_under_root(3) [OF assms] by blast

section \<open>Properties\<close>

text \<open>
  C14: \<^verbatim>\<open>ResolveSenderPathUnderRoot\<close> accepts exactly the relative paths whose lexical normal form is a
  non-empty list of plain names (so none that climbs out of the root), and then the result is the absolute, clean
  path with these names under the root.
\<close>

theorem sender_path_confined:
  assumes "rootDir \<noteq> ''''" and "path_Abs wd rootDir = Inr rootAbs" and "\<forall>w. wd = Inr w \<longrightarrow> IsAbs w"
    and "path = (if requested = '''' then fallback else requested)"
  shows "if path \<noteq> '''' \<and> \<not> IsAbs path \<and> clean_comps path \<noteq> [] \<and> names (clean_comps path)
    then \<exists>dest. ResolveSenderPathUnderRoot wd rootDir requested fallback = Inr dest
           \<and> IsAbs dest \<and> Clean dest = dest \<and> comps dest = comps rootAbs @ clean_comps path
    else \<exists>e. ResolveSenderPathUnderRoot wd rootDir requested fallback = Inl e"
proof -
  have root: "IsAbs rootAbs" "Clean rootAbs = rootAbs"
    using path_Abs_abs [OF assms(2,1)] assms(3) by blast+
  then have rc: "clean_comps rootAbs = comps rootAbs" using comps_Clean [of rootAbs] by simp
  note step = ResolveSenderPathUnderRoot_def Let_def assms(4) [symmetric]
  show ?thesis
  proof (cases "path \<noteq> '''' \<and> \<not> IsAbs path \<and> clean_comps path \<noteq> []")
    case False
    have "\<exists>e. ResolveSenderPathUnderRoot wd rootDir requested fallback = Inl e"
    proof (cases "path = '''' \<or> IsAbs path")
      case True
      with assms(1) show ?thesis by (auto simp: step)
    next
      case out: False
      with False have "Clean path = ''.''" using Clean_relative(1) [of path] by blast
      with out assms(1) show ?thesis by (simp add: step)
    qed
    with False show ?thesis by auto
  next
    case True
    then have rel: "\<not> IsAbs path" and ne: "clean_comps path \<noteq> []" by auto
    have c: "Clean path \<noteq> ''.''" "Clean path \<noteq> ''''" using Clean_relative [OF rel] ne by blast+
    show ?thesis
    proof (cases "names (clean_comps path)")
      case False
      with Clean_traverses [OF rel ne] have "Clean path = ''..'' \<or> HasPrefix (Clean path) ''../''" by blast
      with True c assms(1) have "\<exists>e. ResolveSenderPathUnderRoot wd rootDir requested fallback = Inl e"
        by (auto simp: step)
      with False show ?thesis by auto
    next
      case ns: True
      with Clean_traverses [OF rel ne] have t: "Clean path \<noteq> ''..''" "\<not> HasPrefix (Clean path) ''../''" by blast+
      have n: "names (comps (Clean path))" using ns by (simp add: path_simps)
      obtain r where r: "path_Rel rootAbs (path_Join [rootAbs, Clean path]) = Inr r" "r \<noteq> ''..''" "\<not> HasPrefix r ''../''"
        using Rel_of_Join [OF root(1) c(2) n] by blast
      have "ResolveSenderPathUnderRoot wd rootDir requested fallback = Inr (path_Join [rootAbs, Clean path])"
        using True c t r assms(1,2) by (simp add: step)
      moreover have "comps (path_Join [rootAbs, Clean path]) = comps rootAbs @ clean_comps path"
        using Join_under_root(4) [OF root(1) c(2) n] by (simp add: rc path_simps)
      ultimately show ?thesis
        using True ns Join_under_root(1,2) [OF root(1) c(2) n] by auto
    qed
  qed
qed

theorem sender_path_confined_witness:
  "(\<exists>dest. ResolveSenderPathUnderRoot (Inr ''/home'') ''in'' ''a/./b/../c'' ''x'' = Inr dest
      \<and> comps dest = [''home'', ''in'', ''a'', ''c''])
   \<and> (\<exists>e. ResolveSenderPathUnderRoot (Inr ''/home'') ''in'' ''a/../../c'' ''x'' = Inl e)"
proof -
  have root: "path_Abs (Inr ''/home'') ''in'' = Inr ''/home/in''"
    by (simp add: path_Abs_def path_Join_def IsAbs_def Clean_def clean_comps_def comps_def push_comp_def render_def)
  have "clean_comps ''a/./b/../c'' = [''a'', ''c'']" "clean_comps ''a/../../c'' = [''..'', ''c'']"
    by (simp_all add: clean_comps_def comps_def push_comp_def IsAbs_def)
  moreover have "\<not> IsAbs ''a/./b/../c''" "comps ''/home/in'' = [''home'', ''in'']" "IsAbs ''/home''"
    by (simp_all add: IsAbs_def comps_def)
  moreover have "names [''a'', ''c'']" "\<not> names [''..'', ''c'']" by (simp_all add: names_def name_ok_def)
  ultimately show ?thesis
    using sender_path_confined [OF _ root, of "''a/./b/../c''" "''a/./b/../c''" "''x''"]
      sender_path_confined [OF _ root, of "''a/../../c''" "''a/../../c''" "''x''"] by auto
qed

lemma path_Base_name:
  assumes "path_Base name \<noteq> ''.''" and "path_Base name \<noteq> ''''" and "path_Base name \<noteq> ''/''"
  shows "comps (path_Base name) = [path_Base name]" and "name_ok (path_Base name)"
proof -
  have "path_Base name = last (split_slash (strip_trailing name))"
    using assms by (auto simp: path_Base_def split: if_splits)
  then have "path_Base name \<in> set (split_slash (strip_trailing name))" by simp
  then have ns: "CHR ''/'' \<notin> set (path_Base name)" by (rule split_slash_no_slash_in)
  with assms show "name_ok (path_Base name)" by (simp add: name_ok_def)
  from split_slash_no_slash [OF ns] assms show "comps (path_Base name) = [path_Base name]"
    by (simp add: comps_def)
qed

text \<open>
  \<^verbatim>\<open>ResolveHostPathByName\<close> answers with the last element of the name directly under the root,
  whatever directories the name has, as long as that element is not \<^verbatim>\<open>..\<close>.
\<close>

theorem host_path_under_root:
  assumes "rootDir \<noteq> ''''" and "path_Abs wd rootDir = Inr rootAbs" and "\<forall>w. wd = Inr w \<longrightarrow> IsAbs w"
    and "path_Base name \<notin> {''.'', '''', ''/'', ''..''}"
  shows "\<exists>dest. ResolveHostPathByName wd rootDir name = Inr dest \<and> IsAbs dest \<and> Clean dest = dest
    \<and> comps dest = comps rootAbs @ [path_Base name]"
proof -
  have root: "IsAbs rootAbs" "Clean rootAbs = rootAbs"
    using path_Abs_abs [OF assms(2,1)] assms(3) by blast+
  then have rc: "clean_comps rootAbs = comps rootAbs" using comps_Clean [of rootAbs] by simp
  have b: "comps (path_Base name) = [path_Base name]" "name_ok (path_Base name)" "path_Base name \<noteq> ''''"
    using path_Base_name [of name] assms(4) by auto
  have n: "names (comps (path_Base name))" using b assms(4) by (simp add: names_def)
  have "ResolveHostPathByName wd rootDir name = Inr (path_Join [rootAbs, path_Base name])"
    using assms(1,2,4) by (simp add: ResolveHostPathByName_def Let_def)
  with Join_under_root [OF root(1) b(3) n] show ?thesis by (auto simp: rc b(1))
qed

theorem host_path_under_root_witness:
  "\<exists>dest. ResolveHostPathByName (Inr ''/home'') ''in'' ''../../etc/passwd'' = Inr dest
     \<and> comps dest = [''home'', ''in'', ''passwd'']"
proof -
  have root: "path_Abs (Inr ''/home'') ''in'' = Inr ''/home/in''"
    by (simp add: path_Abs_def path_Join_def IsAbs_def Clean_def clean_comps_def comps_def push_comp_def render_def)
  have "path_Base ''../../etc/passwd'' = ''passwd''" "IsAbs ''/home''" "comps ''/home/in'' = [''home'', ''in'']"
    by (simp_all add: path_Base_def strip_trailing_def IsAbs_def comps_def)
  with host_path_under_root [OF _ root, of "''../../etc/passwd''"] show ?thesis by auto
qed

text \<open>
  a name that ends in \<^verbatim>\<open>..\<close> is accepted by \<^verbatim>\<open>ResolveHostPathByName\<close> and gives the parent directory
  of the root: the result leaves the root.
\<close>

theorem host_path_escapes:
  assumes "rootDir \<noteq> ''''" and "path_Abs wd rootDir = Inr rootAbs" and "\<forall>w. wd = Inr w \<longrightarrow> IsAbs w"
    and "path_Base name = ''..''" and "comps rootAbs \<noteq> []"
  shows "\<exists>dest. ResolveHostPathByName wd rootDir name = Inr dest \<and> comps dest = butlast (comps rootAbs)"
proof -
  have root: "IsAbs rootAbs" "Clean rootAbs = rootAbs"
    using path_Abs_abs [OF assms(2,1)] assms(3) by blast+
  then have rc: "clean_comps rootAbs = comps rootAbs" using comps_Clean [of rootAbs] by simp
  have ne: "rootAbs \<noteq> ''''" using root by (auto simp: IsAbs_def)
  have "names (comps rootAbs)" using names_clean_abs [OF root(1)] rc by simp
  then have l: "last (comps rootAbs) \<noteq> ''..''" using assms(5) by (auto simp: names_def)
  have dd: "comps ''..'' = [''..'']" by (simp add: comps_def)
  have "ResolveHostPathByName wd rootDir name = Inr (path_Join [rootAbs, ''..''])"
    using assms(1,2,4) by (simp add: ResolveHostPathByName_def Let_def)
  moreover have "comps (path_Join [rootAbs, ''..'']) = butlast (comps rootAbs)"
    using assms(5) l by (simp add: path_Join_two [OF ne] comps_Clean clean_comps_append [OF ne] rc dd push_comp_def)
  ultimately show ?thesis by blast
qed

theorem host_path_escapes_witness:
  "\<exists>dest. ResolveHostPathByName (Inr ''/home'') ''/srv/in'' ''a/..'' = Inr dest \<and> comps dest = [''srv'']"
proof -
  have root: "path_Abs (Inr ''/home'') ''/srv/in'' = Inr ''/srv/in''"
    by (simp add: path_Abs_def IsAbs_def Clean_def clean_comps_def comps_def push_comp_def render_def)
  have "path_Base ''a/..'' = ''..''" "IsAbs ''/home''" "comps ''/srv/in'' = [''srv'', ''in'']"
    by (simp_all add: path_Base_def strip_trailing_def IsAbs_def comps_def)
  with host_path_escapes [OF _ root, of "''a/..''"] show ?thesis by auto
qed

end
