(* ===== verification/Go_OS.thy ===== *)
theory Go_OS
  imports Go_Path Go_IO
begin

text \<open>
  What the code uses of Go's \<^verbatim>\<open>os\<close>, \<^verbatim>\<open>strconv\<close>, \<^verbatim>\<open>encoding/hex\<close> and
  \<^verbatim>\<open>strings.EqualFold\<close>.

  The file system is a directory from resolved paths to inode numbers and a map from inode numbers to
  contents, so that a file stays the same file when it is renamed. Directories themselves and symbolic
  links are not represented. Whether a system call fails is decided by a script: the head of
  \<open>faults\<close> is the answer for the next call, \<open>None\<close> for a call that the kernel carries out; a failing
  write takes as many bytes as the script says.
\<close>

section \<open>Decimal and hexadecimal numbers\<close>

definition digit_char :: "nat \<Rightarrow> char" where
  "digit_char d = char_of (48 + d)"

fun itoa :: "nat \<Rightarrow> string" where
  "itoa n = (if n < 10 then [digit_char n] else itoa (n div 10) @ [digit_char (n mod 10)])"

declare itoa.simps [simp del]

definition itoa_int :: "int \<Rightarrow> string" where
  "itoa_int i = (if i < 0 then CHR ''-'' # itoa (nat (- i)) else itoa (nat i))"

definition hex_digit :: "nat \<Rightarrow> char" where
  "hex_digit d = (if d < 10 then char_of (48 + d) else char_of (87 + d))"

text \<open>\<^verbatim>\<open>hex.EncodeToString\<close>.\<close>

definition hex_EncodeToString :: "byte list \<Rightarrow> string" where
  "hex_EncodeToString bs = concat (map (\<lambda>b. [hex_digit (unat b div 16), hex_digit (unat b mod 16)]) bs)"

text \<open>
  \<^verbatim>\<open>strings.EqualFold\<close> where one of the strings is hexadecimal: no other character of Unicode folds to
  a hexadecimal digit, so that only the ASCII letters matter.
\<close>

definition fold_char :: "char \<Rightarrow> char" where
  "fold_char c = (if 65 \<le> (of_char c :: nat) \<and> (of_char c :: nat) \<le> 90 then char_of ((of_char c :: nat) + 32) else c)"

definition EqualFold :: "string \<Rightarrow> string \<Rightarrow> bool" where
  "EqualFold s t \<longleftrightarrow> map fold_char s = map fold_char t"

lemma EqualFold_refl [simp]: "EqualFold s s"
  by (simp add: EqualFold_def)

lemma length_hex [simp]: "length (hex_EncodeToString bs) = 2 * length bs"
  by (induction bs) (simp_all add: hex_EncodeToString_def)

lemma digit_char_no_slash: "d < 10 \<Longrightarrow> digit_char d \<noteq> CHR ''/''"
proof
  assume "d < 10" "digit_char d = CHR ''/''"
  then have "(of_char (digit_char d) :: nat) = 47" by simp
  with \<open>d < 10\<close> show False by (simp add: digit_char_def)
qed

lemma itoa_no_slash: "CHR ''/'' \<notin> set (itoa n)"
proof (induction n rule: itoa.induct)
  case (1 n)
  then show ?case
    using digit_char_no_slash [of n] digit_char_no_slash [of "n mod 10"]
    by (subst itoa.simps) auto
qed

section \<open>The file system\<close>

record os =
  cwd :: string
  dirent :: "string \<Rightarrow> nat option"
  content :: "nat \<Rightarrow> byte list"
  nextInode :: nat
  special :: "string \<Rightarrow> bool"
  readEnd :: "string \<Rightarrow> error"
  faults :: "(error \<times> nat) option list"
  rolls :: "nat \<Rightarrow> u32"
  rolled :: nat

text \<open>The key of a path: absolute and clean.\<close>

definition os_path :: "os \<Rightarrow> string \<Rightarrow> string" where
  "os_path s p = (if IsAbs p then Clean p else path_Join [cwd s, p])"

text \<open>The contents of the file at a path.\<close>

definition os_file :: "os \<Rightarrow> string \<Rightarrow> byte list option" where
  "os_file s k = map_option (content s) (dirent s k)"

text \<open>The answer of the script to the next system call.\<close>

definition sys :: "os \<Rightarrow> (error \<times> nat) option \<times> os" where
  "sys s = (case faults s of [] \<Rightarrow> (None, s) | f # fs \<Rightarrow> (f, s\<lparr>faults := fs\<rparr>))"

definition os_MkdirAll :: "string \<Rightarrow> os \<Rightarrow> error option \<times> os" where
  "os_MkdirAll p s = (case sys s of (f, s1) \<Rightarrow> (map_option fst f, s1))"

text \<open>\<^verbatim>\<open>os.File\<close>: the name it was opened with, its inode and whether it is open.\<close>

record osfile =
  Name :: string
  inode :: nat
  is_open :: bool

text \<open>\<^verbatim>\<open>OpenFile\<close> with \<^verbatim>\<open>O_RDWR|O_CREATE|O_EXCL\<close>.\<close>

definition os_OpenExcl :: "string \<Rightarrow> os \<Rightarrow> osfile result \<times> os" where
  "os_OpenExcl p s =
     (case sys s of
        (Some f, s1) \<Rightarrow> (Inl (fst f), s1)
      | (None, s1) \<Rightarrow>
          if dirent s1 (os_path s1 p) \<noteq> None then (Inl (LibE ErrFileExists), s1)
          else (Inr \<lparr>Name = p, inode = nextInode s1, is_open = True\<rparr>,
                s1\<lparr>dirent := (dirent s1)(os_path s1 p \<mapsto> nextInode s1),
                   content := (content s1)(nextInode s1 := []), nextInode := Suc (nextInode s1)\<rparr>))"

text \<open>
  \<^verbatim>\<open>os.CreateTemp(dir, pattern)\<close> for a pattern that ends in its only relevant \<^verbatim>\<open>*\<close>: \<open>prefix\<close> is
  the pattern without it. It tries up to 10000 random names.
\<close>

fun create_temp_try :: "nat \<Rightarrow> string \<Rightarrow> os \<Rightarrow> osfile result \<times> os" where
  "create_temp_try 0 pre s = (Inl (LibE ErrFileExists), s)"
| "create_temp_try (Suc k) pre s =
     (case os_OpenExcl (pre @ itoa (unat (rolls s (rolled s)))) (s\<lparr>rolled := Suc (rolled s)\<rparr>) of
        (Inl e, s1) \<Rightarrow> if e = LibE ErrFileExists then create_temp_try k pre s1 else (Inl e, s1)
      | (Inr f, s1) \<Rightarrow> (Inr f, s1))"

definition os_CreateTemp :: "string \<Rightarrow> string \<Rightarrow> os \<Rightarrow> osfile result \<times> os" where
  "os_CreateTemp dir prefix s =
     (if CHR ''/'' \<in> set prefix then (Inl (Msg ''pattern contains path separator''), s)
      else create_temp_try 10000
             ((if dir \<noteq> [] \<and> last dir = CHR ''/'' then dir else dir @ ''/'') @ prefix) s)"

text \<open>\<^verbatim>\<open>File.Write\<close> at the end of the file; the bytes it took.\<close>

definition file_Write :: "osfile \<Rightarrow> byte list \<Rightarrow> os \<Rightarrow> nat \<times> error option \<times> os" where
  "file_Write f bs s =
     (if \<not> is_open f then (0, Some (LibE ErrFileClosed), s)
      else (case sys s of
              (None, s1) \<Rightarrow> (length bs, None, s1\<lparr>content := (content s1)(inode f := content s1 (inode f) @ bs)\<rparr>)
            | (Some (e, n), s1) \<Rightarrow>
                (min n (length bs), Some e,
                 s1\<lparr>content := (content s1)(inode f := content s1 (inode f) @ take n bs)\<rparr>)))"

definition file_Close :: "osfile \<Rightarrow> os \<Rightarrow> error option \<times> osfile \<times> os" where
  "file_Close f s =
     (if \<not> is_open f then (Some (LibE ErrFileClosed), f, s)
      else (case sys s of (r, s1) \<Rightarrow> (map_option fst r, f\<lparr>is_open := False\<rparr>, s1)))"

definition os_Remove :: "string \<Rightarrow> os \<Rightarrow> error option \<times> os" where
  "os_Remove p s =
     (case sys s of
        (Some f, s1) \<Rightarrow> (Some (fst f), s1)
      | (None, s1) \<Rightarrow>
          if dirent s1 (os_path s1 p) = None then (Some (LibE ErrNotExist), s1)
          else (None, s1\<lparr>dirent := (dirent s1)(os_path s1 p := None)\<rparr>))"

definition os_Rename :: "string \<Rightarrow> string \<Rightarrow> os \<Rightarrow> error option \<times> os" where
  "os_Rename old new s =
     (case sys s of
        (Some f, s1) \<Rightarrow> (Some (fst f), s1)
      | (None, s1) \<Rightarrow>
          (case dirent s1 (os_path s1 old) of
             None \<Rightarrow> (Some (LibE ErrNotExist), s1)
           | Some i \<Rightarrow>
               if os_path s1 old = os_path s1 new then (None, s1)
               else (None, s1\<lparr>dirent := (dirent s1)(os_path s1 old := None, os_path s1 new \<mapsto> i)\<rparr>)))"

text \<open>\<^verbatim>\<open>os.Stat\<close>: whether the file is regular, and its size.\<close>

definition os_Stat :: "string \<Rightarrow> os \<Rightarrow> (bool \<times> int) result \<times> os" where
  "os_Stat p s =
     (case sys s of
        (Some f, s1) \<Rightarrow> (Inl (fst f), s1)
      | (None, s1) \<Rightarrow>
          (case dirent s1 (os_path s1 p) of
             None \<Rightarrow> (if special s1 (os_path s1 p) then Inr (False, 0) else Inl (LibE ErrNotExist), s1)
           | Some i \<Rightarrow> (Inr (\<not> special s1 (os_path s1 p), int (length (content s1 i))), s1)))"

text \<open>\<^verbatim>\<open>os.Open\<close>: a reader of the contents; \<open>readEnd\<close> is what comes after them, EOF for a healthy disk.\<close>

definition os_Open :: "string \<Rightarrow> os \<Rightarrow> conn result \<times> os" where
  "os_Open p s =
     (case sys s of
        (Some f, s1) \<Rightarrow> (Inl (fst f), s1)
      | (None, s1) \<Rightarrow>
          (case dirent s1 (os_path s1 p) of
             None \<Rightarrow> (Inl (LibE ErrNotExist), s1)
           | Some i \<Rightarrow>
               (Inr (if content s1 i = [] then [] else [content s1 i], readEnd s1 (os_path s1 p)), s1)))"

section \<open>What the calls change\<close>

named_theorems os_simps \<open>what the calls do when the script lets them through\<close>

lemma sys_fields [simp]:
  "sys s = (f, s') \<Longrightarrow> cwd s' = cwd s" "sys s = (f, s') \<Longrightarrow> dirent s' = dirent s"
  "sys s = (f, s') \<Longrightarrow> content s' = content s" "sys s = (f, s') \<Longrightarrow> nextInode s' = nextInode s"
  by (auto simp: sys_def split: list.splits)

lemma sys_healthy [os_simps]: "faults s = [] \<Longrightarrow> sys s = (None, s)"
  by (simp add: sys_def)

text \<open>Inodes that are in the directory have been handed out, and no two paths share one.\<close>

definition os_ok :: "os \<Rightarrow> bool" where
  "os_ok s \<longleftrightarrow> IsAbs (cwd s) \<and> (\<forall>k i. dirent s k = Some i \<longrightarrow> i < nextInode s)
     \<and> (\<forall>k l i. dirent s k = Some i \<longrightarrow> dirent s l = Some i \<longrightarrow> k = l)"

lemma os_path_cwd: "cwd s' = cwd s \<Longrightarrow> os_path s' = os_path s"
  by (auto simp: os_path_def)

text \<open>The files that a call leaves alone: same directory entry and same contents.\<close>

definition same_file :: "os \<Rightarrow> os \<Rightarrow> string \<Rightarrow> bool" where
  "same_file s s' k \<longleftrightarrow> dirent s' k = dirent s k \<and> (\<forall>i. dirent s k = Some i \<longrightarrow> content s' i = content s i)"

lemma same_file_refl [simp]: "same_file s s k"
  by (simp add: same_file_def)

lemma same_file_trans: "same_file s s1 k \<Longrightarrow> same_file s1 s2 k \<Longrightarrow> same_file s s2 k"
  by (auto simp: same_file_def)

lemma same_file_os_file: "same_file s s' k \<Longrightarrow> os_file s' k = os_file s k"
  by (cases "dirent s k") (auto simp: same_file_def os_file_def)

lemma MkdirAll_facts:
  assumes "os_MkdirAll p s = (e, s')"
  shows "cwd s' = cwd s" "dirent s' = dirent s" "content s' = content s" "nextInode s' = nextInode s"
  using assms by (auto simp: os_MkdirAll_def split: prod.splits)

lemma OpenExcl_ok:
  assumes "os_OpenExcl p s = (Inr f, s')" and "os_ok s"
  shows "Name f = p" "is_open f" "dirent s (os_path s p) = None" "inode f = nextInode s"
    "dirent s' = (dirent s)(os_path s p \<mapsto> inode f)" "content s' = (content s)(inode f := [])"
    "nextInode s' = Suc (nextInode s)" "cwd s' = cwd s"
  using assms by (auto simp: os_OpenExcl_def os_path_def split: prod.splits option.splits if_splits)

lemma OpenExcl_error:
  assumes "os_OpenExcl p s = (Inl e, s')"
  shows "cwd s' = cwd s" "dirent s' = dirent s" "content s' = content s" "nextInode s' = nextInode s"
  using assms by (auto simp: os_OpenExcl_def split: prod.splits option.splits if_splits)

lemma os_ok_fields: "cwd s' = cwd s \<Longrightarrow> dirent s' = dirent s \<Longrightarrow> nextInode s' = nextInode s \<Longrightarrow> os_ok s' = os_ok s"
  by (simp add: os_ok_def)

lemma create_temp_try_ok:
  "create_temp_try k pre s = (Inr f, s') \<Longrightarrow> os_ok s \<Longrightarrow>
     (\<exists>n. Name f = pre @ itoa n) \<and> is_open f \<and> dirent s (os_path s (Name f)) = None \<and> inode f = nextInode s
   \<and> dirent s' = (dirent s)(os_path s (Name f) \<mapsto> inode f) \<and> content s' = (content s)(inode f := [])
   \<and> nextInode s' = Suc (nextInode s) \<and> cwd s' = cwd s"
proof (induction k arbitrary: s)
  case 0
  then show ?case by simp
next
  case (Suc k)
  let ?s = "s\<lparr>rolled := Suc (rolled s)\<rparr>" and ?p = "pre @ itoa (unat (rolls s (rolled s)))"
  have ok: "os_ok ?s" using Suc.prems(2) by (simp add: os_ok_def)
  have path: "os_path ?s = os_path s" by (rule os_path_cwd) simp
  obtain r s1 where o: "os_OpenExcl ?p ?s = (r, s1)" by (cases "os_OpenExcl ?p ?s")
  show ?case
  proof (cases r)
    case (Inl e)
    note f = OpenExcl_error [OF o [unfolded Inl]]
    have t: "create_temp_try k pre s1 = (Inr f, s')" using Suc.prems(1) o Inl by (auto split: if_splits)
    have ok1: "os_ok s1" using ok f by (simp add: os_ok_def)
    have path1: "os_path s1 = os_path s" by (rule os_path_cwd) (simp add: f)
    have "dirent s1 = dirent s" "content s1 = content s" "nextInode s1 = nextInode s" "cwd s1 = cwd s"
      using f by simp_all
    from Suc.IH [OF t ok1, unfolded path1 this] show ?thesis .
  next
    case (Inr g)
    note f = OpenExcl_ok [OF o [unfolded Inr] ok]
    have eq: "g = f" "s1 = s'" using Suc.prems(1) o Inr by auto
    note f = f [unfolded eq path]
    have "\<exists>n. Name f = pre @ itoa n" using f(1) by blast
    moreover have "dirent s (os_path s (Name f)) = None" using f(1,3) by simp
    moreover have "dirent s' = (dirent s)(os_path s (Name f) \<mapsto> inode f)" using f(1,5) by simp
    ultimately show ?thesis using f(2,4,6-8) by simp
  qed
qed

lemma create_temp_try_error:
  "create_temp_try k pre s = (Inl e, s') \<Longrightarrow>
     cwd s' = cwd s \<and> dirent s' = dirent s \<and> content s' = content s \<and> nextInode s' = nextInode s"
proof (induction k arbitrary: s)
  case 0
  then show ?case by simp
next
  case (Suc k)
  let ?s = "s\<lparr>rolled := Suc (rolled s)\<rparr>" and ?p = "pre @ itoa (unat (rolls s (rolled s)))"
  obtain r s1 where o: "os_OpenExcl ?p ?s = (r, s1)" by (cases "os_OpenExcl ?p ?s")
  show ?case
  proof (cases r)
    case (Inl x)
    note f = OpenExcl_error [OF o [unfolded Inl]]
    show ?thesis
    proof (cases "x = LibE ErrFileExists")
      case True
      with Suc.prems o Inl have "create_temp_try k pre s1 = (Inl e, s')" by simp
      from Suc.IH [OF this] f show ?thesis by simp
    next
      case False
      with Suc.prems o Inl f show ?thesis by auto
    qed
  next
    case (Inr g)
    with Suc.prems o show ?thesis by simp
  qed
qed

text \<open>A temporary file is new, and its name in its directory begins with the prefix.\<close>

lemma CreateTemp_ok:
  assumes "os_CreateTemp dir prefix s = (Inr f, s')" and "os_ok s"
  shows "CHR ''/'' \<notin> set prefix" "\<exists>n. Name f = (if dir \<noteq> [] \<and> last dir = CHR ''/'' then dir else dir @ ''/'') @ prefix @ itoa n"
    "is_open f" "dirent s (os_path s (Name f)) = None" "inode f = nextInode s"
    "dirent s' = (dirent s)(os_path s (Name f) \<mapsto> inode f)" "content s' = (content s)(inode f := [])"
    "nextInode s' = Suc (nextInode s)" "cwd s' = cwd s"
proof -
  from assms(1) show "CHR ''/'' \<notin> set prefix" by (auto simp: os_CreateTemp_def)
  with assms(1) have "create_temp_try 10000 ((if dir \<noteq> [] \<and> last dir = CHR ''/'' then dir else dir @ ''/'') @ prefix) s = (Inr f, s')"
    by (simp add: os_CreateTemp_def)
  from create_temp_try_ok [OF this assms(2)]
  show "\<exists>n. Name f = (if dir \<noteq> [] \<and> last dir = CHR ''/'' then dir else dir @ ''/'') @ prefix @ itoa n"
    "is_open f" "dirent s (os_path s (Name f)) = None" "inode f = nextInode s"
    "dirent s' = (dirent s)(os_path s (Name f) \<mapsto> inode f)" "content s' = (content s)(inode f := [])"
    "nextInode s' = Suc (nextInode s)" "cwd s' = cwd s"
    by (simp_all only: append_assoc simp_thms)
qed

lemma CreateTemp_error:
  assumes "os_CreateTemp dir prefix s = (Inl e, s')"
  shows "cwd s' = cwd s" "dirent s' = dirent s" "content s' = content s" "nextInode s' = nextInode s"
  using assms create_temp_try_error [of 10000 "(if dir \<noteq> [] \<and> last dir = CHR ''/'' then dir else dir @ ''/'') @ prefix" s e s']
  by (auto simp: os_CreateTemp_def simp del: create_temp_try.simps split: if_splits)

lemma create_temp_healthy:
  "faults s = [] \<Longrightarrow> dirent s (os_path s (pre @ itoa (unat (rolls s (rolled s))))) = None \<Longrightarrow>
   \<exists>f s'. create_temp_try (Suc k) pre s = (Inr f, s') \<and> faults s' = []"
  by (cases "IsAbs (pre @ itoa (unat (rolls s (rolled s))))") (simp_all add: os_OpenExcl_def sys_def os_path_def)

lemma file_Write_facts:
  assumes "file_Write f bs s = (n, e, s')"
  shows "cwd s' = cwd s" "dirent s' = dirent s" "nextInode s' = nextInode s"
    "i \<noteq> inode f \<Longrightarrow> content s' i = content s i"
    "e = None \<Longrightarrow> is_open f \<and> n = length bs \<and> content s' (inode f) = content s (inode f) @ bs"
    "\<not> is_open f \<Longrightarrow> content s' = content s"
  using assms by (auto simp: file_Write_def split: prod.splits option.splits if_splits)

lemma file_Close_facts:
  assumes "file_Close f s = (e, f', s')"
  shows "cwd s' = cwd s" "dirent s' = dirent s" "nextInode s' = nextInode s" "content s' = content s"
    "f' = f\<lparr>is_open := False\<rparr>" "e = None \<Longrightarrow> is_open f"
  using assms by (auto simp: file_Close_def split: prod.splits if_splits)

lemma os_Remove_facts:
  assumes "os_Remove p s = (e, s')"
  shows "cwd s' = cwd s" "content s' = content s" "nextInode s' = nextInode s"
    "dirent s' = dirent s \<or> dirent s' = (dirent s)(os_path s p := None)"
    "e = None \<Longrightarrow> dirent s' = (dirent s)(os_path s p := None)"
  using assms by (auto simp: os_Remove_def os_path_def split: prod.splits option.splits if_splits)

lemma os_Rename_ok:
  assumes "os_Rename old new s = (None, s')"
  shows "cwd s' = cwd s" "content s' = content s" "nextInode s' = nextInode s"
    "\<exists>i. dirent s (os_path s old) = Some i \<and>
       dirent s' = (if os_path s old = os_path s new then dirent s
                    else (dirent s)(os_path s old := None, os_path s new \<mapsto> i))"
  using assms by (auto simp: os_Rename_def os_path_def split: prod.splits option.splits if_splits)

lemma os_Rename_error:
  assumes "os_Rename old new s = (Some e, s')"
  shows "cwd s' = cwd s" "content s' = content s" "nextInode s' = nextInode s" "dirent s' = dirent s"
  using assms by (auto simp: os_Rename_def split: prod.splits option.splits if_splits)


end
