(* ===== verification/Go_Hash.thy ===== *)
theory Go_Hash
  imports Go_IO
begin

text \<open>
  \<^verbatim>\<open>crypto/sha256\<close>: the hash function of FIPS 180-4 on byte strings. What the development needs of it is that it
  is a function with a result of 32 bytes; it is written out so that it can be evaluated.
\<close>

section \<open>Constants\<close>

text \<open>
  The constants are the first 32 bits of the fractional parts of the cube roots of the first 64 primes, and of the square roots
  of the first 8 primes: the lower 32 bits of the integer root of \<open>p * 2 ^ (32 * r)\<close>.
\<close>

definition prime_list :: "nat list" where
  "prime_list = filter (\<lambda>p. \<forall>d \<in> set [2 ..< p]. p mod d \<noteq> 0) [2 ..< 312]"

text \<open>The largest number below \<open>acc + 2 ^ k\<close> whose power \<open>r\<close> is at most \<open>n\<close>.\<close>

fun root_below :: "nat \<Rightarrow> nat \<Rightarrow> nat \<Rightarrow> nat \<Rightarrow> nat" where
  "root_below r n 0 acc = acc"
| "root_below r n (Suc k) acc = root_below r n k (if (acc + 2 ^ k) ^ r \<le> n then acc + 2 ^ k else acc)"

definition root_fraction :: "nat \<Rightarrow> nat \<Rightarrow> u32" where
  "root_fraction r p = of_nat (root_below r (p * 2 ^ (32 * r)) 38 0)"

definition sha256_K :: "u32 list" where
  "sha256_K = map (root_fraction 3) prime_list"

definition sha256_H :: "u32 list" where
  "sha256_H = map (root_fraction 2) [2, 3, 5, 7, 11, 13, 17, 19]"

section \<open>Blocks\<close>

text \<open>The padded message: a one bit, zeros, and the length in bits.\<close>

definition sha256_pad :: "byte list \<Rightarrow> byte list" where
  "sha256_pad m =
     m @ 0x80 # replicate (nat ((55 - int (length m)) mod 64)) 0 @ PutUint64 (of_nat (8 * length m))"

text \<open>The pieces of \<open>n\<close> elements; what is left over at the end is dropped.\<close>

definition pieces :: "nat \<Rightarrow> 'a list \<Rightarrow> 'a list list" where
  "pieces n xs = map (\<lambda>i. take n (drop (i * n) xs)) [0 ..< length xs div n]"

text \<open>The message schedule: \<open>k\<close> more words after those in \<open>w\<close>, which are kept in reverse order.\<close>

fun schedule :: "nat \<Rightarrow> u32 list \<Rightarrow> u32 list" where
  "schedule 0 w = w"
| "schedule (Suc k) w =
     (let w15 = w ! 14; w2 = w ! 1;
          s0 = word_rotr 7 w15 XOR word_rotr 18 w15 XOR drop_bit 3 w15;
          s1 = word_rotr 17 w2 XOR word_rotr 19 w2 XOR drop_bit 10 w2
      in schedule k ((w ! 15 + s0 + w ! 6 + s1) # w))"

definition sha256_words :: "byte list \<Rightarrow> u32 list" where
  "sha256_words block = rev (schedule 48 (rev (map Uint32 (pieces 4 block))))"

fun sha256_round :: "u32 list \<Rightarrow> u32 \<times> u32 \<Rightarrow> u32 list" where
  "sha256_round [a, b, c, d, e, f, g, h] (k, w) =
     (let s1 = word_rotr 6 e XOR word_rotr 11 e XOR word_rotr 25 e;
          ch = (e AND f) XOR (NOT e AND g);
          t1 = h + s1 + ch + k + w;
          s0 = word_rotr 2 a XOR word_rotr 13 a XOR word_rotr 22 a;
          maj = (a AND b) XOR (a AND c) XOR (b AND c);
          t2 = s0 + maj
      in [t1 + t2, a, b, c, d + t1, e, f, g])"
| "sha256_round hs kw = hs"

definition sha256_block :: "u32 list \<Rightarrow> byte list \<Rightarrow> u32 list" where
  "sha256_block hs block = map2 (+) hs (foldl sha256_round hs (zip sha256_K (sha256_words block)))"

definition sha256_Sum :: "byte list \<Rightarrow> byte list" where
  "sha256_Sum m = concat (map PutUint32 (foldl sha256_block sha256_H (pieces 64 (sha256_pad m))))"

section \<open>Facts\<close>

lemma length_sha256_pad: "length (sha256_pad m) mod 64 = 0"
proof -
  have "int (length (sha256_pad m)) = int (length m) + 9 + (55 - int (length m)) mod 64"
    by (simp add: sha256_pad_def)
  also have "\<dots> mod 64 = (int (length m) + 9 + (55 - int (length m))) mod 64" by (rule mod_add_right_eq)
  also have "\<dots> = 0" by simp
  finally have "int (length (sha256_pad m) mod 64) = 0" by (simp only: of_nat_mod of_nat_numeral)
  then show ?thesis by simp
qed

lemma length_sha256_round [simp]: "length (sha256_round hs kw) = length hs"
  by (cases "(hs, kw)" rule: sha256_round.cases) (auto simp: Let_def)

lemma length_foldl_round [simp]: "length (foldl sha256_round hs kws) = length hs"
  by (induction kws arbitrary: hs) simp_all

lemma length_sha256_block [simp]: "length (sha256_block hs b) = length hs"
  by (simp add: sha256_block_def)

lemma length_sha256_blocks [simp]: "length (foldl sha256_block hs bs) = length hs"
  by (induction bs arbitrary: hs) simp_all

lemma length_sha256 [simp]: "length (sha256_Sum m) = 32"
  by (simp add: sha256_Sum_def sha256_H_def length_concat comp_def sum_list_triv)

end
