(* ===== verification/File_Transfer.thy ===== *)
theory File_Transfer
  imports Protocol Transfer_Paths Go_OS Go_Hash
begin

text \<open>
  \<^verbatim>\<open>vsock/protocol/common/file_transfer.go\<close>: a file is offered with a typed request, its bytes follow as a
  stream message, and a second request commits it. The receiver collects the bytes in a temporary file beside the
  destination and renames it when size and checksum are right.

  The function that the user registers with \<^verbatim>\<open>OnReceive\<close> is a parameter \<open>plan\<close>: it maps a request to
  a destination or an error. What it does to the file system is not represented.
\<close>

section \<open>Data\<close>

definition TypeFileTransferOpen :: u32 where "TypeFileTransferOpen = 0xFFFF0001"
definition TypeFileTransferBody :: u32 where "TypeFileTransferBody = 0xFFFF0002"
definition TypeFileTransferCommit :: u32 where "TypeFileTransferCommit = 0xFFFF0003"

lemmas transfer_types = TypeFileTransferOpen_def TypeFileTransferBody_def TypeFileTransferCommit_def

text \<open>Sizes are \<^verbatim>\<open>int64\<close>; those of files and messages are far from its limits.\<close>

record FileTransferRequest =
  reqTransferID :: string
  reqName :: string
  reqDestination :: string
  reqSize :: int
  reqSHA256 :: string

record FileTransferResponse =
  respTransferID :: string
  Accepted :: bool
  respError :: string

record FileTransferCommit =
  commitTransferID :: string

record FileTransferResult =
  resTransferID :: string
  OK :: bool
  resSize :: int
  resSHA256 :: string
  resError :: string

record FileTransferPlan =
  DestinationPath :: string

record fileTransferBody =
  bodyTransferID :: string
  bodyReader :: "conn option"
  bodyLength :: u32

text \<open>The values that travel, as the codecs see them, and the types of the codecs.\<close>

datatype transfer_value =
    VRequest FileTransferRequest
  | VResponse FileTransferResponse
  | VCommit FileTransferCommit
  | VResult FileTransferResult
  | VBody fileTransferBody

definition request_type :: tid where "request_type = 1"
definition response_type :: tid where "response_type = 2"
definition body_type :: tid where "body_type = 3"
definition commit_type :: tid where "commit_type = 4"
definition result_type :: tid where "result_type = 5"

text \<open>\<^verbatim>\<open>Reader\<close> and \<^verbatim>\<open>Length\<close> of a \<^verbatim>\<open>fileTransferBody\<close> can be set by the stream codec.\<close>

definition transfer_shape :: "tid \<Rightarrow> stream_target" where
  "transfer_shape T = (if T = body_type then ToStruct True (Some LenUint32) else ToOther)"

section \<open>The header of the body\<close>

definition encodeTransferBodyHeader :: "string \<Rightarrow> byte list result" where
  "encodeTransferBodyHeader tid =
     (if tid = '''' then Inl (Msg ''transfer_id is required'')
      else if length tid > 65535 then Inl (Msg ''transfer_id too large'')
      else Inr (PutUint16 (of_nat (length tid)) @ bytes_of tid))"

definition decodeTransferBodyHeader :: "('s \<Rightarrow> nat \<Rightarrow> 's rres) \<Rightarrow> 's \<Rightarrow> (string result \<times> 's) option" where
  "decodeTransferBodyHeader rd r =
     (case io_ReadFull rd 2 r of
        None \<Rightarrow> None
      | Some (lengthBuf, Some e, r1) \<Rightarrow> Some (Inl e, r1)
      | Some (lengthBuf, None, r1) \<Rightarrow>
          (let n = Uint16 lengthBuf in
           if n = 0 then Some (Inl (Msg ''transfer_id is required''), r1)
           else (case io_ReadFull rd (unat n) r1 of
                   None \<Rightarrow> None
                 | Some (idBuf, Some e, r2) \<Rightarrow> Some (Inl e, r2)
                 | Some (idBuf, None, r2) \<Rightarrow> Some (Inr (string_of idBuf), r2))))"

text \<open>The readers of outgoing bodies are sequences of readers of bytes or files.\<close>

definition fileTransferBody_StreamSource :: "fileTransferBody \<Rightarrow> (conn list option \<times> u32) result" where
  "fileTransferBody_StreamSource p =
     (case bodyReader p of
        None \<Rightarrow> Inl (Msg ''reader is required'')
      | Some r \<Rightarrow>
          (case encodeTransferBodyHeader (bodyTransferID p) of
             Inl e \<Rightarrow> Inl e
           | Inr header \<Rightarrow>
               (let total = int (length header) + int (unat (bodyLength p)) in
                if total > 2 ^ 32 - 1 then Inl (Msg ''stream body too large'')
                else Inr (Some [([header], LibE EOF), r], of_int total))))"

definition transfer_dyn :: "transfer_value \<Rightarrow> conn list dynamic_payload" where
  "transfer_dyn v = (case v of VBody b \<Rightarrow> ASource (fileTransferBody_StreamSource b) | _ \<Rightarrow> NotASource)"

section \<open>State\<close>

record incomingFileTransfer =
  finalPath :: string
  tempPath :: string
  tempFile :: osfile
  hashed :: "byte list"
  expected :: FileTransferRequest
  bodyWritten :: bool
  bytesWritten :: int

text \<open>The functions that this package registers, and the object that \<^verbatim>\<open>NewFileTransfer\<close> returns.\<close>

datatype transfer_fun = HandleOpen | HandleBody | HandleCommit

record FileTransfer =
  openR :: robj
  bodyM :: mobj
  commitR :: robj

record 'p transfer_peer = "transfer_fun peer" +
  incoming :: "string \<Rightarrow> incomingFileTransfer option"
  onReceive :: "'p option"
  disk :: os

section \<open>Receiving\<close>

definition handleOpen ::
  "('p \<Rightarrow> ctx \<Rightarrow> FileTransferRequest \<Rightarrow> FileTransferPlan result) \<Rightarrow> ctx \<Rightarrow> FileTransferRequest
     \<Rightarrow> ('p, 'm) transfer_peer_scheme \<Rightarrow> FileTransferResponse \<times> ('p, 'm) transfer_peer_scheme" where
  "handleOpen plan ctx req s =
     (let resp = \<lparr>respTransferID = reqTransferID req, Accepted = False, respError = ''''\<rparr> in
      if reqTransferID req = '''' then (resp\<lparr>respError := ''transfer_id is required''\<rparr>, s)
      else if reqSize req < 0 then (resp\<lparr>respError := ''size must be >= 0''\<rparr>, s)
      else if incoming s (reqTransferID req) \<noteq> None then (resp\<lparr>respError := ''transfer already exists''\<rparr>, s)
      else (case onReceive s of
         None \<Rightarrow> (resp\<lparr>respError := ''no file receiver configured''\<rparr>, s)
       | Some handler \<Rightarrow>
           (case plan handler ctx req of
              Inl e \<Rightarrow> (resp\<lparr>respError := error_text e\<rparr>, s)
            | Inr p \<Rightarrow>
                if DestinationPath p = '''' then (resp\<lparr>respError := ''destination path is required''\<rparr>, s)
                else (case os_MkdirAll (path_Dir (DestinationPath p)) (disk s) of
                   (Some e, d) \<Rightarrow> (resp\<lparr>respError := error_text e\<rparr>, s\<lparr>disk := d\<rparr>)
                 | (None, d) \<Rightarrow>
                     (case os_CreateTemp (path_Dir (DestinationPath p)) (''.'' @ path_Base (DestinationPath p) @ ''.part-'') d of
                        (Inl e, d1) \<Rightarrow> (resp\<lparr>respError := error_text e\<rparr>, s\<lparr>disk := d1\<rparr>)
                      | (Inr tmp, d1) \<Rightarrow>
                          (resp\<lparr>Accepted := True\<rparr>,
                           s\<lparr>disk := d1,
                             incoming := (incoming s)(reqTransferID req \<mapsto>
                               \<lparr>finalPath = DestinationPath p, tempPath = Name tmp, tempFile = tmp, hashed = [],
                                expected = req, bodyWritten = False, bytesWritten = 0\<rparr>)\<rparr>))))))"

text \<open>\<^verbatim>\<open>io.MultiWriter(incoming.file, incoming.hash)\<close>: the file first; the hash takes everything.\<close>

definition body_write :: "osfile \<Rightarrow> os \<times> byte list \<Rightarrow> byte list \<Rightarrow> error option \<times> os \<times> byte list" where
  "body_write f w bs =
     (case file_Write f bs (fst w) of
        (n, Some e, d) \<Rightarrow> (Some e, d, snd w)
      | (n, None, d) \<Rightarrow>
          if n \<noteq> length bs then (Some (LibE ErrShortWrite), d, snd w)
          else (None, d, snd w @ bs))"

definition handleBody :: "ctx \<Rightarrow> message \<Rightarrow> ('p, 'm) transfer_peer_scheme
    \<Rightarrow> (error option \<times> message \<times> ('p, 'm) transfer_peer_scheme) option" where
  "handleBody ctx msg s =
     (case message_Reader (Some msg) of
        None \<Rightarrow> Some (Some (VsockE ErrNilMessage), msg, s)
      | Some (r, N) \<Rightarrow>
          (case decodeTransferBodyHeader payload_read ((r, input s), N) of
             None \<Rightarrow> None
           | Some (Inl e, ((r1, c1), N1)) \<Rightarrow>
               Some (Some e, msg\<lparr>payloadReader := Some (r1, N1)\<rparr>, s\<lparr>input := c1\<rparr>)
           | Some (Inr transferID, ((r1, c1), N1)) \<Rightarrow>
               (case incoming s transferID of
                  None \<Rightarrow> Some (Some (Msg (''unknown transfer: '' @ transferID)),
                                msg\<lparr>payloadReader := Some (r1, N1)\<rparr>, s\<lparr>input := c1\<rparr>)
                | Some inc \<Rightarrow>
                    if bodyWritten inc then
                      Some (Some (Msg ''transfer body already written''),
                            msg\<lparr>payloadReader := Some (r1, N1)\<rparr>, s\<lparr>input := c1\<rparr>)
                    else
                      (case io_Copy payload_read (body_write (tempFile inc)) ((r1, c1), N1) (disk s, hashed inc) of
                         None \<Rightarrow> None
                       | Some (n, err, ((r2, c2), N2), (d, h)) \<Rightarrow>
                           (case file_Close (tempFile inc) d of
                              (cerr, f, d1) \<Rightarrow>
                                (let fail = (case err of Some e \<Rightarrow> Some e | None \<Rightarrow> cerr);
                                     inc1 = inc\<lparr>tempFile := f, hashed := h\<rparr>;
                                     inc2 = (if fail = None then inc1\<lparr>bytesWritten := int n, bodyWritten := True\<rparr> else inc1)
                                 in Some (fail, msg\<lparr>payloadReader := Some (r2, N2)\<rparr>,
                                          s\<lparr>input := c2, disk := d1, incoming := (incoming s)(transferID \<mapsto> inc2)\<rparr>)))))))"

text \<open>The body of \<^verbatim>\<open>handleCommit\<close> between the lookup and the deferred removal of the temporary file.\<close>

definition commit_transfer :: "incomingFileTransfer \<Rightarrow> FileTransferResult \<Rightarrow> os \<Rightarrow> FileTransferResult \<times> os" where
  "commit_transfer inc result d =
     (if \<not> bodyWritten inc then (result\<lparr>resError := ''transfer body not received''\<rparr>, d)
      else if bytesWritten inc \<noteq> reqSize (expected inc) then
        (result\<lparr>resError := ''size mismatch: got '' @ itoa_int (bytesWritten inc) @ '' want '' @ itoa_int (reqSize (expected inc))\<rparr>, d)
      else
        (let sum = hex_EncodeToString (sha256_Sum (hashed inc)) in
         if reqSHA256 (expected inc) \<noteq> '''' \<and> \<not> EqualFold sum (reqSHA256 (expected inc)) then
           (result\<lparr>resError := ''checksum mismatch''\<rparr>, d)
         else (case os_Rename (tempPath inc) (finalPath inc) d of
            (Some e, d1) \<Rightarrow> (result\<lparr>resError := error_text e\<rparr>, d1)
          | (None, d1) \<Rightarrow> (result\<lparr>OK := True, resSize := bytesWritten inc, resSHA256 := sum\<rparr>, d1))))"

definition handleCommit :: "ctx \<Rightarrow> FileTransferCommit \<Rightarrow> ('p, 'm) transfer_peer_scheme
    \<Rightarrow> FileTransferResult \<times> ('p, 'm) transfer_peer_scheme" where
  "handleCommit ctx req s =
     (let result = \<lparr>resTransferID = commitTransferID req, OK = False, resSize = 0, resSHA256 = '''', resError = ''''\<rparr> in
      case incoming s (commitTransferID req) of
        None \<Rightarrow> (result\<lparr>resError := ''unknown transfer''\<rparr>, s)
      | Some inc \<Rightarrow>
          (let s1 = s\<lparr>incoming := (incoming s)(commitTransferID req := None)\<rparr> in
           case commit_transfer inc result (disk s) of
             (res, d) \<Rightarrow> (res, s1\<lparr>disk := (if OK res then d else snd (os_Remove (tempPath inc) d))\<rparr>)))"

definition FileTransfer_OnReceive :: "FileTransfer option \<Rightarrow> 'p option \<Rightarrow> ('p, 'm) transfer_peer_scheme
    \<Rightarrow> ('p, 'm) transfer_peer_scheme" where
  "FileTransfer_OnReceive fo handler s = (case fo of None \<Rightarrow> s | Some f \<Rightarrow> s\<lparr>onReceive := handler\<rparr>)"

section \<open>The functions on the receive loop\<close>

text \<open>
  What the functions that \<^verbatim>\<open>NewFileTransfer\<close> registers do when they are called. A codec only decodes values of its own
  type; the branches for other values are never taken (\<open>transfer_libraries\<close>).
\<close>

definition transfer_callM :: "transfer_fun \<Rightarrow> ctx \<Rightarrow> transfer_value decoded \<Rightarrow> message \<Rightarrow> ('p, 'm) transfer_peer_scheme
    \<Rightarrow> (error option \<times> message \<times> ('p, 'm) transfer_peer_scheme) option" where
  "transfer_callM f ctx v msg s =
     (case f of
        HandleBody \<Rightarrow> handleBody ctx msg s
      | _ \<Rightarrow> Some (Some (Msg ''not a receiver of messages''), msg, s))"

definition transfer_callR ::
  "('p \<Rightarrow> ctx \<Rightarrow> FileTransferRequest \<Rightarrow> FileTransferPlan result) \<Rightarrow> transfer_fun \<Rightarrow> ctx \<Rightarrow> transfer_value decoded \<Rightarrow> message
     \<Rightarrow> ('p, 'm) transfer_peer_scheme \<Rightarrow> (transfer_value result \<times> message \<times> ('p, 'm) transfer_peer_scheme) option" where
  "transfer_callR plan f ctx v msg s =
     (case (f, v) of
        (HandleOpen, Plain (VRequest req)) \<Rightarrow>
          (case handleOpen plan ctx req s of (resp, s1) \<Rightarrow> Some (Inr (VResponse resp), msg, s1))
      | (HandleCommit, Plain (VCommit req)) \<Rightarrow>
          (case handleCommit ctx req s of (res, s1) \<Rightarrow> Some (Inr (VResult res), msg, s1))
      | _ \<Rightarrow> Some (Inl (Msg ''not a request of this handler''), msg, s))"

text \<open>\<^verbatim>\<open>NewFileTransfer\<close>; the addresses are those of the three objects it makes.\<close>

definition NewFileTransfer :: "nat \<Rightarrow> nat \<Rightarrow> nat \<Rightarrow> ('p, 'm) transfer_peer_scheme option
    \<Rightarrow> FileTransfer result \<times> ('p, 'm) transfer_peer_scheme option" where
  "NewFileTransfer a1 a2 a3 so =
     if_ok (NewCodecOfType request_type TypeFileTransferOpen CodecMsgpack, so) (\<lambda>openReqCodec so.
     if_ok (NewCodecOfType response_type (TypeFileTransferOpen + 100) CodecMsgpack, so) (\<lambda>openRespCodec so.
     if_ok (NewCodecOfType body_type TypeFileTransferBody CodecStream, so) (\<lambda>bodyCodec so.
     if_ok (NewCodecOfType commit_type TypeFileTransferCommit CodecMsgpack, so) (\<lambda>commitReqCodec so.
     if_ok (NewCodecOfType result_type (TypeFileTransferCommit + 100) CodecMsgpack, so) (\<lambda>commitRespCodec so.
     if_ok (NewR a1 so (Some openReqCodec) (Some openRespCodec)) (\<lambda>opn so.
     if_ok (NewM a2 so (Some bodyCodec)) (\<lambda>body so.
     if_ok (NewR a3 so (Some commitReqCodec) (Some commitRespCodec)) (\<lambda>commit so.
       let ft = \<lparr>openR = opn, bodyM = body, commitR = commit\<rparr>;
           lift = (\<lambda>register so. case so of None \<Rightarrow> (None, None) | Some s \<Rightarrow> (case register s of (e, s') \<Rightarrow> (e, Some s')))
       in
       if_nil (lift (R_OnRequest (Some opn) (Some HandleOpen)) (map_option (\<lambda>s. s\<lparr>incoming := (\<lambda>_. None), onReceive := None\<rparr>) so)) (\<lambda>so.
       if_nil (lift (M_OnReceive (Some body) (Some HandleBody)) so) (\<lambda>so.
       if_nil (lift (R_OnRequest (Some commit) (Some HandleCommit)) so) (\<lambda>so.
         (Inr ft, so))))))))))))"

section \<open>Sending\<close>

definition checksumFile :: "string \<Rightarrow> os \<Rightarrow> (string result \<times> os) option" where
  "checksumFile path d =
     (case os_Open path d of
        (Inl e, d1) \<Rightarrow> Some (Inl e, d1)
      | (Inr f, d1) \<Rightarrow>
          (case io_Copy conn_read buffer_write f [] of
             None \<Rightarrow> None
           | Some (n, Some e, f1, h) \<Rightarrow> Some (Inl e, d1)
           | Some (n, None, f1, h) \<Rightarrow> Some (Inr (hex_EncodeToString (sha256_Sum h)), d1)))"

text \<open>\<open>raw\<close> is the answer of the random source.\<close>

definition newTransferID :: "byte list result \<Rightarrow> string result" where
  "newTransferID raw = (case raw of Inl e \<Rightarrow> Inl e | Inr bs \<Rightarrow> Inr (hex_EncodeToString bs))"

text \<open>
  \<^verbatim>\<open>SendFile\<close> up to the first request: the request as it is sent. \<open>req\<close> has the fields that the caller filled in.
\<close>

definition prepare_request :: "byte list result \<Rightarrow> string \<Rightarrow> FileTransferRequest \<Rightarrow> os
    \<Rightarrow> (FileTransferRequest result \<times> os) option" where
  "prepare_request raw localPath req d =
     (case os_Stat localPath d of
        (Inl e, d1) \<Rightarrow> Some (Inl e, d1)
      | (Inr (regular, sz), d1) \<Rightarrow>
          if \<not> regular then Some (Inl (Msg ''file transfer requires a regular file''), d1)
          else if sz > 2 ^ 32 - 1 then Some (Inl (Msg ''file too large for current stream framing''), d1)
          else
            (case (if reqTransferID req = '''' then newTransferID raw else Inr (reqTransferID req)) of
               Inl e \<Rightarrow> Some (Inl e, d1)
             | Inr tid \<Rightarrow>
                 (let req1 = req\<lparr>reqTransferID := tid,
                                 reqName := (if reqName req = '''' then path_Base localPath else reqName req),
                                 reqSize := sz\<rparr> in
                  case (if reqSHA256 req1 = '''' then checksumFile localPath d1 else Some (Inr (reqSHA256 req1), d1)) of
                    None \<Rightarrow> None
                  | Some (Inl e, d2) \<Rightarrow> Some (Inl e, d2)
                  | Some (Inr digest, d2) \<Rightarrow>
                      (let req2 = req1\<lparr>reqSHA256 := digest\<rparr> in
                       case encodeTransferBodyHeader tid of
                         Inl e \<Rightarrow> Some (Inl e, d2)
                       | Inr bodyHeader \<Rightarrow>
                           if int (length bodyHeader) + reqSize req2 > 2 ^ 32 - 1
                           then Some (Inl (Msg ''file too large for current stream framing''), d2)
                           else Some (Inr req2, d2)))))"

text \<open>
  The environment of one \<^verbatim>\<open>SendFile\<close>: its random bytes, what happens while its two requests wait for their
  responses, and the payloads of these responses.
\<close>

record send_env =
  idBytes :: "byte list result"
  openIDs :: "nat \<Rightarrow> byte list result"
  bodyIDs :: "nat \<Rightarrow> byte list result"
  commitIDs :: "nat \<Rightarrow> byte list result"
  openEvents :: "resp_event list"
  openArrived :: "byte list"
  commitEvents :: "resp_event list"
  commitArrived :: "byte list"

definition SendFile :: "transfer_value libraries \<Rightarrow> send_env \<Rightarrow> ctx \<Rightarrow> FileTransfer option \<Rightarrow> string \<Rightarrow> FileTransferRequest
    \<Rightarrow> ('p, 'm) transfer_peer_scheme \<Rightarrow> (FileTransferResult \<times> error option \<times> ('p, 'm) transfer_peer_scheme) option" where
  "SendFile libs env ctx fo localPath req s =
     (let zero = \<lparr>resTransferID = '''', OK = False, resSize = 0, resSHA256 = '''', resError = ''''\<rparr>;
          request = R_Request libs transfer_shape transfer_dyn (multi_read conn_read) None in
      case fo of None \<Rightarrow> Some (zero, Some (VsockE ErrNilTransport), s) | Some f \<Rightarrow>
      case prepare_request (idBytes env) localPath req (disk s) of None \<Rightarrow> None
      | Some (Inl e, d) \<Rightarrow> Some (zero, Some e, s\<lparr>disk := d\<rparr>)
      | Some (Inr req, d) \<Rightarrow>
      (case request (openIDs env) ctx (Some (openR f)) (VRequest req) (openEvents env) (openArrived env) (s\<lparr>disk := d\<rparr>) of None \<Rightarrow> None
       | Some (Inl e, s1) \<Rightarrow> Some (zero, Some e, s1)
       | Some (Inr (Plain (VResponse resp)), s1) \<Rightarrow>
           if \<not> Accepted resp then
             Some (zero, Some (Msg (if respError resp = '''' then ''file transfer rejected'' else respError resp)), s1)
           else
           (case os_Open localPath (disk s1) of
              (Inl e, d1) \<Rightarrow> Some (zero, Some e, s1\<lparr>disk := d1\<rparr>)
            | (Inr fil, d1) \<Rightarrow>
                (case M_Send libs transfer_dyn (multi_read conn_read) None (bodyIDs env) ctx (Some (bodyM f))
                       (VBody \<lparr>bodyTransferID = reqTransferID req, bodyReader = Some fil, bodyLength = of_int (reqSize req)\<rparr>)
                       (s1\<lparr>disk := d1\<rparr>) of
                   None \<Rightarrow> None
                 | Some (Some e, s2) \<Rightarrow> Some (zero, Some e, s2)
                 | Some (None, s2) \<Rightarrow>
                     (case request (commitIDs env) ctx (Some (commitR f)) (VCommit \<lparr>commitTransferID = reqTransferID req\<rparr>)
                            (commitEvents env) (commitArrived env) s2 of
                        None \<Rightarrow> None
                      | Some (Inl e, s3) \<Rightarrow> Some (zero, Some e, s3)
                      | Some (Inr (Plain (VResult result)), s3) \<Rightarrow>
                          if \<not> OK result then
                            (let result1 = (if resError result = '''' then result\<lparr>resError := ''file transfer failed''\<rparr> else result)
                             in Some (result1, Some (Msg (resError result1)), s3))
                          else Some (result, None, s3)
                      | Some (_, s3) \<Rightarrow> Some (zero, Some (Msg ''not a result''), s3))))
       | Some (_, s1) \<Rightarrow> Some (zero, Some (Msg ''not a response''), s1)))"

text \<open>Libraries that decode a value of the type they are asked for.\<close>

definition value_type :: "transfer_value \<Rightarrow> tid" where
  "value_type v = (case v of VRequest _ \<Rightarrow> request_type | VResponse _ \<Rightarrow> response_type | VCommit _ \<Rightarrow> commit_type
     | VResult _ \<Rightarrow> result_type | VBody _ \<Rightarrow> body_type)"

definition transfer_libraries :: "transfer_value libraries \<Rightarrow> bool" where
  "transfer_libraries libs \<longleftrightarrow> (\<forall>T bs v. unmarshal (msgpack libs) T bs = Inr v \<longrightarrow> value_type v = T)"


section \<open>The header of the body on the wire\<close>

context reader begin

lemma decode_header_total: "\<exists>res r'. decodeTransferBodyHeader rd r = Some (res, r')"
proof -
  obtain bs e r1 where r1: "io_ReadFull rd 2 r = Some (bs, e, r1)" using ReadFull_total by blast
  obtain bs2 e2 r2 where r2: "io_ReadFull rd (unat (Uint16 bs)) r1 = Some (bs2, e2, r2)" using ReadFull_total by blast
  show ?thesis by (cases e; cases e2) (auto simp: decodeTransferBodyHeader_def r1 r2 Let_def)
qed

lemma decode_header_inv:
  assumes step: "\<And>s n bs e s'. P s \<Longrightarrow> rd s n = (bs, e, s') \<Longrightarrow> P s'"
    and "P r" and d: "decodeTransferBodyHeader rd r = Some (res, r')"
  shows "P r'"
proof -
  obtain bs e r1 where r1: "io_ReadFull rd 2 r = Some (bs, e, r1)" using ReadFull_total by blast
  obtain bs2 e2 r2 where r2: "io_ReadFull rd (unat (Uint16 bs)) r1 = Some (bs2, e2, r2)" using ReadFull_total by blast
  have P1: "P r1" by (rule ReadFull_inv [where P = P, OF _ assms(2) r1]) (rule step)
  have P2: "P r2" by (rule ReadFull_inv [where P = P, OF _ P1 r2]) (rule step)
  from d have "r' = r1 \<or> r' = r2"
    by (cases e; cases e2) (auto simp: decodeTransferBodyHeader_def r1 r2 Let_def split: if_splits)
  with P1 P2 show ?thesis by blast
qed

lemma decode_encoded_header:
  assumes "encodeTransferBodyHeader tid = Inr header" and "avail r = header @ rest"
  shows "\<exists>r'. decodeTransferBodyHeader rd r = Some (Inr tid, r') \<and> avail r' = rest \<and> fin r' = fin r"
proof -
  from assms(1) have tid: "tid \<noteq> ''''" "length tid \<le> 65535"
    and h: "header = PutUint16 (of_nat (length tid)) @ bytes_of tid"
    by (auto simp: encodeTransferBodyHeader_def split: if_splits)
  have len: "unat (of_nat (length tid) :: u16) = length tid"
    by (rule unat_of_nat_u16) (use tid in simp)
  then have nz: "(of_nat (length tid) :: u16) \<noteq> 0" using tid(1) by (metis length_0_conv unat_0)
  obtain r1 where r1: "io_ReadFull rd 2 r = Some (PutUint16 (of_nat (length tid)), None, r1)"
    "avail r1 = bytes_of tid @ rest" "fin r1 = fin r"
    using ReadFull_ok [of 2 r] assms(2) h by auto
  obtain r2 where "io_ReadFull rd (length tid) r1 = Some (bytes_of tid, None, r2)" "avail r2 = rest" "fin r2 = fin r1"
    using ReadFull_ok [of "length tid" r1] r1(2) by auto
  then show ?thesis using r1 nz by (simp add: decodeTransferBodyHeader_def len)
qed

end

section \<open>The handlers keep to their message\<close>

lemma body_write_hash_ok: "body_write f w bs = (None, w') \<Longrightarrow> snd w' = snd w @ bs"
  by (auto simp: body_write_def split: prod.splits option.splits if_splits)

interpretation body_hash: copier payload_read payload_avail payload_fin "\<lambda>l. src_meas (fst l)" "body_write f" snd for f
proof
  fix w bs w'
  show "body_write f w bs = (None, w') \<Longrightarrow> snd w' = snd w @ bs" by (rule body_write_hash_ok)
  fix x
  assume "body_write f w bs = (Some x, w')"
  then have "snd w' = snd w" by (auto simp: body_write_def split: prod.splits option.splits if_splits)
  then show "\<exists>p q. bs = p @ q \<and> snd w' = snd w @ p" by auto
qed

interpretation body_file: copier payload_read payload_avail payload_fin "\<lambda>l. src_meas (fst l)" "body_write f"
    "\<lambda>w. content (fst w) (inode f)" for f
proof
  fix w bs w'
  assume "body_write f w bs = (None, w')"
  then show "content (fst w') (inode f) = content (fst w) (inode f) @ bs"
    by (auto simp: body_write_def dest: file_Write_facts(5) split: prod.splits option.splits if_splits)
next
  fix w bs x w'
  assume b: "body_write f w bs = (Some x, w')"
  obtain n e d where w: "file_Write f bs (fst w) = (n, e, d)" by (cases "file_Write f bs (fst w)")
  then have "\<exists>k. content d (inode f) = content (fst w) (inode f) @ take k bs"
    by (auto simp: file_Write_def intro: exI [of _ 0] split: if_splits prod.splits option.splits) (metis take_all_iff nle_le)+
  moreover have "fst w' = d" using b w by (auto simp: body_write_def split: option.splits if_splits)
  ultimately show "\<exists>p q. bs = p @ q \<and> content (fst w') (inode f) = content (fst w) (inode f) @ p"
    by (metis append_take_drop_id)
qed

text \<open>What writing a body leaves alone.\<close>

definition only_file :: "nat \<Rightarrow> os \<Rightarrow> os \<Rightarrow> bool" where
  "only_file i d d' \<longleftrightarrow> cwd d' = cwd d \<and> dirent d' = dirent d \<and> nextInode d' = nextInode d
     \<and> (\<forall>j. j \<noteq> i \<longrightarrow> content d' j = content d j)"

lemma only_file_refl [simp]: "only_file i d d"
  by (simp add: only_file_def)

lemma body_write_only_file: "only_file (inode f) d (fst w) \<Longrightarrow> only_file (inode f) d (fst (snd (body_write f w bs)))"
proof -
  assume o: "only_file (inode f) d (fst w)"
  obtain n e d1 where w: "file_Write f bs (fst w) = (n, e, d1)" by (cases "file_Write f bs (fst w)")
  have "only_file (inode f) d d1" using o file_Write_facts(1-4) [OF w] by (simp add: only_file_def)
  then show ?thesis using w by (cases e) (simp_all add: body_write_def)
qed


text \<open>
  What \<^verbatim>\<open>handleBody\<close> does: it fails and leaves the transfers alone, or it writes to the file of one of
  them and closes it; then the transfer counts as written only if everything arrived and the file was open.
\<close>

definition body_failed :: "('p, 'm) transfer_peer_scheme \<Rightarrow> ('p, 'm) transfer_peer_scheme \<Rightarrow> bool" where
  "body_failed s s' \<longleftrightarrow> (\<exists>c. s' = s\<lparr>input := c\<rparr>)"

definition body_stored :: "error option \<Rightarrow> ('p, 'm) transfer_peer_scheme \<Rightarrow> ('p, 'm) transfer_peer_scheme \<Rightarrow> bool" where
  "body_stored err s s' \<longleftrightarrow>
     (\<exists>c d tid inc f inc' payload. s' = s\<lparr>input := c, disk := d, incoming := (incoming s)(tid \<mapsto> inc')\<rparr>
        \<and> incoming s tid = Some inc \<and> \<not> bodyWritten inc \<and> f = tempFile inc \<and> only_file (inode f) (disk s) d
        \<and> finalPath inc' = finalPath inc \<and> tempPath inc' = tempPath inc \<and> expected inc' = expected inc
        \<and> tempFile inc' = f\<lparr>is_open := False\<rparr>
        \<and> (bodyWritten inc' \<longleftrightarrow> err = None)
        \<and> (err = None \<longrightarrow> is_open f \<and> hashed inc' = hashed inc @ payload
             \<and> content d (inode f) = content (disk s) (inode f) @ payload
             \<and> bytesWritten inc' = int (length payload)))"

lemma handleBody_spec:
  "\<exists>err msg' s'. handleBody ctx msg s = Some (err, msg', s') \<and> place msg' s' = place msg s
     \<and> (body_failed s s' \<and> err \<noteq> None \<or> body_stored err s s')"
proof (cases "payloadReader msg")
  case None
  have "body_failed s s" unfolding body_failed_def by (rule exI [of _ "input s"]) simp
  with None show ?thesis by (simp add: handleBody_def message_Reader_def)
next
  case (Some rN)
  then obtain r N where rd: "payloadReader msg = Some (r, N)" by (cases rN) auto
  let ?P = "keeps_place (after_payload msg (input s)) (conn_fin (input s))"
  have P0: "?P ((r, input s), N)" by (simp add: keeps_place_def after_payload_def rd)
  obtain res r1 c1 N1 where d: "decodeTransferBodyHeader payload_read ((r, input s), N) = Some (res, ((r1, c1), N1))"
    using payload.decode_header_total by (metis prod.exhaust)
  have P1: "?P ((r1, c1), N1)"
    by (rule payload.decode_header_inv [where P = ?P, OF _ P0 d]) (rule payload_read_keeps_place)
  have pl: "place (msg\<lparr>payloadReader := Some (r', N')\<rparr>) (s\<lparr>input := c', disk := d', incoming := i'\<rparr>) = place msg s"
    if "?P ((r', c'), N')" for r' c' N' d' i'
    using that by (simp add: place_def keeps_place_def after_payload_def)
  have pl1: "place (msg\<lparr>payloadReader := Some (r1, N1)\<rparr>) (s\<lparr>input := c1\<rparr>) = place msg s"
    using P1 by (simp add: place_def keeps_place_def after_payload_def)
  have failed: "body_failed s (s\<lparr>input := c1\<rparr>)" unfolding body_failed_def by (rule exI [of _ c1]) simp
  note step = handleBody_def message_Reader_def rd d
  show ?thesis
  proof (cases "\<exists>tid inc. res = Inr tid \<and> incoming s tid = Some inc \<and> \<not> bodyWritten inc")
    case False
    with pl1 failed show ?thesis by (cases res) (auto simp: step split: option.splits)
  next
    case True
    then obtain tid inc where res: "res = Inr tid" and inc: "incoming s tid = Some inc" "\<not> bodyWritten inc" by blast
    let ?f = "tempFile inc" and ?w = "(disk s, hashed inc)"
    obtain n err r2 c2 N2 d2 h2 where c: "io_Copy payload_read (body_write ?f) ((r1, c1), N1) ?w = Some (n, err, ((r2, c2), N2), (d2, h2))"
      and only: "only_file (inode ?f) (disk s) d2"
      using payload.Copy_writer [where wr = "body_write ?f" and P = "\<lambda>w. only_file (inode ?f) (disk s) (fst w)" and w = ?w and s = "((r1, c1), N1)"]
      by (force intro: body_write_only_file)
    have P2: "?P ((r2, c2), N2)"
      by (rule payload.copy_loop_inv [where P = ?P, OF _ _ P1 c [unfolded io_Copy_def]])
         (auto dest: payload_read_keeps_place)
    have hash: "err = None \<Longrightarrow> h2 = hashed inc @ payload_avail ((r1, c1), N1) \<and> n = length (payload_avail ((r1, c1), N1))"
      using body_hash.Copy_spec [of ?f "((r1, c1), N1)" ?w] c by auto
    have store: "err = None \<Longrightarrow> content d2 (inode ?f) = content (disk s) (inode ?f) @ payload_avail ((r1, c1), N1)"
      using body_file.Copy_spec [of ?f "((r1, c1), N1)" ?w] c by auto
    obtain cerr f' d3 where cl: "file_Close ?f d2 = (cerr, f', d3)" by (cases "file_Close ?f d2")
    note cf = file_Close_facts [OF cl]
    define fail where "fail = (case err of Some e \<Rightarrow> Some e | None \<Rightarrow> cerr)"
    define inc' where "inc' = (let inc1 = inc\<lparr>tempFile := f', hashed := h2\<rparr> in
      if fail = None then inc1\<lparr>bytesWritten := int n, bodyWritten := True\<rparr> else inc1)"
    define s' where "s' = s\<lparr>input := c2, disk := d3, incoming := (incoming s)(tid \<mapsto> inc')\<rparr>"
    have run: "handleBody ctx msg s = Some (fail, msg\<lparr>payloadReader := Some (r2, N2)\<rparr>, s')"
      by (simp add: step res inc c cl fail_def inc'_def s'_def Let_def)
    have place: "place (msg\<lparr>payloadReader := Some (r2, N2)\<rparr>) s' = place msg s"
      unfolding s'_def by (rule pl [OF P2])
    have i': "finalPath inc' = finalPath inc" "tempPath inc' = tempPath inc" "expected inc' = expected inc"
      "tempFile inc' = ?f\<lparr>is_open := False\<rparr>" "bodyWritten inc' \<longleftrightarrow> fail = None"
      using inc(2) cf(5) by (auto simp: inc'_def Let_def)
    have ok: "is_open ?f \<and> hashed inc' = hashed inc @ payload_avail ((r1, c1), N1)
      \<and> content d3 (inode ?f) = content (disk s) (inode ?f) @ payload_avail ((r1, c1), N1)
      \<and> bytesWritten inc' = int (length (payload_avail ((r1, c1), N1)))" if "fail = None"
    proof -
      from that have "err = None" "cerr = None" by (auto simp: fail_def split: option.splits)
      with hash store cf(4,6) that show ?thesis by (simp add: inc'_def Let_def)
    qed
    have only3: "only_file (inode ?f) (disk s) d3" using only cf(1-4) by (simp add: only_file_def)
    have "body_stored fail s s'"
      unfolding body_stored_def
      by (rule exI [of _ c2], rule exI [of _ d3], rule exI [of _ tid], rule exI [of _ inc], rule exI [of _ ?f], rule exI [of _ inc'],
          rule exI [of _ "payload_avail ((r1, c1), N1)"])
         (use i' ok only3 inc in \<open>simp add: s'_def\<close>)
    with run place show ?thesis by blast
  qed
qed

lemma handleBody_acks: "handleBody ctx msg s = Some (err, msg', s') \<Longrightarrow> ackTable s' = ackTable s"
  using handleBody_spec [of ctx msg s] by (auto simp: body_failed_def body_stored_def)

text \<open>The functions that \<^verbatim>\<open>NewFileTransfer\<close> registers fulfil the contract of user functions.\<close>

lemma handleOpen_rest:
  "handleOpen plan ctx req s = (resp, s') \<Longrightarrow> place msg s' = place msg s \<and> ackTable s' = ackTable s"
  by (auto simp: handleOpen_def Let_def place_def split: if_splits option.splits sum.splits prod.splits)

lemma handleCommit_rest:
  "handleCommit ctx req s = (res, s') \<Longrightarrow> place msg s' = place msg s \<and> ackTable s' = ackTable s"
  by (auto simp: handleCommit_def Let_def place_def split: option.splits prod.splits)


interpretation transfer: user_functions "multi_read conn_read" "multi_avail conn_avail conn_fin" "multi_fin conn_fin"
    "multi_meas conn_meas" transfer_callM "transfer_callR plan" for plan
proof
  fix f :: transfer_fun and ctx v msg and s :: "('a, 'b) transfer_peer_scheme"
  show "\<exists>err msg' s'. transfer_callM f ctx v msg s = Some (err, msg', s') \<and> place msg' s' = place msg s
      \<and> (acks_ok (ackTable s) \<longrightarrow> acks_ok (ackTable s'))"
  proof (cases f)
    case HandleBody
    obtain err msg' s' where h: "handleBody ctx msg s = Some (err, msg', s')" "place msg' s' = place msg s"
      using handleBody_spec by blast
    from handleBody_acks [OF h(1)] h HandleBody show ?thesis by (simp add: transfer_callM_def)
  qed (simp_all add: transfer_callM_def)
next
  fix f :: transfer_fun and ctx v msg and s :: "('a, 'b) transfer_peer_scheme"
  show "\<exists>res msg' s'. transfer_callR plan f ctx v msg s = Some (res, msg', s') \<and> place msg' s' = place msg s
      \<and> (acks_ok (ackTable s) \<longrightarrow> acks_ok (ackTable s'))"
  proof (cases "\<exists>req. f = HandleOpen \<and> v = Plain (VRequest req)")
    case True
    then obtain req where t: "f = HandleOpen" "v = Plain (VRequest req)" by blast
    obtain resp s' where "handleOpen plan ctx req s = (resp, s')" by (cases "handleOpen plan ctx req s")
    with handleOpen_rest [OF this, of msg] t show ?thesis by (simp add: transfer_callR_def)
  next
    case nopen: False
    show ?thesis
    proof (cases "\<exists>req. f = HandleCommit \<and> v = Plain (VCommit req)")
      case True
      then obtain req where t: "f = HandleCommit" "v = Plain (VCommit req)" by blast
      obtain res s' where "handleCommit ctx req s = (res, s')" by (cases "handleCommit ctx req s")
      with handleCommit_rest [OF this, of msg] t show ?thesis by (simp add: transfer_callR_def)
    next
      case False
      with nopen have "transfer_callR plan f ctx v msg s = Some (Inl (Msg ''not a request of this handler''), msg, s)"
        by (auto simp: transfer_callR_def split: transfer_fun.splits decoded.splits transfer_value.splits)
      then show ?thesis by simp
    qed
  qed
qed

section \<open>The state of the receiver\<close>

text \<open>A hidden path has a last component that begins with a dot.\<close>

definition hidden :: "string \<Rightarrow> bool" where
  "hidden k \<longleftrightarrow> comps k \<noteq> [] \<and> hd (last (comps k)) = CHR ''.''"

lemma comps_under_dir:
  assumes "names [n]"
  shows "clean_comps (d @ CHR ''/'' # n) = foldl (push_comp (IsAbs (d @ CHR ''/'' # n))) [] (comps d) @ [n]"
  using assms comps_append [of d n]
  by (simp add: clean_comps_def names_def name_ok_def push_comp_def comps_def split_slash_no_slash)

lemma hidden_temp:
  assumes "IsAbs (cwd s)" and "CHR ''/'' \<notin> set n" and "hd n = CHR ''.''" and "length n > 2"
  shows "hidden (os_path s (d @ CHR ''/'' # n))"
proof -
  have n: "names [n]" using assms(2,4) by (auto simp: names_def name_ok_def)
  have c: "cwd s \<noteq> ''''" using assms(1) by (auto simp: IsAbs_def)
  show ?thesis
  proof (cases "IsAbs (d @ CHR ''/'' # n)")
    case True
    then show ?thesis using comps_under_dir [OF n, of d] assms(3)
      by (simp add: hidden_def os_path_def comps_Clean)
  next
    case False
    have "path_Join [cwd s, d @ CHR ''/'' # n] = Clean ((cwd s @ CHR ''/'' # d) @ CHR ''/'' # n)"
      using c by (simp add: path_Join_two)
    then show ?thesis using False comps_under_dir [OF n, of "cwd s @ CHR ''/'' # d"] assms(3)
      by (simp add: hidden_def os_path_def comps_Clean del: append.simps append_assoc)
  qed
qed

lemma hidden_CreateTemp:
  assumes "os_CreateTemp dir (''.'' @ b @ ''.part-'') s = (Inr f, s')" and "os_ok s"
  shows "hidden (os_path s (Name f))"
proof -
  note c = CreateTemp_ok [OF assms]
  from c(2) obtain k where f: "Name f = (if dir \<noteq> [] \<and> last dir = CHR ''/'' then dir else dir @ ''/'') @ (''.'' @ b @ ''.part-'') @ itoa k"
    by blast
  let ?n = "(''.'' @ b @ ''.part-'') @ itoa k" and ?d = "if dir \<noteq> [] \<and> last dir = CHR ''/'' then butlast dir else dir"
  have "Name f = ?d @ CHR ''/'' # ?n"
  proof (cases "dir \<noteq> [] \<and> last dir = CHR ''/''")
    case True
    then obtain d where "dir = d @ [CHR ''/'']" by (metis append_butlast_last_id)
    with f show ?thesis by simp
  next
    case False
    then show ?thesis unfolding f by auto
  qed
  moreover have "hidden (os_path s (?d @ CHR ''/'' # ?n))"
    by (rule hidden_temp) (use assms(2) c(1) itoa_no_slash [of k] in \<open>simp_all add: os_ok_def\<close>)
  ultimately show ?thesis by simp
qed


text \<open>
  The invariant: every transfer has a temporary file of its own under a hidden name and a visible destination; an
  open file is empty, and a body that counts as written is in the file, in the hash and in the byte count.
\<close>

definition transfer_ok :: "os \<Rightarrow> incomingFileTransfer \<Rightarrow> bool" where
  "transfer_ok d inc \<longleftrightarrow>
     dirent d (os_path d (tempPath inc)) = Some (inode (tempFile inc))
     \<and> hidden (os_path d (tempPath inc)) \<and> \<not> hidden (os_path d (finalPath inc))
     \<and> (is_open (tempFile inc) \<longrightarrow> hashed inc = [] \<and> content d (inode (tempFile inc)) = [])
     \<and> (bodyWritten inc \<longrightarrow> \<not> is_open (tempFile inc) \<and> content d (inode (tempFile inc)) = hashed inc
          \<and> bytesWritten inc = int (length (hashed inc)))"

definition transfers_ok :: "('p, 'm) transfer_peer_scheme \<Rightarrow> bool" where
  "transfers_ok s \<longleftrightarrow> os_ok (disk s)
     \<and> (\<forall>tid inc. incoming s tid = Some inc \<longrightarrow> transfer_ok (disk s) inc)
     \<and> (\<forall>t1 t2 i1 i2. incoming s t1 = Some i1 \<longrightarrow> incoming s t2 = Some i2
          \<longrightarrow> inode (tempFile i1) = inode (tempFile i2) \<longrightarrow> t1 = t2)"

text \<open>Nothing happened to the files.\<close>

definition same_disk :: "os \<Rightarrow> os \<Rightarrow> bool" where
  "same_disk d d' \<longleftrightarrow> cwd d' = cwd d \<and> dirent d' = dirent d \<and> content d' = content d \<and> nextInode d' = nextInode d"

lemma same_disk_refl [simp]: "same_disk d d"
  by (simp add: same_disk_def)

lemma same_disk_file: "same_disk d d' \<Longrightarrow> same_file d d' k"
  by (simp add: same_disk_def same_file_def)

lemma same_disk_ok: "same_disk d d' \<Longrightarrow> os_ok d' = os_ok d" "same_disk d d' \<Longrightarrow> transfer_ok d' inc = transfer_ok d inc"
  using os_path_cwd [of d' d] by (auto simp: same_disk_def os_ok_def transfer_ok_def)

lemma transfers_ok_cong:
  "transfers_ok s \<Longrightarrow> same_disk (disk s) (disk s') \<Longrightarrow> incoming s' = incoming s \<Longrightarrow> transfers_ok s'"
  by (simp add: transfers_ok_def same_disk_ok)

lemma same_disk_trans: "same_disk d d1 \<Longrightarrow> same_disk d1 d2 \<Longrightarrow> same_disk d d2"
  by (simp add: same_disk_def)

lemma MkdirAll_same: "os_MkdirAll p d = (e, d') \<Longrightarrow> same_disk d d'"
  using MkdirAll_facts [of p d e d'] by (simp add: same_disk_def)

lemma CreateTemp_same: "os_CreateTemp dir pre d = (Inl e, d') \<Longrightarrow> same_disk d d'"
  using CreateTemp_error [of dir pre d e d'] by (simp add: same_disk_def)

lemma open_error_same:
  "os_MkdirAll p d = (e, d1) \<Longrightarrow> os_CreateTemp dir pre d1 = (Inl x, d2) \<Longrightarrow> same_disk d d2"
  by (rule same_disk_trans [OF MkdirAll_same CreateTemp_same])

text \<open>Plans put files at visible places.\<close>

definition visible_plan :: "('p \<Rightarrow> ctx \<Rightarrow> FileTransferRequest \<Rightarrow> FileTransferPlan result) \<Rightarrow> os \<Rightarrow> bool" where
  "visible_plan plan d \<longleftrightarrow> (\<forall>h ctx req p. plan h ctx req = Inr p \<longrightarrow> \<not> hidden (os_path d (DestinationPath p)))"

lemma handleOpen_cases:
  assumes "handleOpen plan ctx req s = (resp, s')"
  obtains (refused) "\<not> Accepted resp" "incoming s' = incoming s" "same_disk (disk s) (disk s')"
  | (accepted) h p d tmp where "Accepted resp" "onReceive s = Some h" "plan h ctx req = Inr p"
      "incoming s (reqTransferID req) = None" "same_disk (disk s) d"
      "os_CreateTemp (path_Dir (DestinationPath p)) (''.'' @ path_Base (DestinationPath p) @ ''.part-'') d = (Inr tmp, disk s')"
      "incoming s' = (incoming s)(reqTransferID req \<mapsto>
         \<lparr>finalPath = DestinationPath p, tempPath = Name tmp, tempFile = tmp, hashed = [],
          expected = req, bodyWritten = False, bytesWritten = 0\<rparr>)"
proof (cases "\<exists>h p d tmp d1. reqTransferID req \<noteq> '''' \<and> \<not> reqSize req < 0 \<and> incoming s (reqTransferID req) = None
    \<and> onReceive s = Some h \<and> plan h ctx req = Inr p \<and> DestinationPath p \<noteq> ''''
    \<and> os_MkdirAll (path_Dir (DestinationPath p)) (disk s) = (None, d)
    \<and> os_CreateTemp (path_Dir (DestinationPath p)) (''.'' @ path_Base (DestinationPath p) @ ''.part-'') d = (Inr tmp, d1)")
  case True
  then obtain h p d tmp d1 where t: "reqTransferID req \<noteq> ''''" "\<not> reqSize req < 0" "incoming s (reqTransferID req) = None"
    "onReceive s = Some h" "plan h ctx req = Inr p" "DestinationPath p \<noteq> ''''"
    "os_MkdirAll (path_Dir (DestinationPath p)) (disk s) = (None, d)"
    "os_CreateTemp (path_Dir (DestinationPath p)) (''.'' @ path_Base (DestinationPath p) @ ''.part-'') d = (Inr tmp, d1)"
    by blast
  have "same_disk (disk s) d" by (rule MkdirAll_same [OF t(7)])
  with t assms show thesis
    by (intro accepted [of h p d tmp]) (auto simp: handleOpen_def Let_def)
next
  case False
  have "\<not> Accepted resp \<and> incoming s' = incoming s \<and> same_disk (disk s) (disk s')"
    using assms False
    by (auto simp: handleOpen_def Let_def split: if_splits option.splits sum.splits prod.splits
        dest: MkdirAll_same intro: open_error_same)
  then show thesis by (intro refused) auto
qed

text \<open>A new inode does not disturb the transfers.\<close>

lemma CreateTemp_transfers:
  assumes ok: "transfers_ok s" and t: "os_CreateTemp dir (''.'' @ b @ ''.part-'') (disk s) = (Inr tmp, d')"
  shows "os_ok d'" "incoming s tid = Some inc \<Longrightarrow> transfer_ok d' inc \<and> inode (tempFile inc) \<noteq> inode tmp"
    "\<not> hidden k \<Longrightarrow> same_file (disk s) d' k"
proof -
  have o: "os_ok (disk s)" using ok by (simp add: transfers_ok_def)
  note c = CreateTemp_ok [OF t o]
  note path = os_path_cwd [OF c(9)]
  have old: "dirent (disk s) k = Some i \<Longrightarrow> i < nextInode (disk s)" for k i using o by (auto simp: os_ok_def)
  show "os_ok d'" using o c(4-9) old by (auto simp: os_ok_def less_Suc_eq)
  have hid: "hidden (os_path (disk s) (Name tmp))" by (rule hidden_CreateTemp [OF t o])
  have fresh: "dirent (disk s) k = Some i \<Longrightarrow> i \<noteq> inode tmp" for k i using old [of k i] c(5) by simp
  show "\<not> hidden k \<Longrightarrow> same_file (disk s) d' k"
    using hid c(6,7) fresh by (auto simp: same_file_def)
  assume "incoming s tid = Some inc"
  with ok have i: "transfer_ok (disk s) inc" by (auto simp: transfers_ok_def)
  then have d: "dirent (disk s) (os_path (disk s) (tempPath inc)) = Some (inode (tempFile inc))" by (simp add: transfer_ok_def)
  with c(4) have "os_path (disk s) (tempPath inc) \<noteq> os_path (disk s) (Name tmp)" by auto
  with i fresh [OF d] c(6,7) path show "transfer_ok d' inc \<and> inode (tempFile inc) \<noteq> inode tmp"
    by (simp add: transfer_ok_def)
qed

lemma handleOpen_ok:
  assumes ok: "transfers_ok s" and plan: "visible_plan plan (disk s)" and h: "handleOpen plan ctx req s = (resp, s')"
  shows "transfers_ok s'" "cwd (disk s') = cwd (disk s)" "\<not> hidden k \<Longrightarrow> same_file (disk s) (disk s') k"
proof -
  have "transfers_ok s' \<and> cwd (disk s') = cwd (disk s) \<and> (\<forall>k. \<not> hidden k \<longrightarrow> same_file (disk s) (disk s') k)"
    using h
  proof (cases rule: handleOpen_cases)
    case refused
    moreover have "cwd (disk s') = cwd (disk s)" using refused(3) by (simp add: same_disk_def)
    ultimately show ?thesis using transfers_ok_cong [OF ok] by (auto simp: same_disk_file)
  next
    case (accepted f p d tmp)
    let ?s = "s\<lparr>disk := d\<rparr>"
    have ok1: "transfers_ok ?s" by (rule transfers_ok_cong [OF ok]) (simp_all add: accepted(5))
    have cr: "os_CreateTemp (path_Dir (DestinationPath p)) (''.'' @ path_Base (DestinationPath p) @ ''.part-'') (disk ?s) = (Inr tmp, disk s')"
      using accepted(6) by simp
    note t = CreateTemp_transfers [OF ok1 cr]
    have o: "os_ok d" using ok1 by (simp add: transfers_ok_def)
    note c = CreateTemp_ok [OF accepted(6) o]
    have cwd: "cwd d = cwd (disk s)" using accepted(5) by (simp add: same_disk_def)
    have path: "os_path (disk s') = os_path d" "os_path d = os_path (disk s)"
      using c(9) cwd by (auto intro: os_path_cwd)
    have new: "transfer_ok (disk s') \<lparr>finalPath = DestinationPath p, tempPath = Name tmp, tempFile = tmp, hashed = [],
          expected = req, bodyWritten = False, bytesWritten = 0\<rparr>"
      using plan accepted(3) c(6,7) hidden_CreateTemp [OF accepted(6) o] path
      by (auto simp: transfer_ok_def visible_plan_def)
    have "transfers_ok s'"
      unfolding transfers_ok_def
    proof (intro conjI allI impI)
      show "os_ok (disk s')" by (rule t(1))
      show "transfer_ok (disk s') inc" if "incoming s' tid = Some inc" for tid inc
        using that new t(2) [of tid inc] accepted(7) by (auto split: if_splits)
      show "t1 = t2" if "incoming s' t1 = Some i1" "incoming s' t2 = Some i2" "inode (tempFile i1) = inode (tempFile i2)"
        for t1 t2 i1 i2
        using that t(2) [of t1 i1] t(2) [of t2 i2] ok accepted(7) by (auto simp: transfers_ok_def split: if_splits)
    qed
    moreover have "same_file (disk s) (disk s') k" if "\<not> hidden k" for k
      using same_file_trans [OF same_disk_file [OF accepted(5)]] t(3) [OF that] by simp
    ultimately show ?thesis using c(9) cwd by simp
  qed
  then show "transfers_ok s'" "cwd (disk s') = cwd (disk s)" "\<not> hidden k \<Longrightarrow> same_file (disk s) (disk s') k" by auto
qed


lemma body_stored_ok:
  assumes ok: "transfers_ok s" and b: "body_stored err s s'"
  shows "transfers_ok s'" "cwd (disk s') = cwd (disk s)" "\<not> hidden k \<Longrightarrow> same_file (disk s) (disk s') k"
proof -
  from b obtain c d tid inc f inc' payload where s': "s' = s\<lparr>input := c, disk := d, incoming := (incoming s)(tid \<mapsto> inc')\<rparr>"
    and inc: "incoming s tid = Some inc" "\<not> bodyWritten inc" "f = tempFile inc" and only: "only_file (inode f) (disk s) d"
    and inc': "finalPath inc' = finalPath inc" "tempPath inc' = tempPath inc" "tempFile inc' = f\<lparr>is_open := False\<rparr>"
      "bodyWritten inc' \<longleftrightarrow> err = None"
    and done_ok: "err = None \<longrightarrow> is_open f \<and> hashed inc' = hashed inc @ payload \<and> content d (inode f) = content (disk s) (inode f) @ payload
             \<and> bytesWritten inc' = int (length payload)"
    unfolding body_stored_def by blast
  have ti: "transfer_ok (disk s) inc" using ok inc(1) by (auto simp: transfers_ok_def)
  have cwd: "cwd d = cwd (disk s)" and dir: "dirent d = dirent (disk s)" and nxt: "nextInode d = nextInode (disk s)"
    using only by (simp_all add: only_file_def)
  note path = os_path_cwd [OF cwd]
  show "cwd (disk s') = cwd (disk s)" using s' cwd by simp
  have new: "transfer_ok d inc'"
    using ti inc(3) inc' done_ok path dir by (auto simp: transfer_ok_def)
  have other: "transfer_ok d i" if "incoming s t = Some i" "t \<noteq> tid" for t i
  proof -
    have "transfer_ok (disk s) i" "inode (tempFile i) \<noteq> inode f" using ok that inc by (auto simp: transfers_ok_def)
    then show ?thesis using only path dir by (simp add: transfer_ok_def only_file_def)
  qed
  show "transfers_ok s'"
    unfolding transfers_ok_def
  proof (intro conjI allI impI)
    have "os_ok (disk s)" using ok by (simp add: transfers_ok_def)
    then show "os_ok (disk s')" using s' cwd dir nxt by (simp add: os_ok_def)
    show "transfer_ok (disk s') i" if "incoming s' t = Some i" for t i
      using that new other s' by (auto split: if_splits)
    show "t1 = t2" if "incoming s' t1 = Some i1" "incoming s' t2 = Some i2" "inode (tempFile i1) = inode (tempFile i2)" for t1 t2 i1 i2
      using that ok inc inc' s' by (auto simp: transfers_ok_def split: if_splits)
  qed
  assume "\<not> hidden k"
  moreover have "hidden (os_path (disk s) (tempPath inc))" "dirent (disk s) (os_path (disk s) (tempPath inc)) = Some (inode f)"
    using ti inc(3) by (simp_all add: transfer_ok_def)
  ultimately have "dirent (disk s) k \<noteq> Some (inode f)"
    using ok unfolding transfers_ok_def os_ok_def by blast
  then show "same_file (disk s) (disk s') k" using s' only by (auto simp: same_file_def only_file_def)
qed

text \<open>What a commit does, by its result.\<close>

definition verified :: "FileTransferRequest \<Rightarrow> byte list \<Rightarrow> bool" where
  "verified req c \<longleftrightarrow> int (length c) = reqSize req
     \<and> (reqSHA256 req = '''' \<or> EqualFold (hex_EncodeToString (sha256_Sum c)) (reqSHA256 req))"

lemma handleCommit_cases:
  assumes "handleCommit ctx req s = (res, s')"
  obtains (unknown) "\<not> OK res" "incoming s (commitTransferID req) = None" "s' = s"
  | (failed) inc d e where "\<not> OK res" "incoming s (commitTransferID req) = Some inc" "same_disk (disk s) d"
      "os_Remove (tempPath inc) d = (e, disk s')" "incoming s' = (incoming s)(commitTransferID req := None)"
  | (published) inc where "OK res" "incoming s (commitTransferID req) = Some inc" "bodyWritten inc"
      "bytesWritten inc = reqSize (expected inc)"
      "reqSHA256 (expected inc) = '''' \<or> EqualFold (hex_EncodeToString (sha256_Sum (hashed inc))) (reqSHA256 (expected inc))"
      "os_Rename (tempPath inc) (finalPath inc) (disk s) = (None, disk s')"
      "incoming s' = (incoming s)(commitTransferID req := None)"
      "resSize res = bytesWritten inc" "resSHA256 res = hex_EncodeToString (sha256_Sum (hashed inc))"
proof (cases "incoming s (commitTransferID req)")
  case None
  with assms show thesis by (intro unknown) (auto simp: handleCommit_def Let_def)
next
  case (Some inc)
  let ?r = "\<lparr>resTransferID = commitTransferID req, OK = False, resSize = 0, resSHA256 = '''', resError = ''''\<rparr>"
  obtain r d where c: "commit_transfer inc ?r (disk s) = (r, d)" by (cases "commit_transfer inc ?r (disk s)")
  have s': "res = r" "s' = s\<lparr>incoming := (incoming s)(commitTransferID req := None),
      disk := (if OK r then d else snd (os_Remove (tempPath inc) d))\<rparr>"
    using assms Some c by (auto simp: handleCommit_def Let_def)
  show thesis
  proof (cases "OK r")
    case True
    with c show thesis
      by (intro published [of inc])
         (use Some s' in \<open>auto simp: commit_transfer_def Let_def split: if_splits prod.splits option.splits\<close>)
  next
    case False
    with c have "same_disk (disk s) d"
      by (auto simp: commit_transfer_def Let_def same_disk_def split: if_splits prod.splits option.splits dest: os_Rename_error)
    moreover obtain e d1 where "os_Remove (tempPath inc) d = (e, d1)" by (cases "os_Remove (tempPath inc) d")
    ultimately show thesis using failed [of inc d e] Some s' False by simp
  qed
qed

text \<open>Forgetting a transfer whose temporary file is gone.\<close>

lemma forget_transfer_ok:
  assumes ok: "transfers_ok s" and inc: "incoming s tid = Some inc"
    and d: "cwd d = cwd (disk s)" "content d = content (disk s)" "nextInode d = nextInode (disk s)" "os_ok d"
    and entries: "\<And>k i. dirent (disk s) k = Some i \<Longrightarrow> hidden k \<Longrightarrow> k \<noteq> os_path (disk s) (tempPath inc) \<Longrightarrow> dirent d k = Some i"
    and s': "incoming s' = (incoming s)(tid := None)" "disk s' = d"
  shows "transfers_ok s'"
  unfolding transfers_ok_def
proof (intro conjI allI impI)
  show "os_ok (disk s')" using d(4) s'(2) by simp
  show "t1 = t2" if "incoming s' t1 = Some i1" "incoming s' t2 = Some i2" "inode (tempFile i1) = inode (tempFile i2)" for t1 t2 i1 i2
    using that ok s' by (auto simp: transfers_ok_def split: if_splits)
  fix t i
  assume "incoming s' t = Some i"
  then have i: "incoming s t = Some i" "t \<noteq> tid" using s' by (auto split: if_splits)
  have ti: "transfer_ok (disk s) i" "transfer_ok (disk s) inc" using ok i inc by (auto simp: transfers_ok_def)
  have "inode (tempFile i) \<noteq> inode (tempFile inc)" using ok i inc by (auto simp: transfers_ok_def)
  with ti have "os_path (disk s) (tempPath i) \<noteq> os_path (disk s) (tempPath inc)" by (auto simp: transfer_ok_def)
  with ti(1) entries have "dirent d (os_path (disk s) (tempPath i)) = Some (inode (tempFile i))" by (simp add: transfer_ok_def)
  with ti(1) d(2) os_path_cwd [OF d(1)] s'(2) show "transfer_ok (disk s') i" by (simp add: transfer_ok_def)
qed


lemma handleCommit_ok:
  assumes ok: "transfers_ok s" and h: "handleCommit ctx req s = (res, s')"
  shows "transfers_ok s'" "cwd (disk s') = cwd (disk s)"
    "\<not> hidden k \<Longrightarrow> same_file (disk s) (disk s') k
       \<or> (\<exists>inc. incoming s (commitTransferID req) = Some inc \<and> OK res \<and> k = os_path (disk s) (finalPath inc)
            \<and> os_file (disk s') k = Some (hashed inc) \<and> verified (expected inc) (hashed inc))"
proof -
  have "transfers_ok s' \<and> cwd (disk s') = cwd (disk s) \<and>
     (\<forall>k. \<not> hidden k \<longrightarrow> same_file (disk s) (disk s') k
       \<or> (\<exists>inc. incoming s (commitTransferID req) = Some inc \<and> OK res \<and> k = os_path (disk s) (finalPath inc)
            \<and> os_file (disk s') k = Some (hashed inc) \<and> verified (expected inc) (hashed inc)))"
    using h
  proof (cases rule: handleCommit_cases)
    case unknown
    with ok show ?thesis by simp
  next
    case (failed inc d e)
    have o: "os_ok d" using ok failed(3) by (simp add: transfers_ok_def same_disk_ok)
    note r = os_Remove_facts [OF failed(4)]
    have cwd: "cwd d = cwd (disk s)" and dir: "dirent d = dirent (disk s)" and con: "content d = content (disk s)" and nxt: "nextInode d = nextInode (disk s)"
      using failed(3) by (simp_all add: same_disk_def)
    note path = os_path_cwd [OF cwd]
    have entry: "k \<noteq> os_path (disk s) (tempPath inc) \<Longrightarrow> dirent (disk s') k = dirent (disk s) k" for k
      using r(4) dir path by auto
    have sub: "dirent (disk s') k = Some i \<Longrightarrow> dirent (disk s) k = Some i" for k i
      using r(4) dir by (auto split: if_splits)
    have o': "os_ok (disk s')" using o r(1,3) sub dir by (auto simp: os_ok_def)
    have "transfers_ok s'"
      by (rule forget_transfer_ok [OF ok failed(2), where d = "disk s'"])
         (use r(1-3) cwd con nxt o' entry failed(5) in simp_all)
    moreover have "same_file (disk s) (disk s') k" if "\<not> hidden k" for k
    proof -
      have "hidden (os_path (disk s) (tempPath inc))" using ok failed(2) by (auto simp: transfers_ok_def transfer_ok_def)
      with that entry [of k] r(2) con show ?thesis by (auto simp: same_file_def)
    qed
    ultimately show ?thesis using r(1) cwd by simp
  next
    case (published inc)
    have ti: "transfer_ok (disk s) inc" using ok published(2) by (auto simp: transfers_ok_def)
    let ?t = "os_path (disk s) (tempPath inc)" and ?k = "os_path (disk s) (finalPath inc)" and ?i = "inode (tempFile inc)"
    note r = os_Rename_ok [OF published(6)]
    have ne: "?t \<noteq> ?k" and t: "dirent (disk s) ?t = Some ?i" using ti by (auto simp: transfer_ok_def)
    have dir: "dirent (disk s') = (dirent (disk s))(?t := None, ?k \<mapsto> ?i)" using r(4) ne t by auto
    have o: "os_ok (disk s)" using ok by (simp add: transfers_ok_def)
    have o': "os_ok (disk s')"
      using o r(1,3) t unfolding os_ok_def dir by (auto split: if_splits)
    have "transfers_ok s'"
      by (rule forget_transfer_ok [OF ok published(2), where d = "disk s'"])
         (use r(1-3) o' dir ti published(7) in \<open>auto simp: transfer_ok_def\<close>)
    moreover have "os_file (disk s') ?k = Some (hashed inc)" "verified (expected inc) (hashed inc)"
      using ti published(3-5) r(2) dir by (auto simp: os_file_def transfer_ok_def verified_def)
    moreover have "same_file (disk s) (disk s') k" if "\<not> hidden k" "k \<noteq> ?k" for k
      using that dir r(2) ti by (auto simp: same_file_def transfer_ok_def)
    ultimately show ?thesis using published(1,2) r(1) by blast
  qed
  then show "transfers_ok s'" "cwd (disk s') = cwd (disk s)"
    "\<not> hidden k \<Longrightarrow> same_file (disk s) (disk s') k
       \<or> (\<exists>inc. incoming s (commitTransferID req) = Some inc \<and> OK res \<and> k = os_path (disk s) (finalPath inc)
            \<and> os_file (disk s') k = Some (hashed inc) \<and> verified (expected inc) (hashed inc))" by auto
qed

section \<open>Runs\<close>

text \<open>
  A run of the receiver: requests, bodies and commits in any order, with any contents and on any connection, and
  registrations of a new receiver function in between.
\<close>

datatype 'p transfer_op =
    Offer ctx FileTransferRequest
  | Body ctx message conn
  | Commit ctx FileTransferCommit
  | Register "'p option"

inductive transfer_run ::
  "('p \<Rightarrow> ctx \<Rightarrow> FileTransferRequest \<Rightarrow> FileTransferPlan result) \<Rightarrow> ('p, 'm) transfer_peer_scheme
     \<Rightarrow> 'p transfer_op list \<Rightarrow> ('p, 'm) transfer_peer_scheme \<Rightarrow> bool" for plan s where
  run_nil: "transfer_run plan s [] s"
| run_open: "transfer_run plan s ops s1 \<Longrightarrow> handleOpen plan ctx req s1 = (resp, s2) \<Longrightarrow>
     transfer_run plan s (ops @ [Offer ctx req]) s2"
| run_body: "transfer_run plan s ops s1 \<Longrightarrow> handleBody ctx msg (s1\<lparr>input := c\<rparr>) = Some (err, msg', s2) \<Longrightarrow>
     transfer_run plan s (ops @ [Body ctx msg c]) s2"
| run_commit: "transfer_run plan s ops s1 \<Longrightarrow> handleCommit ctx req s1 = (res, s2) \<Longrightarrow>
     transfer_run plan s (ops @ [Commit ctx req]) s2"
| run_register: "transfer_run plan s ops s1 \<Longrightarrow>
     transfer_run plan s (ops @ [Register h]) (FileTransfer_OnReceive (Some f) h s1)"

text \<open>A request that was made in a run and that a plan sends to the path \<open>k\<close>.\<close>

definition offered :: "('p \<Rightarrow> ctx \<Rightarrow> FileTransferRequest \<Rightarrow> FileTransferPlan result) \<Rightarrow> os \<Rightarrow> 'p transfer_op list
    \<Rightarrow> FileTransferRequest \<Rightarrow> string \<Rightarrow> bool" where
  "offered plan d ops req k \<longleftrightarrow>
     (\<exists>h ctx p. Offer ctx req \<in> set ops \<and> plan h ctx req = Inr p \<and> os_path d (DestinationPath p) = k)"

lemma offered_mono: "offered plan d ops req k \<Longrightarrow> offered plan d (ops @ ops') req k"
  by (auto simp: offered_def)

lemma handleOpen_incoming:
  assumes "handleOpen plan ctx req s = (resp, s')" and "incoming s' tid = Some inc"
  shows "incoming s tid = Some inc \<or> expected inc = req \<and> (\<exists>h p. plan h ctx req = Inr p \<and> finalPath inc = DestinationPath p)"
  using assms(1)
proof (cases rule: handleOpen_cases)
  case refused
  with assms(2) show ?thesis by simp
next
  case (accepted h p d tmp)
  have "incoming s tid = Some inc \<or> expected inc = req \<and> finalPath inc = DestinationPath p"
    using accepted(7) assms(2) by (auto split: if_splits)
  then show ?thesis
  proof
    assume "expected inc = req \<and> finalPath inc = DestinationPath p"
    with accepted(3) show ?thesis by (intro disjI2 conjI exI [of _ h] exI [of _ p]) simp_all
  qed simp
qed

lemma handleBody_incoming:
  assumes "handleBody ctx msg s = Some (err, msg', s')" and "incoming s' tid = Some inc"
  shows "\<exists>inc0. incoming s tid = Some inc0 \<and> expected inc = expected inc0 \<and> finalPath inc = finalPath inc0"
  using handleBody_spec [of ctx msg s] assms by (auto simp: body_failed_def body_stored_def split: if_splits)

lemma handleCommit_incoming:
  assumes "handleCommit ctx req s = (res, s')" and "incoming s' tid = Some inc"
  shows "incoming s tid = Some inc"
  using assms(1) by (cases rule: handleCommit_cases) (use assms(2) in \<open>auto split: if_splits\<close>)

lemma handleBody_ok:
  assumes ok: "transfers_ok s" and h: "handleBody ctx msg (s\<lparr>input := c\<rparr>) = Some (err, msg', s')"
  shows "transfers_ok s'" "cwd (disk s') = cwd (disk s)" "\<not> hidden k \<Longrightarrow> same_file (disk s) (disk s') k"
proof -
  let ?s = "s\<lparr>input := c\<rparr>"
  have ok1: "transfers_ok ?s" by (rule transfers_ok_cong [OF ok]) simp_all
  from handleBody_spec [of ctx msg ?s] h consider "body_failed ?s s'" | "body_stored err ?s s'" by auto
  then have "transfers_ok s' \<and> cwd (disk s') = cwd (disk s) \<and> (\<not> hidden k \<longrightarrow> same_file (disk s) (disk s') k)"
  proof cases
    case 1
    then obtain c' where "s' = s\<lparr>input := c'\<rparr>" by (auto simp: body_failed_def)
    then show ?thesis using transfers_ok_cong [OF ok, of s'] by simp
  next
    case 2
    from body_stored_ok [OF ok1 2] show ?thesis by simp
  qed
  then show "transfers_ok s'" "cwd (disk s') = cwd (disk s)" "\<not> hidden k \<Longrightarrow> same_file (disk s) (disk s') k" by auto
qed

text \<open>What holds after every run.\<close>

definition run_inv ::
  "('p \<Rightarrow> ctx \<Rightarrow> FileTransferRequest \<Rightarrow> FileTransferPlan result) \<Rightarrow> ('p, 'm) transfer_peer_scheme
     \<Rightarrow> 'p transfer_op list \<Rightarrow> ('p, 'm) transfer_peer_scheme \<Rightarrow> bool" where
  "run_inv plan s ops s' \<longleftrightarrow> transfers_ok s' \<and> cwd (disk s') = cwd (disk s)
     \<and> (\<forall>tid inc. incoming s' tid = Some inc \<longrightarrow> offered plan (disk s) ops (expected inc) (os_path (disk s) (finalPath inc)))
     \<and> (\<forall>k. \<not> hidden k \<longrightarrow> os_file (disk s') k = os_file (disk s) k
          \<or> (\<exists>req c. offered plan (disk s) ops req k \<and> os_file (disk s') k = Some c \<and> verified req c))"

lemma run_inv_step:
  assumes inv: "run_inv plan s ops s1" and "transfers_ok s2" and "cwd (disk s2) = cwd (disk s1)"
    and inc: "\<And>tid inc. incoming s2 tid = Some inc \<Longrightarrow>
        (\<exists>inc0. incoming s1 tid = Some inc0 \<and> expected inc = expected inc0 \<and> finalPath inc = finalPath inc0)
        \<or> offered plan (disk s) (ops @ [op]) (expected inc) (os_path (disk s) (finalPath inc))"
    and files: "\<And>k. \<not> hidden k \<Longrightarrow> same_file (disk s1) (disk s2) k
        \<or> (\<exists>tid inc c. incoming s1 tid = Some inc \<and> k = os_path (disk s1) (finalPath inc)
             \<and> os_file (disk s2) k = Some c \<and> verified (expected inc) c)"
  shows "run_inv plan s (ops @ [op]) s2"
proof -
  have cwd: "cwd (disk s1) = cwd (disk s)" and old: "\<And>tid inc. incoming s1 tid = Some inc \<Longrightarrow>
      offered plan (disk s) (ops @ [op]) (expected inc) (os_path (disk s) (finalPath inc))"
    using inv by (auto simp: run_inv_def intro: offered_mono)
  have "os_file (disk s2) k = os_file (disk s) k
      \<or> (\<exists>req c. offered plan (disk s) (ops @ [op]) req k \<and> os_file (disk s2) k = Some c \<and> verified req c)" if k: "\<not> hidden k" for k
    using files [OF k]
  proof
    assume "same_file (disk s1) (disk s2) k"
    from same_file_os_file [OF this] inv k show ?thesis unfolding run_inv_def by (metis offered_mono)
  next
    assume "\<exists>tid inc c. incoming s1 tid = Some inc \<and> k = os_path (disk s1) (finalPath inc)
        \<and> os_file (disk s2) k = Some c \<and> verified (expected inc) c"
    with old os_path_cwd [OF cwd] show ?thesis by metis
  qed
  moreover have "offered plan (disk s) (ops @ [op]) (expected inc) (os_path (disk s) (finalPath inc))"
    if "incoming s2 tid = Some inc" for tid inc
    using inc [OF that] old by auto
  ultimately show ?thesis using assms(2,3) cwd by (simp add: run_inv_def)
qed

lemma transfer_run_inv:
  assumes "transfers_ok s" and "\<forall>tid. incoming s tid = None" and "visible_plan plan (disk s)"
  shows "transfer_run plan s ops s' \<Longrightarrow> run_inv plan s ops s'"
proof (induction rule: transfer_run.induct)
  case run_nil
  with assms show ?case by (simp add: run_inv_def)
next
  case (run_open ops s1 ctx req resp s2)
  then have ok: "transfers_ok s1" "cwd (disk s1) = cwd (disk s)" by (simp_all add: run_inv_def)
  then have "visible_plan plan (disk s1)" using assms(3) os_path_cwd [OF ok(2)] by (simp add: visible_plan_def)
  note h = handleOpen_ok [OF ok(1) this run_open(2)]
  show ?case
  proof (rule run_inv_step [OF run_open(3) h(1,2)])
    fix tid inc
    assume "incoming s2 tid = Some inc"
    from handleOpen_incoming [OF run_open(2) this]
    show "(\<exists>inc0. incoming s1 tid = Some inc0 \<and> expected inc = expected inc0 \<and> finalPath inc = finalPath inc0)
        \<or> offered plan (disk s) (ops @ [Offer ctx req]) (expected inc) (os_path (disk s) (finalPath inc))"
    proof
      assume new: "expected inc = req \<and> (\<exists>h p. plan h ctx req = Inr p \<and> finalPath inc = DestinationPath p)"
      then obtain h p where "plan h ctx req = Inr p" "finalPath inc = DestinationPath p" by blast
      with new show ?thesis
        by (intro disjI2) (simp add: offered_def, intro exI [of _ h] exI [of _ ctx] exI [of _ p], simp)
    qed auto
  qed (use h(3) in blast)
next
  case (run_body ops s1 ctx msg c err msg' s2)
  then have ok: "transfers_ok s1" by (simp add: run_inv_def)
  note h = handleBody_ok [OF ok run_body(2)]
  show ?case
  proof (rule run_inv_step [OF run_body(3) h(1,2)])
    fix tid inc
    assume "incoming s2 tid = Some inc"
    with handleBody_incoming [OF run_body(2)]
    show "(\<exists>inc0. incoming s1 tid = Some inc0 \<and> expected inc = expected inc0 \<and> finalPath inc = finalPath inc0)
        \<or> offered plan (disk s) (ops @ [Body ctx msg c]) (expected inc) (os_path (disk s) (finalPath inc))"
      by simp
  qed (use h(3) in blast)
next
  case (run_commit ops s1 ctx req res s2)
  then have ok: "transfers_ok s1" by (simp add: run_inv_def)
  note h = handleCommit_ok [OF ok run_commit(2)]
  show ?case
    by (rule run_inv_step [OF run_commit(3) h(1,2)]) (use handleCommit_incoming [OF run_commit(2)] h(3) in \<open>blast+\<close>)
next
  case (run_register ops s1 h f)
  then have ok: "transfers_ok s1" by (simp add: run_inv_def)
  have "transfers_ok (FileTransfer_OnReceive (Some f) h s1)"
    by (rule transfers_ok_cong [OF ok]) (simp_all add: FileTransfer_OnReceive_def)
  then show ?case
    by (rule run_inv_step [OF run_register(2)]) (auto simp: FileTransfer_OnReceive_def)
qed


text \<open>The name that the next temporary file for a destination will have.\<close>

definition temp_name :: "os \<Rightarrow> string \<Rightarrow> string" where
  "temp_name d dest =
     (if path_Dir dest \<noteq> [] \<and> last (path_Dir dest) = CHR ''/'' then path_Dir dest else path_Dir dest @ ''/'')
     @ (''.'' @ path_Base dest @ ''.part-'') @ itoa (unat (rolls d (rolled d)))"

lemma path_Base_no_slash:
  assumes "path_Base p \<noteq> ''/''"
  shows "CHR ''/'' \<notin> set (path_Base p)"
proof (cases "p = '''' \<or> strip_trailing p = ''''")
  case True
  with assms show ?thesis by (auto simp: path_Base_def split: if_splits)
next
  case False
  have "last (split_slash (strip_trailing p)) \<in> set (split_slash (strip_trailing p))" by simp
  from split_slash_no_slash_in [OF this] False show ?thesis by (simp add: path_Base_def)
qed


section \<open>On a healthy disk\<close>

lemma healthy_copy:
  assumes "faults d = []" and "is_open f" and "payload_fin l = LibE EOF"
  shows "\<exists>l' d'. io_Copy payload_read (body_write f) l (d, h) = Some (length (payload_avail l), None, l', (d', h @ payload_avail l))
    \<and> faults d' = []"
proof -
  have wr: "fst (body_write f w bs) = None \<and> faults (fst (snd (body_write f w bs))) = [] \<and> snd (snd (body_write f w bs)) = snd w @ bs"
    if "faults (fst w) = []" for w bs
    using that assms(2) by (simp add: body_write_def file_Write_def sys_healthy)
  obtain l' w' where "io_Copy payload_read (body_write f) l (d, h) = Some (length (payload_avail l), None, l', w')"
    "faults (fst w') = []" "snd w' = h @ payload_avail l"
    using payload.copy_loop_willing_writer [where Q = "\<lambda>w. faults (fst w) = []" and wr = "body_write f" and out = snd
        and k = 32768 and s = l and w = "(d, h)" and written = 0] wr assms(1,3)
    by (auto simp: io_Copy_def)
  then show ?thesis by (cases w') auto
qed

lemma healthy_open:
  assumes "faults (disk s) = []" and "onReceive s = Some h" and "plan h ctx req = Inr p"
    and "reqTransferID req \<noteq> ''''" and "0 \<le> reqSize req" and "incoming s (reqTransferID req) = None"
    and "DestinationPath p \<noteq> ''''" and "path_Base (DestinationPath p) \<noteq> ''/''"
    and "dirent (disk s) (os_path (disk s) (temp_name (disk s) (DestinationPath p))) = None"
  shows "\<exists>resp s'. handleOpen plan ctx req s = (resp, s') \<and> Accepted resp \<and> faults (disk s') = []"
proof -
  let ?d = "path_Dir (DestinationPath p)" and ?pre = "''.'' @ path_Base (DestinationPath p) @ ''.part-''"
  have ns: "CHR ''/'' \<notin> set ?pre" using path_Base_no_slash [OF assms(8)] by simp
  have m: "os_MkdirAll ?d (disk s) = (None, disk s)" by (simp add: os_MkdirAll_def sys_healthy assms(1))
  obtain tmp d' where "create_temp_try (Suc 9999) ((if ?d \<noteq> [] \<and> last ?d = CHR ''/'' then ?d else ?d @ ''/'') @ ?pre) (disk s) = (Inr tmp, d')"
    "faults d' = []"
    using create_temp_healthy [OF assms(1), of "(if ?d \<noteq> [] \<and> last ?d = CHR ''/'' then ?d else ?d @ ''/'') @ ?pre" 9999] assms(9)
    unfolding temp_name_def append_assoc by blast
  then have c: "os_CreateTemp ?d ?pre (disk s) = (Inr tmp, d')"
    using ns by (simp add: os_CreateTemp_def del: create_temp_try.simps)
  show ?thesis
    using m c \<open>faults d' = []\<close> assms(2-7) by (simp add: handleOpen_def Let_def)
qed


lemma healthy_body:
  assumes "faults (disk s) = []" and "incoming s tid = Some inc" and "\<not> bodyWritten inc" and "is_open (tempFile inc)"
    and "encodeTransferBodyHeader tid = Inr header" and "message_Reader (Some msg) = Some (r, N)"
    and "payload_avail ((r, c), N) = header @ payload" and "payload_fin ((r, c), N) = LibE EOF"
    and b: "handleBody ctx msg (s\<lparr>input := c\<rparr>) = Some (err, msg', s')"
  shows "err = None" "faults (disk s') = []"
    "\<exists>f. incoming s' tid = Some (inc\<lparr>tempFile := f, hashed := hashed inc @ payload, bytesWritten := int (length payload), bodyWritten := True\<rparr>)"
proof -
  obtain l1 where d: "decodeTransferBodyHeader payload_read ((r, c), N) = Some (Inr tid, l1)"
    and l1: "payload_avail l1 = payload" "payload_fin l1 = LibE EOF"
    using payload.decode_encoded_header [OF assms(5,7)] assms(8) by auto
  obtain r1 c1 N1 where l: "l1 = ((r1, c1), N1)" by (metis prod.exhaust)
  obtain l2 d2 where cp: "io_Copy payload_read (body_write (tempFile inc)) l1 (disk s, hashed inc)
      = Some (length payload, None, l2, (d2, hashed inc @ payload))" and d2: "faults d2 = []"
    using healthy_copy [OF assms(1,4) l1(2), of "hashed inc"] l1(1) by blast
  obtain r2 c2 N2 where l2: "l2 = ((r2, c2), N2)" by (metis prod.exhaust)
  have cl: "file_Close (tempFile inc) d2 = (None, (tempFile inc)\<lparr>is_open := False\<rparr>, d2)"
    using assms(4) d2 by (simp add: file_Close_def sys_healthy)
  let ?inc = "inc\<lparr>tempFile := (tempFile inc)\<lparr>is_open := False\<rparr>, hashed := hashed inc @ payload, bytesWritten := int (length payload), bodyWritten := True\<rparr>"
  have "handleBody ctx msg (s\<lparr>input := c\<rparr>) = Some (None, msg\<lparr>payloadReader := Some (r2, N2)\<rparr>,
      s\<lparr>input := c2, disk := d2, incoming := (incoming s)(tid \<mapsto> ?inc)\<rparr>)"
    using assms(2,3) by (simp add: handleBody_def Let_def assms(6) d [unfolded l] cp [unfolded l l2] cl)
  from this [unfolded b, symmetric] have e: "err = None"
    and s': "s' = s\<lparr>input := c2, disk := d2, incoming := (incoming s)(tid \<mapsto> ?inc)\<rparr>"
    by (simp_all only: option.inject prod.inject)
  show "err = None" by (rule e)
  show "faults (disk s') = []" using d2 s' by simp
  show "\<exists>f. incoming s' tid = Some (inc\<lparr>tempFile := f, hashed := hashed inc @ payload, bytesWritten := int (length payload), bodyWritten := True\<rparr>)"
    by (rule exI [of _ "(tempFile inc)\<lparr>is_open := False\<rparr>"]) (simp add: s')
qed

section \<open>Properties\<close>

text \<open>
  the header of a body round-trips: what \<^verbatim>\<open>encodeTransferBodyHeader\<close> writes, \<^verbatim>\<open>decodeTransferBodyHeader\<close>
  reads back from a connection in any segmentation, and it leaves the reader at the first byte after the header.
\<close>

theorem body_header_roundtrip:
  assumes "encodeTransferBodyHeader tid = Inr header" and "conn_avail c = header @ rest"
  shows "\<exists>c'. decodeTransferBodyHeader conn_read c = Some (Inr tid, c') \<and> conn_avail c' = rest \<and> conn_fin c' = conn_fin c"
  by (rule conn.decode_encoded_header [OF assms])

theorem body_header_roundtrip_witness:
  "\<exists>c'. decodeTransferBodyHeader conn_read ([[0], [2, 97], [98, 7]], LibE EOF) = Some (Inr ''ab'', c') \<and> conn_avail c' = [7]"
proof -
  have "bytes_of ''ab'' = [97, 98]" by (simp add: bytes_of_def)
  moreover have "PutUint16 2 = [0, 2]" by code_simp
  ultimately have "encodeTransferBodyHeader ''ab'' = Inr [0, 2, 97, 98]"
    by (simp add: encodeTransferBodyHeader_def)
  from body_header_roundtrip [OF this, of "([[0], [2, 97], [98, 7]], LibE EOF)" "[7]"] show ?thesis by auto
qed

text \<open>
  C15: only verified files are published: after any sequence of offers, bodies and commits, with any contents and any
  failures of the disk, a file at a visible path is what it was before, or there was an offer for this
  path and the file has the size and, unless the offer left it out, the checksum of the offer.
\<close>

theorem published_files_are_verified:
  assumes "transfers_ok s" and "\<forall>tid. incoming s tid = None" and "visible_plan plan (disk s)"
    and "transfer_run plan s ops s'" and "\<not> hidden k"
  shows "os_file (disk s') k = os_file (disk s) k
    \<or> (\<exists>req c. offered plan (disk s) ops req k \<and> os_file (disk s') k = Some c \<and> verified req c)"
  using transfer_run_inv [OF assms(1-4)] assms(5) by (simp add: run_inv_def)

text \<open>
  C18: a commit that does not succeed forgets the transfer and leaves every file but its temporary one as
  it was, whatever the reason.
\<close>

theorem failed_commit_changes_nothing:
  assumes "handleCommit ctx req s = (res, s')" and "\<not> OK res"
  shows "incoming s' (commitTransferID req) = None
    \<and> (\<forall>k. same_file (disk s) (disk s') k \<or> (\<exists>inc. incoming s (commitTransferID req) = Some inc \<and> k = os_path (disk s) (tempPath inc)))"
  using assms(1)
proof (cases rule: handleCommit_cases)
  case unknown
  then show ?thesis by simp
next
  case (failed inc d e)
  note r = os_Remove_facts [OF failed(4)]
  have d: "dirent d = dirent (disk s)" "content d = content (disk s)" "os_path d = os_path (disk s)"
    using failed(3) by (auto simp: same_disk_def intro: os_path_cwd)
  have "same_file (disk s) (disk s') k" if "k \<noteq> os_path (disk s) (tempPath inc)" for k
    using r(2,4) d that by (auto simp: same_file_def)
  with failed(2,5) show ?thesis by auto
next
  case published
  with assms(2) show ?thesis by simp
qed

lemma transfer_succeeds:
  assumes "transfers_ok s" and "faults (disk s) = []" and "visible_plan plan (disk s)"
    and "onReceive s = Some h" and "plan h ctx req = Inr p"
    and "DestinationPath p \<noteq> ''''" and "path_Base (DestinationPath p) \<noteq> ''/''"
    and "dirent (disk s) (os_path (disk s) (temp_name (disk s) (DestinationPath p))) = None"
    and "incoming s (reqTransferID req) = None" and "encodeTransferBodyHeader (reqTransferID req) = Inr header"
    and "verified req payload"
    and "message_Reader (Some msg) = Some (r, N)" and "payload_avail ((r, c), N) = header @ payload" and "payload_fin ((r, c), N) = LibE EOF"
    and o: "handleOpen plan ctx req s = (resp, s1)"
    and b: "handleBody ctx msg (s1\<lparr>input := c\<rparr>) = Some (err, msg', s2)"
    and cm: "handleCommit ctx \<lparr>commitTransferID = reqTransferID req\<rparr> s2 = (res, s3)"
  shows "Accepted resp \<and> err = None \<and> OK res \<and> os_file (disk s3) (os_path (disk s) (DestinationPath p)) = Some payload"
proof -
  have id: "reqTransferID req \<noteq> ''''" using assms(10) by (auto simp: encodeTransferBodyHeader_def)
  have sz: "0 \<le> reqSize req" using assms(11) by (auto simp: verified_def)
  have acc: "Accepted resp" and f1: "faults (disk s1) = []"
    using healthy_open [where plan = plan and ctx = ctx and req = req, OF assms(2,4,5) id sz assms(9,6,7,8)] o by auto
  note ok1 = handleOpen_ok [OF assms(1,3) o]
  obtain tmp where i1: "incoming s1 (reqTransferID req) = Some \<lparr>finalPath = DestinationPath p, tempPath = Name tmp, tempFile = tmp,
      hashed = [], expected = req, bodyWritten = False, bytesWritten = 0\<rparr>" and op: "is_open tmp"
    using o
  proof (cases rule: handleOpen_cases)
    case (accepted h' p' d tmp)
    then have "p' = p" using assms(4,5) by auto
    moreover have "os_ok d" using accepted(5) assms(1) by (simp add: transfers_ok_def same_disk_ok)
    from CreateTemp_ok(3) [OF accepted(6) this] have "is_open tmp" .
    ultimately show thesis using that accepted(7) by auto
  qed (use acc in simp)
  note hb = healthy_body [OF f1 i1 _ _ assms(10,12,13,14) b]
  have e: "err = None" and f2: "faults (disk s2) = []" using hb(1,2) op by simp_all
  obtain f where i2: "incoming s2 (reqTransferID req) = Some \<lparr>finalPath = DestinationPath p, tempPath = Name tmp, tempFile = f,
      hashed = payload, expected = req, bodyWritten = True, bytesWritten = int (length payload)\<rparr>" (is "_ = Some ?inc")
    using hb(3) op by auto
  note ok2 = handleBody_ok [OF ok1(1) b]
  have cwd: "cwd (disk s2) = cwd (disk s)" using ok1(2) ok2(2) by simp
  have t: "transfer_ok (disk s2) ?inc" using ok2(1) i2 by (auto simp: transfers_ok_def)
  then obtain i where tmp: "dirent (disk s2) (os_path (disk s2) (Name tmp)) = Some i" by (auto simp: transfer_ok_def)
  have "OK (fst (commit_transfer ?inc \<lparr>resTransferID = reqTransferID req, OK = False, resSize = 0, resSHA256 = '''', resError = ''''\<rparr> (disk s2)))"
    using assms(11) f2 tmp by (auto simp: commit_transfer_def verified_def Let_def os_Rename_def sys_healthy)
  then have okr: "OK res" using cm i2 by (auto simp: handleCommit_def Let_def split: prod.splits)
  have "\<not> hidden (os_path (disk s2) (DestinationPath p))" using t by (simp add: transfer_ok_def)
  note ok3 = handleCommit_ok(3) [OF ok2(1) cm this]
  have "os_file (disk s3) (os_path (disk s2) (DestinationPath p)) = Some payload"
    using cm
  proof (cases rule: handleCommit_cases)
    case (published inc)
    then have inc: "inc = ?inc" using i2 by simp
    note r = os_Rename_ok [OF published(6)]
    have "os_path (disk s2) (Name tmp) \<noteq> os_path (disk s2) (DestinationPath p)" using t by (auto simp: transfer_ok_def)
    then show ?thesis using r(2,4) inc t by (auto simp: os_file_def transfer_ok_def)
  qed (use okr in simp_all)
  with os_path_cwd [OF cwd] acc e okr show ?thesis by simp
qed

text \<open>
  C17: a transfer goes through on a healthy disk: an offer with a destination, the body with the announced size and
  checksum in any segmentation, and the commit are all answered positively, and the destination then holds the payload.
\<close>

theorem transfer_delivers_file:
  assumes "transfers_ok s" and "faults (disk s) = []" and "visible_plan plan (disk s)"
    and "onReceive s = Some h" and "plan h ctx req = Inr p"
    and "DestinationPath p \<noteq> ''''" and "path_Base (DestinationPath p) \<noteq> ''/''"
    and "dirent (disk s) (os_path (disk s) (temp_name (disk s) (DestinationPath p))) = None"
    and "incoming s (reqTransferID req) = None" and "encodeTransferBodyHeader (reqTransferID req) = Inr header"
    and "verified req payload"
    and "message_Reader (Some msg) = Some (r, N)" and "payload_avail ((r, c), N) = header @ payload" and "payload_fin ((r, c), N) = LibE EOF"
    and "handleOpen plan ctx req s = (resp, s1)"
    and "handleBody ctx msg (s1\<lparr>input := c\<rparr>) = Some (err, msg', s2)"
    and "handleCommit ctx \<lparr>commitTransferID = reqTransferID req\<rparr> s2 = (res, s3)"
  shows "Accepted resp \<and> err = None \<and> OK res \<and> os_file (disk s3) (os_path (disk s) (DestinationPath p)) = Some payload"
  by (rule transfer_succeeds [OF assms])


text \<open>A receiver with an empty disk that puts every file at \<^verbatim>\<open>/a\<close>, and a transfer of two bytes, for the examples.\<close>

definition sample_disk :: os where
  "sample_disk = \<lparr>cwd = ''/'', dirent = (\<lambda>_. None), content = (\<lambda>_. []), nextInode = 0, special = (\<lambda>_. False),
     readEnd = (\<lambda>_. LibE EOF), faults = [], rolls = (\<lambda>_. 7), rolled = 0\<rparr>"

definition sample_receiver :: "nat transfer_peer" where
  "sample_receiver =
     \<lparr>config = config plain_messenger, connected = True, ackTable = no_acks, respTable = no_responses, wire = [], writes = [],
      polls = 0, events = [], receivers = (\<lambda>_. None), unknownMessageReceiver = None, input = ([], LibE EOF), delivered = [],
      spawned = [], receiverM = (\<lambda>_. None), handlerR = (\<lambda>_. None), incoming = (\<lambda>_. None), onReceive = Some 0, disk = sample_disk\<rparr>"

definition sample_plan :: "nat \<Rightarrow> ctx \<Rightarrow> FileTransferRequest \<Rightarrow> FileTransferPlan result" where
  "sample_plan h ctx req = Inr \<lparr>DestinationPath = ''/a''\<rparr>"

definition sample_request :: FileTransferRequest where
  "sample_request = \<lparr>reqTransferID = ''t'', reqName = ''a'', reqDestination = '''', reqSize = 2, reqSHA256 = ''''\<rparr>"

abbreviation sample_body :: conn where
  "sample_body \<equiv> ([[0, 1], [116, 7, 8]], LibE EOF)"

lemma sample_paths:
  "os_path d ''/a'' = ''/a''" "\<not> hidden ''/a''" "path_Dir ''/a'' = ''/''" "path_Base ''/a'' = ''a''"
  by (auto simp: os_path_def IsAbs_def Clean_def render_def clean_comps_def comps_def push_comp_def hidden_def path_Dir_def
      path_Base_def strip_trailing_def)

lemma sample_receiver_ok:
  "transfers_ok sample_receiver" "\<forall>tid. incoming sample_receiver tid = None" "faults (disk sample_receiver) = []"
  "visible_plan sample_plan (disk sample_receiver)" "onReceive sample_receiver = Some 0"
  "dirent (disk sample_receiver) k = None"
  by (auto simp: sample_receiver_def sample_disk_def transfers_ok_def os_ok_def IsAbs_def visible_plan_def sample_plan_def sample_paths)

lemma sample_header: "encodeTransferBodyHeader ''t'' = Inr [0, 1, 116]"
proof -
  have "bytes_of ''t'' = [116]" by (simp add: bytes_of_def)
  moreover have "PutUint16 1 = [0, 1]" by code_simp
  ultimately show ?thesis by (simp add: encodeTransferBodyHeader_def)
qed

lemma sample_payload: "payload_avail ((OnConn, sample_body), 5) = [0, 1, 116] @ [7, 8]" "payload_fin ((OnConn, sample_body), 5) = LibE EOF"
  by (simp_all add: payload_avail_def limited_avail_def payload_fin_def limited_fin_def)

lemma sample_message: "message_Reader (Some (conn_message 1 TypeFileTransferBody 5)) = Some (OnConn, 5)"
  by (simp add: message_Reader_def conn_message_def)

lemma sample_destination:
  "sample_plan 0 (\<lambda>_. None) sample_request = Inr \<lparr>DestinationPath = ''/a''\<rparr>"
  "DestinationPath \<lparr>DestinationPath = ''/a''\<rparr> \<noteq> ''''" "path_Base (DestinationPath \<lparr>DestinationPath = ''/a''\<rparr>) \<noteq> ''/''"
  by (simp_all add: sample_plan_def sample_paths)

lemma sample_offer:
  "incoming sample_receiver (reqTransferID sample_request) = None"
  "encodeTransferBodyHeader (reqTransferID sample_request) = Inr [0, 1, 116]" "verified sample_request [7, 8]"
  by (simp_all add: sample_receiver_ok(2) sample_request_def sample_header verified_def)

lemma sample_transfer:
  obtains resp s1 err msg' s2 res s3 where
    "handleOpen sample_plan (\<lambda>_. None) sample_request sample_receiver = (resp, s1)"
    "handleBody (\<lambda>_. None) (conn_message 1 TypeFileTransferBody 5) (s1\<lparr>input := sample_body\<rparr>) = Some (err, msg', s2)"
    "handleCommit (\<lambda>_. None) \<lparr>commitTransferID = ''t''\<rparr> s2 = (res, s3)"
    "Accepted resp" "err = None" "OK res" "os_file (disk s3) ''/a'' = Some [7, 8]"
proof -
  obtain resp s1 where 1: "handleOpen sample_plan (\<lambda>_. None) sample_request sample_receiver = (resp, s1)"
    by (cases "handleOpen sample_plan (\<lambda>_. None) sample_request sample_receiver")
  obtain err msg' s2 where 2: "handleBody (\<lambda>_. None) (conn_message 1 TypeFileTransferBody 5) (s1\<lparr>input := sample_body\<rparr>) = Some (err, msg', s2)"
    using handleBody_spec by blast
  obtain res s3 where 3: "handleCommit (\<lambda>_. None) \<lparr>commitTransferID = reqTransferID sample_request\<rparr> s2 = (res, s3)"
    by (cases "handleCommit (\<lambda>_. None) \<lparr>commitTransferID = reqTransferID sample_request\<rparr> s2")
  from transfer_succeeds [OF sample_receiver_ok(1,3,4,5) sample_destination sample_receiver_ok(6) sample_offer sample_message sample_payload 1 2 3]
  show thesis using that [OF 1 2 3 [unfolded sample_request_def FileTransferRequest.select_convs]] by (simp add: sample_paths)
qed

theorem transfer_delivers_file_witness:
  "\<exists>resp s1 msg' s2 res s3. handleOpen sample_plan (\<lambda>_. None) sample_request sample_receiver = (resp, s1)
    \<and> handleBody (\<lambda>_. None) (conn_message 1 TypeFileTransferBody 5) (s1\<lparr>input := sample_body\<rparr>) = Some (None, msg', s2)
    \<and> handleCommit (\<lambda>_. None) \<lparr>commitTransferID = ''t''\<rparr> s2 = (res, s3)
    \<and> OK res \<and> os_file (disk s3) ''/a'' = Some [7, 8]"
proof -
  obtain resp s1 err msg' s2 res s3 where t:
    "handleOpen sample_plan (\<lambda>_. None) sample_request sample_receiver = (resp, s1)"
    "handleBody (\<lambda>_. None) (conn_message 1 TypeFileTransferBody 5) (s1\<lparr>input := sample_body\<rparr>) = Some (err, msg', s2)"
    "handleCommit (\<lambda>_. None) \<lparr>commitTransferID = ''t''\<rparr> s2 = (res, s3)" by (rule sample_transfer)
  then have c: "handleCommit (\<lambda>_. None) \<lparr>commitTransferID = reqTransferID sample_request\<rparr> s2 = (res, s3)"
    by (simp add: sample_request_def)
  have "Accepted resp \<and> err = None \<and> OK res \<and> os_file (disk s3) (os_path (disk sample_receiver) (DestinationPath \<lparr>DestinationPath = ''/a''\<rparr>)) = Some [7, 8]"
    by (rule transfer_delivers_file [OF sample_receiver_ok(1,3,4,5) sample_destination sample_receiver_ok(6) sample_offer sample_message sample_payload t(1,2) c])
  with t show ?thesis by (auto simp: sample_paths)
qed

theorem published_files_are_verified_witness:
  "\<exists>s'. transfer_run sample_plan sample_receiver [Offer (\<lambda>_. None) sample_request, Body (\<lambda>_. None) (conn_message 1 TypeFileTransferBody 5) sample_body,
       Commit (\<lambda>_. None) \<lparr>commitTransferID = ''t''\<rparr>] s'
    \<and> (os_file (disk s') ''/a'' = None \<or> (\<exists>req c. os_file (disk s') ''/a'' = Some c \<and> verified req c))"
proof -
  obtain resp s1 err msg' s2 res s3 where t:
    "handleOpen sample_plan (\<lambda>_. None) sample_request sample_receiver = (resp, s1)"
    "handleBody (\<lambda>_. None) (conn_message 1 TypeFileTransferBody 5) (s1\<lparr>input := sample_body\<rparr>) = Some (err, msg', s2)"
    "handleCommit (\<lambda>_. None) \<lparr>commitTransferID = ''t''\<rparr> s2 = (res, s3)" by (rule sample_transfer)
  from run_commit [OF run_body [OF run_open [OF run_nil t(1)] t(2)] t(3)]
  have run: "transfer_run sample_plan sample_receiver [Offer (\<lambda>_. None) sample_request, Body (\<lambda>_. None) (conn_message 1 TypeFileTransferBody 5) sample_body,
       Commit (\<lambda>_. None) \<lparr>commitTransferID = ''t''\<rparr>] s3" by simp
  have "os_file (disk sample_receiver) ''/a'' = None" by (simp add: os_file_def sample_receiver_ok(6))
  with published_files_are_verified [OF sample_receiver_ok(1,2,4) run sample_paths(2)] run show ?thesis by auto
qed

text \<open>A commit of a transfer that is pending and whose body has not come.\<close>

theorem failed_commit_changes_nothing_witness:
  "\<exists>resp s1 res s2. handleOpen sample_plan (\<lambda>_. None) sample_request sample_receiver = (resp, s1) \<and> incoming s1 ''t'' \<noteq> None
    \<and> handleCommit (\<lambda>_. None) \<lparr>commitTransferID = ''t''\<rparr> s1 = (res, s2) \<and> resError res = ''transfer body not received''
    \<and> incoming s2 ''t'' = None \<and> same_file (disk s1) (disk s2) ''/a''"
proof -
  obtain resp s1 where o: "handleOpen sample_plan (\<lambda>_. None) sample_request sample_receiver = (resp, s1)" "Accepted resp"
    by (rule sample_transfer)
  from o(1) obtain inc where i: "incoming s1 ''t'' = Some inc" "\<not> bodyWritten inc"
    by (cases rule: handleOpen_cases) (use o(2) in \<open>auto simp: sample_request_def\<close>)
  obtain res s2 where c: "handleCommit (\<lambda>_. None) \<lparr>commitTransferID = ''t''\<rparr> s1 = (res, s2)"
    by (cases "handleCommit (\<lambda>_. None) \<lparr>commitTransferID = ''t''\<rparr> s1")
  with i have r: "\<not> OK res" "resError res = ''transfer body not received''"
    by (auto simp: handleCommit_def commit_transfer_def Let_def)
  have "transfers_ok s1" by (rule handleOpen_ok(1) [OF sample_receiver_ok(1,4) o(1)])
  with i(1) have "transfer_ok (disk s1) inc" by (simp add: transfers_ok_def)
  then have "os_path (disk s1) (tempPath inc) \<noteq> ''/a''" using sample_paths(2) by (auto simp: transfer_ok_def)
  with failed_commit_changes_nothing [OF c r(1)] i(1) have "incoming s2 ''t'' = None" "same_file (disk s1) (disk s2) ''/a''" by auto
  with o(1) c r(2) i(1) show ?thesis by blast
qed

text \<open>
  C20: a body for a transfer that is not pending is an error of the handler, which ends the receive loop: the dispatch of
  any such message returns the error, also when the transfer has just been committed or was refused.
\<close>

theorem unknown_body_is_fatal:
  assumes "receivers s TypeFileTransferBody = Some (HandleM a bodyCodec)" and "receiverM s a = Some HandleBody"
    and "Stream bodyCodec" and "typeID bodyCodec = TypeFileTransferBody" and "elemT bodyCodec = body_type"
    and "pendingResponses (respTable s) mid = None"
    and "encodeTransferBodyHeader tid = Inr header" and "conn_avail (input s) = header @ rest" and "length header \<le> unat len"
    and "incoming s tid = None"
  shows "\<exists>msg' s'. handleMessage (protocol_run libs transfer_shape dyn rd sk transfer_callM (transfer_callR plan)) reads ctx
      (Some (conn_message mid TypeFileTransferBody len)) s = Some (Some (Msg (''unknown transfer: '' @ tid)), Some msg', s')"
proof -
  let ?m = "conn_message mid TypeFileTransferBody len"
  have rdr: "payloadReader ?m = Some (OnConn, unat len)" "MsgType ?m = TypeFileTransferBody" "ID ?m = mid" "Length ?m = len"
    by (simp_all add: conn_message_def)
  have av: "payload_avail ((OnConn, input s), unat len) = header @ take (unat len - length header) rest"
    using assms(8,9) by (simp add: payload_avail_def limited_avail_def)
  obtain r1 c1 N1 where d: "decodeTransferBodyHeader payload_read ((OnConn, input s), unat len) = Some (Inr tid, ((r1, c1), N1))"
    using payload.decode_encoded_header [OF assms(7) av] by auto
  have b: "handleBody ctx ?m s = Some (Some (Msg (''unknown transfer: '' @ tid)), ?m\<lparr>payloadReader := Some (r1, N1)\<rparr>, s\<lparr>input := c1\<rparr>)"
    using assms(10) by (simp add: handleBody_def message_Reader_def rdr d)
  have dec: "codec_Decode libs transfer_shape bodyCodec (Some ?m) (input s) = Some (Inr (LiveStruct (Some (int (unat len)))), Some ?m, input s)"
    using assms(3,4,5) rdr by (simp add: codec_Decode_def decodeStreamPayload_def transfer_shape_def message_Reader_def)
  have same: "s\<lparr>input := input s\<rparr> = s" by simp
  have "M_handle libs transfer_shape transfer_callM a bodyCodec ctx ?m s =
      Some (Some (Msg (''unknown transfer: '' @ tid)), ?m\<lparr>payloadReader := Some (r1, N1)\<rparr>, s\<lparr>input := c1\<rparr>)"
    using assms(2) by (simp add: M_handle_def dec same transfer_callM_def b)
  moreover have "resolveResponse reads ?m s = Some ((False, None), ?m, s)"
    using assms(6) rdr by (intro resolveResponse_none) simp
  moreover have "TypeFileTransferBody \<noteq> acknowledgeTypeID" by (simp add: TypeFileTransferBody_def acknowledgeTypeID_def)
  ultimately show ?thesis using assms(1) rdr by (simp add: handleMessage_def)
qed

definition body_codec :: codec where
  "body_codec = \<lparr>codec = CodecStream, typeID = TypeFileTransferBody, Stream = True, elemT = body_type\<rparr>"

theorem unknown_body_is_fatal_witness:
  "\<forall>libs. \<exists>msg' s'. handleMessage (protocol_run libs transfer_shape transfer_dyn (multi_read conn_read) None transfer_callM (transfer_callR sample_plan)) (\<lambda>_. None) (\<lambda>_. None)
      (Some (conn_message 1 TypeFileTransferBody 5))
      (sample_receiver\<lparr>receivers := [TypeFileTransferBody \<mapsto> HandleM 0 body_codec], receiverM := [0 \<mapsto> HandleBody], input := sample_body\<rparr>)
    = Some (Some (Msg ''unknown transfer: t''), Some msg', s')"
  (is "\<forall>libs. \<exists>msg' s'. handleMessage (?run libs) _ _ _ ?s = _")
proof
  fix libs
  show "\<exists>msg' s'. handleMessage (?run libs) (\<lambda>_. None) (\<lambda>_. None) (Some (conn_message 1 TypeFileTransferBody 5)) ?s
      = Some (Some (Msg ''unknown transfer: t''), Some msg', s')"
    using unknown_body_is_fatal [OF _ _ _ _ _ _ sample_header, where s = ?s and a = 0 and bodyCodec = body_codec and mid = 1
        and rest = "[7, 8]" and len = 5 and plan = sample_plan and dyn = transfer_dyn and rd = "multi_read conn_read" and sk = None
        and reads = "\<lambda>_. None" and ctx = "\<lambda>_. None" and libs = libs]
    by (simp add: body_codec_def sample_receiver_def no_responses_def)
qed

text \<open>
  C19: the length of a body is exact: for a request that \<^verbatim>\<open>SendFile\<close> prepared, the stream that it sends has a header and
  the file, and the announced 32-bit length is their sum without wrap-around, for every file size and transfer ID.
\<close>

theorem body_length_exact:
  assumes "prepare_request raw path req d = Some (Inr req', d')"
  shows "\<exists>header len. encodeTransferBodyHeader (reqTransferID req') = Inr header
    \<and> fileTransferBody_StreamSource \<lparr>bodyTransferID = reqTransferID req', bodyReader = Some fil, bodyLength = of_int (reqSize req')\<rparr>
        = Inr (Some [([header], LibE EOF), fil], len)
    \<and> int (unat len) = 2 + int (length (reqTransferID req')) + reqSize req'"
proof -
  from assms obtain sz d1 header where st: "os_Stat path d = (Inr (True, sz), d1)" and sz: "reqSize req' = sz"
    and h: "encodeTransferBodyHeader (reqTransferID req') = Inr header" and le: "int (length header) + sz \<le> 2 ^ 32 - 1"
    by (auto simp: prepare_request_def Let_def split: prod.splits sum.splits if_splits option.splits)
  have nn: "0 \<le> sz" using st by (auto simp: os_Stat_def split: prod.splits option.splits if_splits)
  have len: "length header = 2 + length (reqTransferID req')"
    using h by (auto simp: encodeTransferBodyHeader_def split: if_splits)
  have u1: "int (unat (of_int sz :: u32)) = sz" using nn le by (simp add: unsigned_of_int take_bit_int_eq_self)
  have u2: "int (unat (of_int (int (length header) + sz) :: u32)) = int (length header) + sz"
    using nn le by (simp add: unsigned_of_int take_bit_int_eq_self del: of_int_add)
  have "fileTransferBody_StreamSource \<lparr>bodyTransferID = reqTransferID req', bodyReader = Some fil, bodyLength = of_int (reqSize req')\<rparr>
      = Inr (Some [([header], LibE EOF), fil], of_int (int (length header) + sz))"
    using h le u1 by (simp add: fileTransferBody_StreamSource_def Let_def sz del: of_int_add)
  with h u2 len sz show ?thesis by auto
qed

theorem body_length_exact_witness:
  "\<exists>req' d' header len. prepare_request (Inr []) ''/a'' (sample_request\<lparr>reqSHA256 := ''x''\<rparr>)
      (sample_disk\<lparr>dirent := [''/a'' \<mapsto> 0], content := (\<lambda>_. [7, 8])\<rparr>) = Some (Inr req', d')
    \<and> fileTransferBody_StreamSource \<lparr>bodyTransferID = reqTransferID req', bodyReader = Some ([[7, 8]], LibE EOF), bodyLength = of_int (reqSize req')\<rparr>
        = Inr (Some [([header], LibE EOF), ([[7, 8]], LibE EOF)], len)
    \<and> int (unat len) = 5"
proof -
  let ?d = "sample_disk\<lparr>dirent := [''/a'' \<mapsto> 0], content := (\<lambda>_. [7, 8])\<rparr>"
  have p: "prepare_request (Inr []) ''/a'' (sample_request\<lparr>reqSHA256 := ''x''\<rparr>) ?d
      = Some (Inr (sample_request\<lparr>reqSHA256 := ''x''\<rparr>), ?d)"
    by (simp add: prepare_request_def os_Stat_def sys_def sample_disk_def sample_request_def sample_header sample_paths)
  have i: "reqTransferID (sample_request\<lparr>reqSHA256 := ''x''\<rparr>) = ''t''" "reqSize (sample_request\<lparr>reqSHA256 := ''x''\<rparr>) = 2"
    by (simp_all add: sample_request_def)
  from body_length_exact [OF p, of "([[7, 8]], LibE EOF)", unfolded i] obtain header len where
    "fileTransferBody_StreamSource \<lparr>bodyTransferID = ''t'', bodyReader = Some ([[7, 8]], LibE EOF), bodyLength = of_int 2\<rparr>
        = Inr (Some [([header], LibE EOF), ([[7, 8]], LibE EOF)], len)" "int (unat len) = 5" by auto
  with p i show ?thesis by auto
qed


end
