(* ===== verification/Transfer_Store.thy ===== *)
theory Transfer_Store
  imports File_Transfer "HOL-Library.Sublist"
begin

text \<open>
  What the receiver of file transfers promises, as an abstract machine: the registered receiver function, a table of
  pending transfers and the visible files. The handlers of \<^verbatim>\<open>vsock/protocol/common/file_transfer.go\<close> refine it step for
  step, with the same requests and the same answers: temporary files, open files, hashes and byte counts are gone.
\<close>

section \<open>The abstract machine\<close>

text \<open>A pending transfer waits for its body, has it, or can no longer get one because storing it went wrong.\<close>

datatype stage = Awaiting | Broken | Stored "byte list"

record 'p transfer_store =
  taker :: "'p option"
  pending :: "string \<Rightarrow> (FileTransferRequest \<times> string \<times> stage) option"
  visible :: "string \<Rightarrow> byte list option"

text \<open>
  What can be seen of the receiver: an offer with whether it was accepted; a body, as the transfer ID and the bytes that
  the message holds, if it holds these, with whether the handler returned nil; a commit with the answer to it; and the
  registration of a receiver function.
\<close>

datatype 'p store_event =
    Offered ctx FileTransferRequest bool
  | Delivered "(string \<times> byte list) option" bool
  | Committed string FileTransferResult
  | Registered "'p option"

definition published_result :: "string \<Rightarrow> byte list \<Rightarrow> FileTransferResult" where
  "published_result tid c =
     \<lparr>resTransferID = tid, OK = True, resSize = int (length c), resSHA256 = hex_EncodeToString (sha256_Sum c), resError = ''''\<rparr>"

definition refused_result :: "string \<Rightarrow> FileTransferResult \<Rightarrow> bool" where
  "refused_result tid res \<longleftrightarrow> \<not> OK res \<and> resTransferID res = tid \<and> resSize res = 0 \<and> resSHA256 res = ''''"

definition awaiting :: "'p transfer_store \<Rightarrow> string \<Rightarrow> bool" where
  "awaiting a tid \<longleftrightarrow> (\<exists>req k. pending a tid = Some (req, k, Awaiting))"

text \<open>
  The steps. \<open>plan\<close> is what receiver functions answer and \<open>path\<close> where their destinations are. An accepted offer goes to the
  destination that the registered function gave for it; a body is kept, as it came, only for the transfer that it names and
  only once; a commit publishes exactly this body at exactly this destination, and only if it is what was offered; the disk
  may make any offer, body or commit fail, and a failed commit only forgets its transfer.
\<close>

inductive store_step ::
  "('p \<Rightarrow> ctx \<Rightarrow> FileTransferRequest \<Rightarrow> FileTransferPlan result) \<Rightarrow> (string \<Rightarrow> string) \<Rightarrow> 'p transfer_store
     \<Rightarrow> 'p store_event \<Rightarrow> 'p transfer_store \<Rightarrow> bool" for plan path a where
  accept: "reqTransferID req \<noteq> '''' \<Longrightarrow> 0 \<le> reqSize req \<Longrightarrow> pending a (reqTransferID req) = None \<Longrightarrow>
     taker a = Some h \<Longrightarrow> plan h ctx req = Inr p \<Longrightarrow> DestinationPath p \<noteq> '''' \<Longrightarrow>
     store_step plan path a (Offered ctx req True)
       (a\<lparr>pending := (pending a)(reqTransferID req \<mapsto> (req, path (DestinationPath p), Awaiting))\<rparr>)"
| refuse: "store_step plan path a (Offered ctx req False) a"
| receive: "pending a tid = Some (req, k, Awaiting) \<Longrightarrow>
     store_step plan path a (Delivered (Some (tid, bs)) True) (a\<lparr>pending := (pending a)(tid \<mapsto> (req, k, Stored bs))\<rparr>)"
| break: "pending a tid = Some (req, k, Awaiting) \<Longrightarrow>
     store_step plan path a (Delivered (Some (tid, bs)) False) (a\<lparr>pending := (pending a)(tid \<mapsto> (req, k, Broken))\<rparr>)"
| turn_away: "\<forall>tid bs. b = Some (tid, bs) \<longrightarrow> \<not> awaiting a tid \<Longrightarrow> store_step plan path a (Delivered b False) a"
| publish: "pending a tid = Some (req, k, Stored c) \<Longrightarrow> verified req c \<Longrightarrow>
     store_step plan path a (Committed tid (published_result tid c))
       (a\<lparr>pending := (pending a)(tid := None), visible := (visible a)(k \<mapsto> c)\<rparr>)"
| give_up: "refused_result tid res \<Longrightarrow> store_step plan path a (Committed tid res) (a\<lparr>pending := (pending a)(tid := None)\<rparr>)"
| register: "store_step plan path a (Registered h) (a\<lparr>taker := h\<rparr>)"

inductive store_trace ::
  "('p \<Rightarrow> ctx \<Rightarrow> FileTransferRequest \<Rightarrow> FileTransferPlan result) \<Rightarrow> (string \<Rightarrow> string) \<Rightarrow> 'p transfer_store
     \<Rightarrow> 'p store_event list \<Rightarrow> 'p transfer_store \<Rightarrow> bool" for plan path a where
  trace_nil: "store_trace plan path a [] a"
| trace_snoc: "store_trace plan path a evs a1 \<Longrightarrow> store_step plan path a1 ev a2 \<Longrightarrow> store_trace plan path a (evs @ [ev]) a2"

section \<open>The handlers, with what can be seen of them\<close>

text \<open>The transfer ID and the bytes that a message of the body type holds, by the format of its header.\<close>

definition parse_body :: "byte list \<Rightarrow> (string \<times> byte list) option" where
  "parse_body bs =
     (let n = unat (Uint16 (take 2 bs)) in
      if length bs < 2 + n \<or> n = 0 then None else Some (string_of (take n (drop 2 bs)), drop (2 + n) bs))"

definition body_sent :: "message \<Rightarrow> conn \<Rightarrow> (string \<times> byte list) option" where
  "body_sent msg c =
     (case payloadReader msg of None \<Rightarrow> None | Some (r, N) \<Rightarrow> parse_body (payload_avail ((r, c), N)))"

inductive transfer_step ::
  "('p \<Rightarrow> ctx \<Rightarrow> FileTransferRequest \<Rightarrow> FileTransferPlan result) \<Rightarrow> ('p, 'm) transfer_peer_scheme
     \<Rightarrow> 'p store_event \<Rightarrow> ('p, 'm) transfer_peer_scheme \<Rightarrow> bool" for plan s where
  on_open: "handleOpen plan ctx req s = (resp, s') \<Longrightarrow> transfer_step plan s (Offered ctx req (Accepted resp)) s'"
| on_body: "handleBody ctx msg (s\<lparr>input := c\<rparr>) = Some (err, msg', s') \<Longrightarrow>
     transfer_step plan s (Delivered (body_sent msg c) (err = None)) s'"
| on_commit: "handleCommit ctx req s = (res, s') \<Longrightarrow> transfer_step plan s (Committed (commitTransferID req) res) s'"
| on_register: "transfer_step plan s (Registered h) (FileTransfer_OnReceive (Some f) h s)"

inductive transfer_trace ::
  "('p \<Rightarrow> ctx \<Rightarrow> FileTransferRequest \<Rightarrow> FileTransferPlan result) \<Rightarrow> ('p, 'm) transfer_peer_scheme
     \<Rightarrow> 'p store_event list \<Rightarrow> ('p, 'm) transfer_peer_scheme \<Rightarrow> bool" for plan s where
  seen_nil: "transfer_trace plan s [] s"
| seen_snoc: "transfer_trace plan s evs s1 \<Longrightarrow> transfer_step plan s1 ev s2 \<Longrightarrow> transfer_trace plan s (evs @ [ev]) s2"

text \<open>Reading the header of a body is this format.\<close>

context reader begin

lemma decode_header_parses:
  assumes "decodeTransferBodyHeader rd r = Some (res, r')"
  shows "case parse_body (avail r) of
      None \<Rightarrow> \<exists>e. res = Inl e
    | Some (tid, bs) \<Rightarrow> res = Inr tid \<and> avail r' = bs"
proof (cases "2 \<le> length (avail r)")
  case False
  with ReadFull_short [of r 2] assms show ?thesis
    by (auto simp: decodeTransferBodyHeader_def parse_body_def Let_def)
next
  case True
  let ?n = "unat (Uint16 (take 2 (avail r)))"
  from ReadFull_ok [OF True] obtain r1 where r1: "io_ReadFull rd 2 r = Some (take 2 (avail r), None, r1)"
    "avail r1 = drop 2 (avail r)" by blast
  show ?thesis
  proof (cases "?n \<le> length (avail r1)")
    case False
    with ReadFull_short [of r1 ?n] assms r1 True show ?thesis
      by (auto simp: decodeTransferBodyHeader_def parse_body_def Let_def split: if_splits)
  next
    case n: True
    from ReadFull_ok [OF this] obtain r2 where "io_ReadFull rd ?n r1 = Some (take ?n (avail r1), None, r2)"
      "avail r2 = drop ?n (avail r1)" by blast
    with assms r1 n True show ?thesis
      by (auto simp: decodeTransferBodyHeader_def parse_body_def Let_def unat_eq_0 add.commute split: if_splits)
  qed
qed

end

text \<open>\<^verbatim>\<open>handleBody\<close> stores the bytes that its message holds, in the transfer that the message names.\<close>

lemma handleBody_sent:
  assumes h: "handleBody ctx msg s = Some (err, msg', s')"
  shows "(\<exists>tid bs inc inc'. body_sent msg (input s) = Some (tid, bs) \<and> incoming s tid = Some inc \<and> \<not> bodyWritten inc
       \<and> incoming s' = (incoming s)(tid \<mapsto> inc') \<and> expected inc' = expected inc \<and> finalPath inc' = finalPath inc
       \<and> \<not> is_open (tempFile inc') \<and> (bodyWritten inc' \<longleftrightarrow> err = None)
       \<and> (err = None \<longrightarrow> is_open (tempFile inc) \<and> hashed inc' = hashed inc @ bs))
    \<or> (\<exists>c. s' = s\<lparr>input := c\<rparr>) \<and> err \<noteq> None
       \<and> (\<forall>tid bs inc. body_sent msg (input s) = Some (tid, bs) \<longrightarrow> incoming s tid = Some inc \<longrightarrow> bodyWritten inc)"
proof (cases "payloadReader msg")
  case None
  with h have "s' = s" "err \<noteq> None" by (auto simp: handleBody_def message_Reader_def)
  then show ?thesis using None by (intro disjI2 conjI exI [of _ "input s"]) (simp_all add: body_sent_def)
next
  case (Some rN)
  then obtain r N where rd: "payloadReader msg = Some (r, N)" by (cases rN) auto
  obtain res r1 c1 N1 where d: "decodeTransferBodyHeader payload_read ((r, input s), N) = Some (res, ((r1, c1), N1))"
    using payload.decode_header_total by (metis prod.exhaust)
  note step = handleBody_def message_Reader_def rd d
  show ?thesis
  proof (cases "body_sent msg (input s)")
    case None
    with payload.decode_header_parses [OF d] rd obtain e where "res = Inl e" by (auto simp: body_sent_def)
    with h have "s' = s\<lparr>input := c1\<rparr>" "err \<noteq> None" by (simp_all add: step) auto
    then show ?thesis using None by (intro disjI2 conjI exI [of _ c1]) simp_all
  next
    case sent: (Some tb)
    then obtain tid bs where b: "body_sent msg (input s) = Some (tid, bs)" by (cases tb) auto
    with payload.decode_header_parses [OF d] rd have res: "res = Inr tid" "payload_avail ((r1, c1), N1) = bs"
      by (simp_all add: body_sent_def)
    show ?thesis
    proof (cases "\<exists>inc. incoming s tid = Some inc \<and> \<not> bodyWritten inc")
      case False
      with h res(1) have "s' = s\<lparr>input := c1\<rparr>" "err \<noteq> None" by (auto simp: step split: option.splits if_splits)
      then show ?thesis using b False by (intro disjI2 conjI exI [of _ c1]) auto
    next
      case True
      then obtain inc where inc: "incoming s tid = Some inc" "\<not> bodyWritten inc" by blast
      let ?f = "tempFile inc"
      from body_hash.Copy_spec [of ?f "((r1, c1), N1)" "(disk s, hashed inc)"] obtain n e r2 c2 N2 d2 h2 where
        c: "io_Copy payload_read (body_write ?f) ((r1, c1), N1) (disk s, hashed inc) = Some (n, e, ((r2, c2), N2), (d2, h2))"
        "e = None \<longrightarrow> h2 = hashed inc @ bs" using res(2) by force
      obtain cerr f' d3 where cl: "file_Close ?f d2 = (cerr, f', d3)" by (cases "file_Close ?f d2")
      note cf = file_Close_facts(5,6) [OF cl]
      show ?thesis
        by (rule disjI1, rule exI [of _ tid], rule exI [of _ bs], rule exI [of _ inc])
          (use h c cf cl inc b res(1) in \<open>auto simp: step Let_def split: option.splits if_splits\<close>)
    qed
  qed
qed

lemma handleCommit_result:
  assumes "handleCommit ctx req s = (res, s')"
  shows "resTransferID res = commitTransferID req" "OK res \<Longrightarrow> resError res = ''''"
    "\<not> OK res \<Longrightarrow> resSize res = 0 \<and> resSHA256 res = ''''"
  using assms
  by (auto simp: handleCommit_def commit_transfer_def Let_def split: option.splits prod.splits if_splits)

lemma handleOpen_guards:
  assumes "handleOpen plan ctx req s = (resp, s')" and "Accepted resp"
  shows "reqTransferID req \<noteq> ''''" "0 \<le> reqSize req"
    "\<exists>h p. onReceive s = Some h \<and> plan h ctx req = Inr p \<and> DestinationPath p \<noteq> ''''"
  using assms
  by (auto simp: handleOpen_def Let_def split: option.splits sum.splits prod.splits if_splits)

section \<open>The abstraction\<close>

definition stage_of :: "incomingFileTransfer \<Rightarrow> stage" where
  "stage_of inc = (if bodyWritten inc then Stored (hashed inc) else if is_open (tempFile inc) then Awaiting else Broken)"

definition abs_transfer :: "os \<Rightarrow> incomingFileTransfer \<Rightarrow> FileTransferRequest \<times> string \<times> stage" where
  "abs_transfer d inc = (expected inc, os_path d (finalPath inc), stage_of inc)"

definition abs_store :: "('p, 'm) transfer_peer_scheme \<Rightarrow> 'p transfer_store" where
  "abs_store s = \<lparr>taker = onReceive s, pending = (\<lambda>t. map_option (abs_transfer (disk s)) (incoming s t)),
                  visible = (\<lambda>k. if hidden k then None else os_file (disk s) k)\<rparr>"

lemma abs_transfer_cwd: "cwd d' = cwd d \<Longrightarrow> abs_transfer d' = abs_transfer d"
  using os_path_cwd [of d' d] by (auto simp: abs_transfer_def)

lemma pending_update: "(\<lambda>t. map_option f ((m(x \<mapsto> y)) t)) = (\<lambda>t. map_option f (m t))(x \<mapsto> f y)"
  by auto

lemma pending_delete: "(\<lambda>t. map_option f ((m(x := None)) t)) = (\<lambda>t. map_option f (m t))(x := None)"
  by auto

lemma abs_store_eqI:
  assumes "cwd (disk s') = cwd (disk s)" and "\<And>k. \<not> hidden k \<Longrightarrow> same_file (disk s) (disk s') k" and "onReceive s' = onReceive s"
  shows "abs_store s' = (abs_store s)\<lparr>pending := (\<lambda>t. map_option (abs_transfer (disk s)) (incoming s' t))\<rparr>"
  using same_file_os_file [OF assms(2)] abs_transfer_cwd [OF assms(1)] assms(3) by (auto simp: abs_store_def)

lemma pending_abs_store: "pending (abs_store s) = (\<lambda>t. map_option (abs_transfer (disk s)) (incoming s t))"
  by (simp add: abs_store_def)

lemma abs_store_same_pending: "(abs_store s)\<lparr>pending := (\<lambda>t. map_option (abs_transfer (disk s)) (incoming s t))\<rparr> = abs_store s"
  by (simp add: abs_store_def)

lemma handlers_keep_receiver:
  "handleOpen plan ctx req s = (resp, s') \<Longrightarrow> onReceive s' = onReceive s"
  "handleCommit ctx creq s = (res, s') \<Longrightarrow> onReceive s' = onReceive s"
  "handleBody ctx msg s = Some (err, msg', s') \<Longrightarrow> onReceive s' = onReceive s"
    apply (auto simp: handleOpen_def Let_def split: option.splits sum.splits prod.splits if_splits) [1]
   apply (auto simp: handleCommit_def Let_def split: option.splits prod.splits) [1]
  using handleBody_spec [of ctx msg s] by (auto simp: body_failed_def body_stored_def)

section \<open>Every handler is a step\<close>

lemma handleOpen_refines:
  assumes "transfers_ok s" and "visible_plan plan (disk s)" and h: "handleOpen plan ctx req s = (resp, s')"
  shows "store_step plan (os_path (disk s)) (abs_store s) (Offered ctx req (Accepted resp)) (abs_store s')"
proof -
  note ok = handleOpen_ok [OF assms]
  have abs: "abs_store s' = (abs_store s)\<lparr>pending := (\<lambda>t. map_option (abs_transfer (disk s)) (incoming s' t))\<rparr>"
    by (rule abs_store_eqI [OF ok(2) _ handlers_keep_receiver(1) [OF h]]) (rule ok(3))
  show ?thesis using h
  proof (cases rule: handleOpen_cases)
    case refused
    with abs have "abs_store s' = abs_store s" by (simp add: abs_store_same_pending)
    with refused(1) show ?thesis by (simp add: refuse)
  next
    case (accepted f p d tmp)
    have o: "os_ok d" using assms(1) accepted(5) by (simp add: transfers_ok_def same_disk_ok)
    have open_tmp: "is_open tmp" using CreateTemp_ok [OF accepted(6) o] by simp
    note g = handleOpen_guards [OF h accepted(1)]
    have "DestinationPath p \<noteq> ''''" using g(3) accepted(2,3) by auto
    moreover have "abs_store s' = (abs_store s)\<lparr>pending := (pending (abs_store s))
        (reqTransferID req \<mapsto> (req, os_path (disk s) (DestinationPath p), Awaiting))\<rparr>"
      unfolding abs accepted(7) pending_update using open_tmp by (simp add: abs_store_def abs_transfer_def stage_of_def)
    moreover have "pending (abs_store s) (reqTransferID req) = None" using accepted(4) by (simp add: pending_abs_store)
    moreover have "taker (abs_store s) = Some f" using accepted(2) by (simp add: abs_store_def)
    ultimately show ?thesis using accept [of req "abs_store s" f plan ctx p "os_path (disk s)"] g(1,2) accepted(1,3) by simp
  qed
qed

lemma handleBody_refines:
  assumes ok: "transfers_ok s" and b: "handleBody ctx msg (s\<lparr>input := c\<rparr>) = Some (err, msg', s')"
  shows "store_step plan path (abs_store s) (Delivered (body_sent msg c) (err = None)) (abs_store s')"
proof -
  let ?s = "s\<lparr>input := c\<rparr>"
  have abs: "abs_store s' = (abs_store s)\<lparr>pending := (\<lambda>t. map_option (abs_transfer (disk s)) (incoming s' t))\<rparr>"
    by (rule abs_store_eqI [OF handleBody_ok(2) [OF ok b]]) (use handleBody_ok(3) [OF ok b] handlers_keep_receiver(3) [OF b] in simp_all)
  from handleBody_sent [OF b] show ?thesis
  proof (elim disjE exE conjE)
    fix c'
    assume f: "s' = ?s\<lparr>input := c'\<rparr>" "err \<noteq> None"
      "\<forall>tid bs inc. body_sent msg (input ?s) = Some (tid, bs) \<longrightarrow> incoming ?s tid = Some inc \<longrightarrow> bodyWritten inc"
    then have "\<forall>tid bs. body_sent msg c = Some (tid, bs) \<longrightarrow> \<not> awaiting (abs_store s) tid"
      by (auto simp: awaiting_def pending_abs_store abs_transfer_def stage_of_def split: if_splits)
    moreover have "abs_store s' = abs_store s" using f(1) by (simp add: abs_store_def cong: if_cong)
    ultimately show ?thesis using f(2) turn_away [of "body_sent msg c" "abs_store s" plan path] by (cases err) simp_all
  next
    fix tid bs inc inc'
    assume i: "body_sent msg (input ?s) = Some (tid, bs)" "incoming ?s tid = Some inc" "\<not> bodyWritten inc"
      "incoming s' = (incoming ?s)(tid \<mapsto> inc')" "expected inc' = expected inc" "finalPath inc' = finalPath inc"
      "\<not> is_open (tempFile inc')" "bodyWritten inc' = (err = None)"
      "err = None \<longrightarrow> is_open (tempFile inc) \<and> hashed inc' = hashed inc @ bs"
    have t: "transfer_ok (disk s) inc" using ok i(2) by (auto simp: transfers_ok_def)
    have a: "abs_store s' = (abs_store s)\<lparr>pending := (pending (abs_store s))(tid \<mapsto> abs_transfer (disk s) inc')\<rparr>"
      unfolding abs i(4) pending_update by (simp add: abs_store_def)
    show ?thesis
    proof (cases "is_open (tempFile inc)")
      case True
      then have p: "pending (abs_store s) tid = Some (expected inc, os_path (disk s) (finalPath inc), Awaiting)"
        using i(2,3) by (simp add: pending_abs_store abs_transfer_def stage_of_def)
      have "hashed inc = []" using t True by (simp add: transfer_ok_def)
      then show ?thesis using receive [OF p, of plan path bs] break [OF p, of plan path bs] i a
        by (cases err) (simp_all add: abs_transfer_def stage_of_def)
    next
      case False
      then have p: "pending (abs_store s) tid = Some (expected inc, os_path (disk s) (finalPath inc), Broken)"
        using i(2,3) by (simp add: pending_abs_store abs_transfer_def stage_of_def)
      have "err \<noteq> None" using False i(9) by blast
      moreover have "abs_transfer (disk s) inc' = (expected inc, os_path (disk s) (finalPath inc), Broken)"
        using calculation i(5-8) by (simp add: abs_transfer_def stage_of_def)
      then have "abs_store s' = abs_store s" unfolding a using p by (simp add: fun_upd_idem)
      moreover have "\<not> awaiting (abs_store s) tid" using p by (simp add: awaiting_def)
      ultimately show ?thesis using i(1) turn_away [of "body_sent msg c" "abs_store s" plan path] by (cases err) simp_all
    qed
  qed
qed

lemma handleCommit_refines:
  assumes ok: "transfers_ok s" and h: "handleCommit ctx req s = (res, s')"
  shows "store_step plan path (abs_store s) (Committed (commitTransferID req) res) (abs_store s')"
  using h
proof (cases rule: handleCommit_cases)
  case unknown
  have "abs_store s = (abs_store s)\<lparr>pending := (pending (abs_store s))(commitTransferID req := None)\<rparr>"
    using unknown(2) by (simp add: abs_store_def fun_upd_idem)
  moreover have "refused_result (commitTransferID req) res"
    using handleCommit_result [OF h] unknown(1) by (simp add: refused_result_def)
  ultimately show ?thesis using unknown(3) give_up [of "commitTransferID req" res plan path "abs_store s"] by simp
next
  case (failed inc d e)
  note c = handleCommit_ok [OF ok h]
  have abs: "abs_store s' = (abs_store s)\<lparr>pending := (\<lambda>t. map_option (abs_transfer (disk s)) (incoming s' t))\<rparr>"
    by (rule abs_store_eqI [OF c(2) _ handlers_keep_receiver(2) [OF h]]) (use c(3) failed(1) in blast)
  have "abs_store s' = (abs_store s)\<lparr>pending := (pending (abs_store s))(commitTransferID req := None)\<rparr>"
    unfolding abs failed(5) pending_delete by (simp add: abs_store_def)
  moreover have "refused_result (commitTransferID req) res"
    using handleCommit_result [OF h] failed(1) by (simp add: refused_result_def)
  ultimately show ?thesis using give_up [of "commitTransferID req" res plan path "abs_store s"] by simp
next
  case (published inc)
  note c = handleCommit_ok [OF ok h]
  let ?k = "os_path (disk s) (finalPath inc)"
  have t: "transfer_ok (disk s) inc" using ok published(2) by (auto simp: transfers_ok_def)
  then have vis: "\<not> hidden ?k" by (simp add: transfer_ok_def)
  have p: "pending (abs_store s) (commitTransferID req) = Some (expected inc, ?k, Stored (hashed inc))"
    using published(2,3) by (simp add: pending_abs_store abs_transfer_def stage_of_def)
  have v: "verified (expected inc) (hashed inc)"
    using published(3-5) t by (simp add: verified_def transfer_ok_def)
  have r: "res = published_result (commitTransferID req) (hashed inc)"
    using handleCommit_result(1,2) [OF h] published(1,3,8,9) t by (simp add: published_result_def transfer_ok_def)
  have files: "os_file (disk s') k = ((os_file (disk s))(?k \<mapsto> hashed inc)) k" if "\<not> hidden k" for k
  proof (cases "k = ?k")
    case True
    note r = os_Rename_ok [OF published(6)]
    have "os_path (disk s) (tempPath inc) \<noteq> ?k" using t by (auto simp: transfer_ok_def)
    then show ?thesis using True r(2,4) t published(3) by (auto simp: os_file_def transfer_ok_def)
  next
    case False
    then show ?thesis using c(3) [OF that] published(2) same_file_os_file [of "disk s" "disk s'" k] by auto
  qed
  have "abs_store s' = (abs_store s)\<lparr>pending := (pending (abs_store s))(commitTransferID req := None),
      visible := (visible (abs_store s))(?k \<mapsto> hashed inc)\<rparr>"
    using files vis abs_transfer_cwd [OF c(2)] published(7) handlers_keep_receiver(2) [OF h] by (auto simp: abs_store_def)
  then show ?thesis using publish [OF p v, of plan path] r by simp
qed

lemma transfer_step_refines:
  assumes "transfers_ok s" and "visible_plan plan (disk s)" and "transfer_step plan s ev s'"
  shows "store_step plan (os_path (disk s)) (abs_store s) ev (abs_store s') \<and> transfers_ok s' \<and> cwd (disk s') = cwd (disk s)"
  using assms(3)
proof cases
  case (on_open ctx req resp)
  then show ?thesis using handleOpen_refines [OF assms(1,2)] handleOpen_ok [OF assms(1,2)] by blast
next
  case (on_body ctx msg c err msg')
  then show ?thesis using handleBody_refines [OF assms(1)] handleBody_ok [OF assms(1)] by blast
next
  case (on_commit ctx req res)
  then show ?thesis using handleCommit_refines [OF assms(1)] handleCommit_ok [OF assms(1)] by blast
next
  case (on_register h f)
  have "abs_store s' = (abs_store s)\<lparr>taker := h\<rparr>"
    using on_register by (simp add: FileTransfer_OnReceive_def abs_store_def cong: if_cong)
  with on_register register [of plan "os_path (disk s)" "abs_store s" h] assms(1)
  show ?thesis by (simp add: FileTransfer_OnReceive_def transfers_ok_def)
qed

lemma trace_refines:
  assumes "transfers_ok s" and "visible_plan plan (disk s)" and "transfer_trace plan s evs s'"
  shows "store_trace plan (os_path (disk s)) (abs_store s) evs (abs_store s') \<and> transfers_ok s' \<and> cwd (disk s') = cwd (disk s)"
  using assms(3)
proof (induction rule: transfer_trace.induct)
  case seen_nil
  with assms(1) show ?case by (simp add: trace_nil)
next
  case (seen_snoc evs s1 ev s2)
  then have path: "os_path (disk s1) = os_path (disk s)" by (intro os_path_cwd) simp
  then have "visible_plan plan (disk s1)" using assms(2) by (simp add: visible_plan_def)
  from transfer_step_refines [OF _ this seen_snoc.hyps(2)] seen_snoc.IH path show ?case
    by (auto intro: trace_snoc)
qed

section \<open>What the abstract machine guarantees\<close>

text \<open>A file was sent: an accepted offer, the body under its ID, and a commit that was answered with OK, in this order.\<close>

definition sent_to :: "('p \<Rightarrow> ctx \<Rightarrow> FileTransferRequest \<Rightarrow> FileTransferPlan result) \<Rightarrow> (string \<Rightarrow> string) \<Rightarrow> 'p store_event list
    \<Rightarrow> string \<Rightarrow> FileTransferRequest \<Rightarrow> byte list \<Rightarrow> bool" where
  "sent_to plan path evs k req bs \<longleftrightarrow>
     (\<exists>ctx h p. plan h ctx req = Inr p \<and> path (DestinationPath p) = k
        \<and> subseq [Offered ctx req True, Delivered (Some (reqTransferID req, bs)) True,
                  Committed (reqTransferID req) (published_result (reqTransferID req) bs)] evs)"

definition offer_of :: "('p \<Rightarrow> ctx \<Rightarrow> FileTransferRequest \<Rightarrow> FileTransferPlan result) \<Rightarrow> (string \<Rightarrow> string) \<Rightarrow> 'p store_event list
    \<Rightarrow> string \<Rightarrow> FileTransferRequest \<Rightarrow> string \<Rightarrow> stage \<Rightarrow> bool" where
  "offer_of plan path evs tid req k st \<longleftrightarrow> tid = reqTransferID req
     \<and> (\<exists>ctx h p. plan h ctx req = Inr p \<and> path (DestinationPath p) = k
          \<and> subseq (Offered ctx req True # (case st of Stored bs \<Rightarrow> [Delivered (Some (tid, bs)) True] | _ \<Rightarrow> [])) evs)"

lemma subseq_later: "subseq xs evs \<Longrightarrow> subseq xs (evs @ [ev])"
  using list_emb_append_mono [of "(=)" xs evs "[]" "[ev]"] by simp

lemma subseq_next: "subseq xs evs \<Longrightarrow> subseq (xs @ [ev]) (evs @ [ev])"
  using list_emb_append_mono [of "(=)" xs evs "[ev]" "[ev]"] by simp

lemma offer_of_later: "offer_of plan path evs tid req k st \<Longrightarrow> offer_of plan path (evs @ [ev]) tid req k st"
  by (auto simp: offer_of_def intro: subseq_later)

lemma sent_to_later: "sent_to plan path evs k req bs \<Longrightarrow> sent_to plan path (evs @ [ev]) k req bs"
  by (auto simp: sent_to_def intro: subseq_later)

lemma store_trace_sent:
  assumes "store_trace plan path a evs a'" and "\<And>tid. pending a tid = None"
  shows "(\<forall>tid req k st. pending a' tid = Some (req, k, st) \<longrightarrow> offer_of plan path evs tid req k st)
    \<and> (\<forall>k. visible a' k = visible a k
         \<or> (\<exists>req bs. sent_to plan path evs k req bs \<and> verified req bs \<and> visible a' k = Some bs))"
  using assms(1)
proof (induction rule: store_trace.induct)
  case trace_nil
  with assms(2) show ?case by simp
next
  case (trace_snoc evs a1 ev a2)
  have old: "pending a1 tid = Some (req, k, st) \<Longrightarrow> offer_of plan path evs tid req k st" for tid req k st
    using trace_snoc.IH by blast
  have seen: "visible a1 k = visible a k
      \<or> (\<exists>req bs. sent_to plan path (evs @ [ev]) k req bs \<and> verified req bs \<and> visible a1 k = Some bs)" for k
    using trace_snoc.IH sent_to_later by metis
  from trace_snoc.hyps(2) show ?case
  proof cases
    case (accept req h ctx p)
    have "offer_of plan path (evs @ [ev]) (reqTransferID req) req (path (DestinationPath p)) Awaiting"
      using accept by (auto simp: offer_of_def intro!: exI [of _ ctx] exI [of _ h] exI [of _ p])
    then show ?thesis using accept(2) old seen by (auto intro: offer_of_later)
  next
    case refuse
    then show ?thesis using old seen by (auto intro: offer_of_later)
  next
    case (receive tid req k bs)
    from old [OF receive(3)] have "offer_of plan path (evs @ [ev]) tid req k (Stored bs)"
      using subseq_next [of "[Offered c req True]" evs ev for c] receive(1) by (fastforce simp: offer_of_def)
    then show ?thesis using receive(2) old seen by (auto intro: offer_of_later)
  next
    case (break tid req k bs)
    from old [OF break(3)] have "offer_of plan path (evs @ [ev]) tid req k Broken"
      by (auto simp: offer_of_def intro: subseq_later)
    then show ?thesis using break(2) old seen by (auto intro: offer_of_later)
  next
    case (turn_away b)
    then show ?thesis using old seen by (auto intro: offer_of_later)
  next
    case (publish tid req k c)
    from old [OF publish(3)] have "sent_to plan path (evs @ [ev]) k req c"
      using subseq_next [of "[Offered x req True, Delivered (Some (tid, c)) True]" evs ev for x] publish(1)
      by (fastforce simp: offer_of_def sent_to_def)
    then show ?thesis using publish(2,4) old seen by (auto intro: offer_of_later)
  next
    case (give_up tid res)
    then show ?thesis using old seen by (auto intro: offer_of_later split: if_splits)
  next
    case (register h)
    then show ?thesis using old seen by (auto intro: offer_of_later)
  qed
qed

section \<open>Properties\<close>

text \<open>
  C16: the receiver refines the abstract machine, answer for answer: whatever offers, bodies, commits and registrations come,
  in any order, with any contents and any failures of the disk, each of them is a step of the machine with the same request and
  the same answer, between the abstractions of the states before and after it.
\<close>

theorem receiver_refines_store:
  assumes "transfers_ok s" and "visible_plan plan (disk s)" and "transfer_trace plan s evs s'"
  shows "store_trace plan (os_path (disk s)) (abs_store s) evs (abs_store s')"
  using trace_refines [OF assms] by simp

text \<open>
  C26: what is published is what was sent: after any run of a receiver that starts without pending transfers, a file at a
  visible path is what it was before, or in this order there was an accepted offer that the registered function sends to this path, a
  body message with its transfer ID that holds exactly the bytes of the file, of the offered size and checksum, and a commit
  that was answered with this size and checksum.
\<close>

theorem published_file_was_sent:
  assumes "transfers_ok s" and "\<forall>tid. incoming s tid = None" and "visible_plan plan (disk s)"
    and "transfer_trace plan s evs s'" and "\<not> hidden k"
  shows "os_file (disk s') k = os_file (disk s) k
    \<or> (\<exists>req bs. sent_to plan (os_path (disk s)) evs k req bs \<and> verified req bs \<and> os_file (disk s') k = Some bs)"
proof -
  have "store_trace plan (os_path (disk s)) (abs_store s) evs (abs_store s')"
    using trace_refines [OF assms(1,3,4)] by simp
  moreover have "pending (abs_store s) tid = None" for tid using assms(2) by (simp add: pending_abs_store)
  ultimately have "visible (abs_store s') k = visible (abs_store s) k
      \<or> (\<exists>req bs. sent_to plan (os_path (disk s)) evs k req bs \<and> verified req bs \<and> visible (abs_store s') k = Some bs)"
    using store_trace_sent by blast
  with assms(5) show ?thesis by (simp add: abs_store_def)
qed

abbreviation sample_events :: "FileTransferResult \<Rightarrow> nat store_event list" where
  "sample_events res \<equiv> [Offered (\<lambda>_. None) sample_request True, Delivered (Some (''t'', [7, 8])) True, Committed ''t'' res]"

lemma sample_trace:
  obtains res s' where "transfer_trace sample_plan sample_receiver (sample_events res) s'" "OK res" "os_file (disk s') ''/a'' = Some [7, 8]"
proof -
  obtain resp s1 err msg' s2 res s3 where t:
    "handleOpen sample_plan (\<lambda>_. None) sample_request sample_receiver = (resp, s1)"
    "handleBody (\<lambda>_. None) (conn_message 1 TypeFileTransferBody 5) (s1\<lparr>input := sample_body\<rparr>) = Some (err, msg', s2)"
    "handleCommit (\<lambda>_. None) \<lparr>commitTransferID = ''t''\<rparr> s2 = (res, s3)" "Accepted resp" "err = None" "OK res" "os_file (disk s3) ''/a'' = Some [7, 8]"
    by (rule sample_transfer)
  have "Uint16 [0, 1] = 1" "string_of [116] = ''t''" by code_simp+
  then have sent: "body_sent (conn_message 1 TypeFileTransferBody 5) sample_body = Some (''t'', [7, 8])"
    by (simp add: body_sent_def conn_message_def sample_payload(1) parse_body_def Let_def)
  from seen_snoc [OF seen_snoc [OF seen_snoc [OF seen_nil on_open [OF t(1)]] on_body [OF t(2)]] on_commit [OF t(3)]]
  show thesis using that [of res s3] t(4-7) sent by simp
qed

theorem receiver_refines_store_witness:
  "\<exists>res s'. OK res \<and> transfer_trace sample_plan sample_receiver (sample_events res) s'
    \<and> store_trace sample_plan (os_path (disk sample_receiver)) \<lparr>taker = Some 0, pending = (\<lambda>_. None), visible = (\<lambda>_. None)\<rparr>
        (sample_events res) (abs_store s')"
proof -
  obtain res s' where t: "transfer_trace sample_plan sample_receiver (sample_events res) s'" "OK res" by (rule sample_trace)
  have "abs_store sample_receiver = \<lparr>taker = Some 0, pending = (\<lambda>_. None), visible = (\<lambda>_. None)\<rparr>"
    using sample_receiver_ok(2,5,6) by (auto simp: abs_store_def os_file_def)
  with receiver_refines_store [OF sample_receiver_ok(1,4) t(1)] t show ?thesis by auto
qed

theorem published_file_was_sent_witness:
  "\<exists>res s' req. OK res \<and> transfer_trace sample_plan sample_receiver (sample_events res) s' \<and> os_file (disk s') ''/a'' = Some [7, 8]
    \<and> sent_to sample_plan (os_path (disk sample_receiver)) (sample_events res) ''/a'' req [7, 8] \<and> verified req [7, 8]"
proof -
  obtain res s' where t: "transfer_trace sample_plan sample_receiver (sample_events res) s'" "OK res" "os_file (disk s') ''/a'' = Some [7, 8]"
    by (rule sample_trace)
  have "os_file (disk sample_receiver) ''/a'' = None" by (simp add: os_file_def sample_receiver_ok(6))
  with published_file_was_sent [OF sample_receiver_ok(1,2,4) t(1) sample_paths(2)] t show ?thesis by auto
qed

end
