(* ===== verification/Go_FS.thy ===== *)
theory Go_FS
  imports Go_Path Go_IO
begin

text \<open>
  A file tree with directories and symbolic links, and the system calls that the drives use on it. A place in the tree is
  the list of names that leads to it from the root. A path is resolved component by component, following the links it meets,
  at most 40 of them. As in \<open>Go_OS\<close>, a script decides which system calls fail.
\<close>

section \<open>The tree\<close>

datatype node = Dir | File "byte list" | Link string

type_synonym tree = "string list \<Rightarrow> node option"

record fs =
  tree :: tree
  fsFaults :: "error option list"
  fsReadEnd :: "string list \<Rightarrow> error"

definition node_at :: "tree \<Rightarrow> string list \<Rightarrow> node option" where
  "node_at t p = (if p = [] then Some Dir else t p)"

definition fs_sys :: "fs \<Rightarrow> error option \<times> fs" where
  "fs_sys s = (case fsFaults s of [] \<Rightarrow> (None, s) | f # ff \<Rightarrow> (f, s\<lparr>fsFaults := ff\<rparr>))"

text \<open>
  The place of a path; \<open>cur\<close> is the directory reached so far and \<open>k\<close> bounds the links still to be followed. The last
  component need not exist.
\<close>

function walk :: "nat \<Rightarrow> tree \<Rightarrow> string list \<Rightarrow> string list \<Rightarrow> string list result" where
  "walk k t cur [] = Inr cur"
| "walk k t cur (c # cs) =
     (if c = ''..'' then walk k t (butlast cur) cs
      else (case t (cur @ [c]) of
              Some Dir \<Rightarrow> walk k t (cur @ [c]) cs
            | Some (Link target) \<Rightarrow>
                (case k of
                   0 \<Rightarrow> Inl (LibE ErrTooManyLinks)
                 | Suc k' \<Rightarrow> walk k' t (if IsAbs target then [] else cur) (comps target @ cs))
            | Some (File b) \<Rightarrow> if cs = [] then Inr (cur @ [c]) else Inl (LibE ErrNotDir)
            | None \<Rightarrow> if cs = [] then Inr (cur @ [c]) else Inl (LibE ErrNotExist)))"
  by pat_completeness auto
termination
  by (relation "inv_image (less_than <*lex*> less_than) (\<lambda>(k, t, cur, cs). (k, length cs))") auto

declare walk.simps(2) [simp del]

abbreviation resolve :: "tree \<Rightarrow> string list \<Rightarrow> string list result" where
  "resolve t cs \<equiv> walk 40 t [] cs"

text \<open>\<^verbatim>\<open>os.Lstat\<close>: the node itself, also when it is a link.\<close>

definition lstat_node :: "tree \<Rightarrow> string list \<Rightarrow> node result" where
  "lstat_node t cs =
     (if cs = [] then Inr Dir
      else (case resolve t (butlast cs) of
              Inl e \<Rightarrow> Inl e
            | Inr d \<Rightarrow>
                (case node_at t d of
                   Some Dir \<Rightarrow> (case t (d @ [last cs]) of None \<Rightarrow> Inl (LibE ErrNotExist) | Some n \<Rightarrow> Inr n)
                 | None \<Rightarrow> Inl (LibE ErrNotExist)
                 | Some _ \<Rightarrow> Inl (LibE ErrNotDir))))"

definition fs_Lstat :: "string \<Rightarrow> fs \<Rightarrow> node result \<times> fs" where
  "fs_Lstat p s = (case fs_sys s of (Some e, s1) \<Rightarrow> (Inl e, s1) | (None, s1) \<Rightarrow> (lstat_node (tree s1) (comps p), s1))"

text \<open>
  \<^verbatim>\<open>os.MkdirAll\<close>. The components \<open>es\<close> come from a link and must exist; a missing component of \<open>cs\<close> is
  created, which the script may refuse.
\<close>

function mkdirs :: "nat \<Rightarrow> string list \<Rightarrow> string list \<Rightarrow> string list \<Rightarrow> fs \<Rightarrow> error option \<times> fs" where
  "mkdirs k cur [] [] s = (None, s)"
| "mkdirs k cur (e # es) cs s =
     (if e = ''..'' then mkdirs k (butlast cur) es cs s
      else (case tree s (cur @ [e]) of
              Some Dir \<Rightarrow> mkdirs k (cur @ [e]) es cs s
            | Some (Link target) \<Rightarrow>
                (case k of
                   0 \<Rightarrow> (Some (LibE ErrTooManyLinks), s)
                 | Suc k' \<Rightarrow> mkdirs k' (if IsAbs target then [] else cur) (comps target @ es) cs s)
            | Some (File b) \<Rightarrow> (Some (LibE ErrNotDir), s)
            | None \<Rightarrow> (Some (LibE ErrFileExists), s)))"
| "mkdirs k cur [] (c # cs) s =
     (if c = ''..'' then mkdirs k (butlast cur) [] cs s
      else (case tree s (cur @ [c]) of
              Some Dir \<Rightarrow> mkdirs k (cur @ [c]) [] cs s
            | Some (Link target) \<Rightarrow>
                (case k of
                   0 \<Rightarrow> (Some (LibE ErrTooManyLinks), s)
                 | Suc k' \<Rightarrow> mkdirs k' (if IsAbs target then [] else cur) (comps target) cs s)
            | Some (File b) \<Rightarrow> (Some (LibE ErrNotDir), s)
            | None \<Rightarrow>
                (case fs_sys s of
                   (Some x, s1) \<Rightarrow> (Some x, s1)
                 | (None, s1) \<Rightarrow> mkdirs k (cur @ [c]) [] cs (s1\<lparr>tree := (tree s1)(cur @ [c] \<mapsto> Dir)\<rparr>))))"
  by pat_completeness auto
termination
  by (relation "inv_image (less_than <*lex*> less_than) (\<lambda>(k, cur, es, cs, s). (k, length es + length cs))") auto

declare mkdirs.simps(2,3) [simp del]

definition fs_MkdirAll :: "string \<Rightarrow> fs \<Rightarrow> error option \<times> fs" where
  "fs_MkdirAll p s = mkdirs 40 [] [] (comps p) s"

text \<open>\<^verbatim>\<open>os.OpenFile\<close> with \<^verbatim>\<open>O_CREATE|O_TRUNC|O_WRONLY\<close>: the place of the file, which is empty afterwards.\<close>

definition fs_OpenTrunc :: "string \<Rightarrow> fs \<Rightarrow> string list result \<times> fs" where
  "fs_OpenTrunc p s =
     (case fs_sys s of
        (Some e, s1) \<Rightarrow> (Inl e, s1)
      | (None, s1) \<Rightarrow>
          if p = '''' then (Inl (LibE ErrNotExist), s1)
          else
          (case resolve (tree s1) (comps p) of
             Inl e \<Rightarrow> (Inl e, s1)
           | Inr loc \<Rightarrow>
               (case node_at (tree s1) loc of
                  Some Dir \<Rightarrow> (Inl (LibE ErrIsDir), s1)
                | _ \<Rightarrow> (Inr loc, s1\<lparr>tree := (tree s1)(loc \<mapsto> File [])\<rparr>))))"

text \<open>\<^verbatim>\<open>File.Write\<close> on the open file at a place.\<close>

definition fs_Write :: "string list \<Rightarrow> fs \<Rightarrow> byte list \<Rightarrow> error option \<times> fs" where
  "fs_Write loc s bs =
     (case fs_sys s of
        (Some e, s1) \<Rightarrow> (Some e, s1)
      | (None, s1) \<Rightarrow>
          (None, s1\<lparr>tree := (tree s1)(loc \<mapsto> File ((case tree s1 loc of Some (File b) \<Rightarrow> b | _ \<Rightarrow> []) @ bs))\<rparr>))"

definition fs_Close :: "fs \<Rightarrow> error option \<times> fs" where
  "fs_Close s = fs_sys s"

definition fs_Open :: "string \<Rightarrow> fs \<Rightarrow> conn result \<times> fs" where
  "fs_Open p s =
     (case fs_sys s of
        (Some e, s1) \<Rightarrow> (Inl e, s1)
      | (None, s1) \<Rightarrow>
          if p = '''' then (Inl (LibE ErrNotExist), s1)
          else
          (case resolve (tree s1) (comps p) of
             Inl e \<Rightarrow> (Inl e, s1)
           | Inr loc \<Rightarrow>
               (case node_at (tree s1) loc of
                  Some (File b) \<Rightarrow> (Inr (if b = [] then [] else [b], fsReadEnd s1 loc), s1)
                | Some _ \<Rightarrow> (Inr ([], LibE ErrIsDir), s1)
                | None \<Rightarrow> (Inl (LibE ErrNotExist), s1))))"

text \<open>\<^verbatim>\<open>os.ReadFile\<close>: open the file and read it to the end.\<close>

definition fs_ReadFile :: "string \<Rightarrow> fs \<Rightarrow> byte list result \<times> fs" where
  "fs_ReadFile p s =
     (case fs_Open p s of
        (Inl e, s1) \<Rightarrow> (Inl e, s1)
      | (Inr (segs, end), s1) \<Rightarrow> (if end = LibE EOF then Inr (concat segs) else Inl end, s1))"

text \<open>\<^verbatim>\<open>os.Stat\<close>: whether the node at the end of the links is a directory, and its size.\<close>

definition fs_Stat :: "string \<Rightarrow> fs \<Rightarrow> (bool \<times> nat) result \<times> fs" where
  "fs_Stat p s =
     (case fs_sys s of
        (Some e, s1) \<Rightarrow> (Inl e, s1)
      | (None, s1) \<Rightarrow>
          if p = '''' then (Inl (LibE ErrNotExist), s1)
          else
          (case resolve (tree s1) (comps p) of
             Inl e \<Rightarrow> (Inl e, s1)
           | Inr loc \<Rightarrow>
               (case node_at (tree s1) loc of
                  Some (File b) \<Rightarrow> (Inr (False, length b), s1)
                | Some _ \<Rightarrow> (Inr (True, 4096), s1)
                | None \<Rightarrow> (Inl (LibE ErrNotExist), s1))))"

text \<open>
  \<^verbatim>\<open>os.Remove\<close> does not follow a link at the end of the path and removes a directory only when it is empty;
  \<^verbatim>\<open>os.RemoveAll\<close> removes everything below the place and does not mind a missing one.
\<close>

definition parent_place :: "tree \<Rightarrow> string list \<Rightarrow> string list result" where
  "parent_place t cs =
     (if cs = [] then Inl (Msg ''invalid argument'')
      else (case resolve t (butlast cs) of Inl e \<Rightarrow> Inl e | Inr d \<Rightarrow> Inr (d @ [last cs])))"

definition fs_Remove :: "string \<Rightarrow> fs \<Rightarrow> error option \<times> fs" where
  "fs_Remove p s =
     (case fs_sys s of
        (Some e, s1) \<Rightarrow> (Some e, s1)
      | (None, s1) \<Rightarrow>
          (case parent_place (tree s1) (comps p) of
             Inl e \<Rightarrow> (Some e, s1)
           | Inr loc \<Rightarrow>
               if tree s1 loc = None then (Some (LibE ErrNotExist), s1)
               else if tree s1 loc = Some Dir \<and> (\<exists>c. tree s1 (loc @ [c]) \<noteq> None) then (Some (Msg ''directory not empty''), s1)
               else (None, s1\<lparr>tree := (tree s1)(loc := None)\<rparr>)))"

definition fs_RemoveAll :: "string \<Rightarrow> fs \<Rightarrow> error option \<times> fs" where
  "fs_RemoveAll p s =
     (if p = '''' then (None, s)
      else case fs_sys s of
        (Some e, s1) \<Rightarrow> (Some e, s1)
      | (None, s1) \<Rightarrow>
          (case parent_place (tree s1) (comps p) of
             Inl e \<Rightarrow> (if errors_Is e (LibE ErrNotExist) then None else Some e, s1)
           | Inr loc \<Rightarrow>
               (None, s1\<lparr>tree := (\<lambda>q. if take (length loc) q = loc then None else tree s1 q)\<rparr>)))"

text \<open>\<^verbatim>\<open>os.Mkdir\<close>.\<close>

definition fs_Mkdir :: "string \<Rightarrow> fs \<Rightarrow> error option \<times> fs" where
  "fs_Mkdir p s =
     (case fs_sys s of
        (Some e, s1) \<Rightarrow> (Some e, s1)
      | (None, s1) \<Rightarrow>
          (case parent_place (tree s1) (comps p) of
             Inl e \<Rightarrow> (Some e, s1)
           | Inr loc \<Rightarrow>
               if tree s1 loc \<noteq> None then (Some (LibE ErrFileExists), s1)
               else if node_at (tree s1) (butlast loc) \<noteq> Some Dir then (Some (LibE ErrNotExist), s1)
               else (None, s1\<lparr>tree := (tree s1)(loc \<mapsto> Dir)\<rparr>)))"

section \<open>Paths without links\<close>

text \<open>Every node is in a directory.\<close>

definition tree_ok :: "tree \<Rightarrow> bool" where
  "tree_ok t \<longleftrightarrow> (\<forall>p c. t (p @ [c]) \<noteq> None \<longrightarrow> node_at t p = Some Dir)"

lemma fs_sys_tree [simp]: "fs_sys s = (f, s') \<Longrightarrow> tree s' = tree s"
  by (auto simp: fs_sys_def split: list.splits)

lemma fs_sys_healthy: "fsFaults s = [] \<Longrightarrow> fs_sys s = (None, s)"
  by (simp add: fs_sys_def)

lemma node_at_snoc [simp]: "node_at t (p @ [c]) = t (p @ [c])"
  by (simp add: node_at_def)

text \<open>The names \<open>ns\<close> from the directory \<open>m\<close> on: all but the last are directories.\<close>

fun dirs_from :: "tree \<Rightarrow> string list \<Rightarrow> string list \<Rightarrow> bool" where
  "dirs_from t m [] \<longleftrightarrow> True"
| "dirs_from t m (n # ns) \<longleftrightarrow> t (m @ [n]) = Some Dir \<and> dirs_from t (m @ [n]) ns"

lemma dirs_from_append: "dirs_from t m (xs @ ys) \<longleftrightarrow> dirs_from t m xs \<and> dirs_from t (m @ xs) ys"
  by (induction xs arbitrary: m) auto

lemma dirs_from_node: "node_at t m = Some Dir \<Longrightarrow> dirs_from t m ns \<Longrightarrow> node_at t (m @ ns) = Some Dir"
  by (induction ns rule: rev_induct) (auto simp: dirs_from_append simp flip: append_assoc)

lemma walk_dirs: "dirs_from t m ns \<Longrightarrow> names ns \<Longrightarrow> walk k t m (ns @ cs) = walk k t (m @ ns) cs"
  by (induction ns arbitrary: m) (auto simp: walk.simps names_def)

text \<open>A path that leads to a directory can be walked on from there.\<close>

lemma walk_append:
  "walk k t cur xs = Inr m \<Longrightarrow> node_at t m = Some Dir \<Longrightarrow>
   \<exists>k'. \<forall>ys. walk k t cur (xs @ ys) = walk k' t m ys"
proof (induction k t cur xs rule: walk.induct)
  case (1 k t cur)
  then show ?case by auto
next
  case (2 k t cur c cs)
  show ?case
  proof (cases "c = ''..''")
    case True
    with 2 show ?thesis by (simp add: walk.simps)
  next
    case nd: False
    show ?thesis
    proof (cases "t (cur @ [c])")
      case None
      with 2(4,5) nd have "m = cur @ [c]" by (auto simp: walk.simps split: if_splits)
      with None 2(5) show ?thesis by simp
    next
      case (Some n)
      show ?thesis
      proof (cases n)
        case Dir
        with 2 nd Some show ?thesis by (simp add: walk.simps)
      next
        case (File b)
        with 2(4) nd Some have "m = cur @ [c]" by (auto simp: walk.simps split: if_splits)
        with Some File 2(5) show ?thesis by simp
      next
        case (Link target)
        with 2(4) nd Some obtain k1 where "k = Suc k1" by (auto simp: walk.simps split: nat.splits)
        with 2(3) [OF nd Some Link this] 2(4,5) nd Some Link show ?thesis by (simp add: walk.simps)
      qed
    qed
  qed
qed

lemma lstat_node_dirs:
  assumes "resolve t cs = Inr m" and "node_at t m = Some Dir" and "dirs_from t m ns" and "names ns"
  shows "lstat_node t (cs @ ns @ [n]) = (case t (m @ ns @ [n]) of None \<Rightarrow> Inl (LibE ErrNotExist) | Some x \<Rightarrow> Inr x)"
proof -
  obtain k' where "\<And>ys. resolve t (cs @ ys) = walk k' t m ys" using walk_append [OF assms(1,2)] by blast
  then have "resolve t (cs @ ns) = Inr (m @ ns)" using walk_dirs [OF assms(3,4), of k' "[]"] by simp
  moreover have "node_at t (m @ ns) = Some Dir" using dirs_from_node [OF assms(2,3)] .
  ultimately show ?thesis by (simp add: lstat_node_def butlast_append flip: append_assoc)
qed

lemma resolve_plain:
  assumes "resolve t cs = Inr m" and "node_at t m = Some Dir" and "dirs_from t m ns" and "names (ns @ [n])"
    and "\<forall>l. t (m @ ns @ [n]) \<noteq> Some (Link l)"
  shows "resolve t (cs @ ns @ [n]) = Inr (m @ ns @ [n])"
proof -
  obtain k' where "\<And>ys. resolve t (cs @ ys) = walk k' t m ys" using walk_append [OF assms(1,2)] by blast
  moreover have "walk k' t m (ns @ [n]) = walk k' t (m @ ns) [n]"
    using walk_dirs [OF assms(3)] assms(4) by (simp add: names_def)
  ultimately show ?thesis using assms(4,5)
    by (auto simp: walk.simps names_def split: option.splits node.splits)
qed

section \<open>Making directories\<close>

lemma mkdirs_walk:
  "walk k (tree s) cur (es @ xs) = Inr m \<Longrightarrow> node_at (tree s) m = Some Dir \<Longrightarrow>
   \<exists>k'. \<forall>ys. mkdirs k cur es (xs @ ys) s = mkdirs k' m [] ys s"
proof (induction k cur es xs s rule: mkdirs.induct)
  case (1 k cur s)
  then show ?case by auto
next
  case (2 k cur e es cs s)
  show ?case
  proof (cases "e = ''..''")
    case True
    with 2 show ?thesis by (simp add: walk.simps mkdirs.simps)
  next
    case nd: False
    show ?thesis
    proof (cases "tree s (cur @ [e])")
      case None
      with 2(4,5) nd have "m = cur @ [e]" by (auto simp: walk.simps split: if_splits)
      with None 2(5) show ?thesis by simp
    next
      case (Some n)
      show ?thesis
      proof (cases n)
        case Dir
        with 2 nd Some show ?thesis by (simp add: walk.simps mkdirs.simps)
      next
        case (File b)
        with 2(4) nd Some have "m = cur @ [e]" by (auto simp: walk.simps split: if_splits)
        with Some File 2(5) show ?thesis by simp
      next
        case (Link target)
        with 2(4) nd Some obtain k1 where "k = Suc k1" by (auto simp: walk.simps split: nat.splits)
        with 2(3) [OF nd Some Link this] 2(4,5) nd Some Link show ?thesis by (simp add: walk.simps mkdirs.simps)
      qed
    qed
  qed
next
  case (3 k cur c cs s)
  show ?case
  proof (cases "c = ''..''")
    case True
    with 3 show ?thesis by (simp add: walk.simps mkdirs.simps)
  next
    case nd: False
    show ?thesis
    proof (cases "tree s (cur @ [c])")
      case None
      with 3(5,6) nd have "m = cur @ [c]" by (auto simp: walk.simps split: if_splits)
      with None 3(6) show ?thesis by simp
    next
      case (Some n)
      show ?thesis
      proof (cases n)
        case Dir
        with 3 nd Some show ?thesis by (simp add: walk.simps mkdirs.simps)
      next
        case (File b)
        with 3(5) nd Some have "m = cur @ [c]" by (auto simp: walk.simps split: if_splits)
        with Some File 3(6) show ?thesis by simp
      next
        case (Link target)
        with 3(5) nd Some obtain k1 where "k = Suc k1" by (auto simp: walk.simps split: nat.splits)
        with 3(4) [OF nd Some Link this] 3(5,6) nd Some Link show ?thesis by (simp add: walk.simps mkdirs.simps)
      qed
    qed
  qed
qed

text \<open>No link on the way from \<open>m\<close> along \<open>ns\<close>.\<close>

definition no_links :: "tree \<Rightarrow> string list \<Rightarrow> string list \<Rightarrow> bool" where
  "no_links t m ns \<longleftrightarrow> (\<forall>q r l. ns = q @ r \<longrightarrow> q \<noteq> [] \<longrightarrow> t (m @ q) \<noteq> Some (Link l))"

lemma no_links_Cons: "no_links t m (n # ns) \<longleftrightarrow> (\<forall>l. t (m @ [n]) \<noteq> Some (Link l)) \<and> no_links t (m @ [n]) ns"
proof
  assume l: "no_links t m (n # ns)"
  show "(\<forall>l. t (m @ [n]) \<noteq> Some (Link l)) \<and> no_links t (m @ [n]) ns"
    unfolding no_links_def
  proof (intro conjI allI impI)
    show "t (m @ [n]) \<noteq> Some (Link l)" for l
      using l [unfolded no_links_def, rule_format, of "[n]" ns] by simp
    show "t ((m @ [n]) @ q) \<noteq> Some (Link l)" if "ns = q @ r" for q r l
      using l [unfolded no_links_def, rule_format, of "n # q" r] that by simp
  qed
next
  assume r: "(\<forall>l. t (m @ [n]) \<noteq> Some (Link l)) \<and> no_links t (m @ [n]) ns"
  show "no_links t m (n # ns)"
    unfolding no_links_def
  proof (intro allI impI)
    fix q r' l
    assume q: "n # ns = q @ r'" "q \<noteq> []"
    then obtain q' where "q = n # q'" "ns = q' @ r'" by (cases q) auto
    with r show "t (m @ q) \<noteq> Some (Link l)" unfolding no_links_def by (cases "q' = []") auto
  qed
qed

text \<open>What changes below a directory: new directories and one file.\<close>

definition new_dirs :: "tree \<Rightarrow> tree \<Rightarrow> string list \<Rightarrow> string list \<Rightarrow> bool" where
  "new_dirs t t' m ns \<longleftrightarrow>
     (\<forall>p. t' p = t p \<or> t p = None \<and> t' p = Some Dir \<and> (\<exists>q r. ns = q @ r \<and> q \<noteq> [] \<and> p = m @ q))"

lemma new_dirs_refl [simp]: "new_dirs t t m ns"
  by (simp add: new_dirs_def)

lemma new_dirs_old: "new_dirs t t' m ns \<Longrightarrow> t p = Some x \<Longrightarrow> t' p = Some x"
  unfolding new_dirs_def by (metis option.distinct(1))

lemma new_dirs_Cons: "new_dirs t t' (m @ [n]) ns \<Longrightarrow> new_dirs t t' m (n # ns)"
  unfolding new_dirs_def by (metis append.assoc append_Cons append_Nil list.distinct(1))

lemma tree_ok_below: "tree_ok t \<Longrightarrow> t p = None \<Longrightarrow> p \<noteq> [] \<Longrightarrow> t (p @ [c]) = None"
  unfolding tree_ok_def node_at_def by (metis option.distinct(1))

lemma tree_ok_below_any:
  assumes "tree_ok t" and "t p = None" and "p \<noteq> []"
  shows "t (p @ q) = None"
proof (induction q rule: rev_induct)
  case Nil
  then show ?case using assms(2) by simp
next
  case (snoc c q)
  with tree_ok_below [OF assms(1), of "p @ q"] assms(3) show ?case by simp
qed

lemma mkdirs_plain:
  "node_at (tree s) m = Some Dir \<Longrightarrow> tree_ok (tree s) \<Longrightarrow> names ns \<Longrightarrow> no_links (tree s) m ns \<Longrightarrow>
   mkdirs k m [] ns s = (e, s') \<Longrightarrow>
   tree_ok (tree s') \<and> new_dirs (tree s) (tree s') m ns \<and> (e = None \<longrightarrow> dirs_from (tree s') m ns)"
proof (induction ns arbitrary: m s)
  case Nil
  then show ?case by simp
next
  case (Cons n ns)
  from Cons.prems(3) have n: "n \<noteq> ''..''" "names ns" by (auto simp: names_def)
  from Cons.prems(4) have nl: "\<forall>l. tree s (m @ [n]) \<noteq> Some (Link l)" "no_links (tree s) (m @ [n]) ns"
    by (simp_all add: no_links_Cons)
  show ?case
  proof (cases "tree s (m @ [n])")
    case (Some x)
    show ?thesis
    proof (cases x)
      case Dir
      then have "mkdirs k (m @ [n]) [] ns s = (e, s')" using Cons.prems(5) n Some by (simp add: mkdirs.simps)
      with Cons.IH [of s "m @ [n]"] Cons.prems(2) n(2) nl(2) Some Dir
      have i: "tree_ok (tree s') \<and> new_dirs (tree s) (tree s') (m @ [n]) ns \<and> (e = None \<longrightarrow> dirs_from (tree s') (m @ [n]) ns)"
        by simp
      then have "tree s' (m @ [n]) = Some Dir" using Some Dir new_dirs_old by blast
      with i new_dirs_Cons show ?thesis by auto
    next
      case (File b)
      with Cons.prems n Some show ?thesis by (auto simp: mkdirs.simps)
    qed (use nl Some in simp)
  next
    case None
    obtain x s1 where sy: "fs_sys s = (x, s1)" by (cases "fs_sys s")
    have t1: "tree s1 = tree s" using sy by simp
    show ?thesis
    proof (cases x)
      case (Some err)
      with Cons.prems None sy n show ?thesis by (auto simp: mkdirs.simps)
    next
      case x: None
      let ?s = "s1\<lparr>tree := (tree s)(m @ [n] \<mapsto> Dir)\<rparr>"
      have run: "mkdirs k (m @ [n]) [] ns ?s = (e, s')"
        using Cons.prems(5) n None sy x t1 by (simp add: mkdirs.simps)
      have ok: "tree_ok (tree ?s)"
        unfolding tree_ok_def
      proof (intro allI impI)
        fix p c
        assume a: "tree ?s (p @ [c]) \<noteq> None"
        show "node_at (tree ?s) p = Some Dir"
        proof (cases "p = m @ [n] \<or> p @ [c] = m @ [n]")
          case True
          with Cons.prems(1) show ?thesis by (auto simp: node_at_def)
        next
          case False
          with a have "tree s (p @ [c]) \<noteq> None" by auto
          with Cons.prems(2) have "node_at (tree s) p = Some Dir" unfolding tree_ok_def by blast
          with False show ?thesis by (auto simp: node_at_def split: if_splits)
        qed
      qed
      have below: "tree s ((m @ [n]) @ q) = None" for q
        by (rule tree_ok_below_any [OF Cons.prems(2) None]) simp
      have nl': "no_links (tree ?s) (m @ [n]) ns" using below by (simp add: no_links_def)
      have nd: "node_at (tree ?s) (m @ [n]) = Some Dir" by simp
      note i = Cons.IH [OF nd ok n(2) nl' run, THEN conjunct1] Cons.IH [OF nd ok n(2) nl' run, THEN conjunct2, THEN conjunct1]
        Cons.IH [OF nd ok n(2) nl' run, THEN conjunct2, THEN conjunct2]
      have d: "tree s' (m @ [n]) = Some Dir" by (rule new_dirs_old [OF i(2)]) simp
      have "new_dirs (tree s) (tree s') m (n # ns)"
        unfolding new_dirs_def
      proof
        fix p
        show "tree s' p = tree s p \<or> tree s p = None \<and> tree s' p = Some Dir \<and> (\<exists>q r. n # ns = q @ r \<and> q \<noteq> [] \<and> p = m @ q)"
        proof (cases "p = m @ [n]")
          case True
          with d None show ?thesis by (intro disjI2) auto
        next
          case False
          then show ?thesis using new_dirs_Cons [OF i(2), unfolded new_dirs_def, rule_format, of p] by auto
        qed
      qed
      with i d show ?thesis by simp
    qed
  qed
qed

text \<open>New nodes and other file contents do not change where a path to a directory leads.\<close>

lemma walk_extends:
  "walk k t cur xs = Inr m \<Longrightarrow> node_at t m = Some Dir \<Longrightarrow> (\<And>p x. t p = Some x \<Longrightarrow> \<forall>b. x \<noteq> File b \<Longrightarrow> t' p = Some x) \<Longrightarrow>
   walk k t' cur xs = Inr m"
proof (induction k t cur xs rule: walk.induct)
  case (1 k t cur)
  then show ?case by simp
next
  case (2 k t cur c cs)
  show ?case
  proof (cases "c = ''..''")
    case True
    with 2 show ?thesis by (simp add: walk.simps)
  next
    case nd: False
    show ?thesis
    proof (cases "t (cur @ [c])")
      case None
      with 2(4,5) nd have "m = cur @ [c]" by (auto simp: walk.simps split: if_splits)
      with None 2(5) show ?thesis by simp
    next
      case (Some n)
      show ?thesis
      proof (cases n)
        case Dir
        with 2 nd Some 2(6) [OF Some] show ?thesis by (simp add: walk.simps)
      next
        case (File b)
        with 2(4) nd Some have "m = cur @ [c]" by (auto simp: walk.simps split: if_splits)
        with Some File 2(5) show ?thesis by simp
      next
        case (Link target)
        with 2(4) nd Some obtain k1 where k: "k = Suc k1" by (auto simp: walk.simps split: nat.splits)
        with 2(4) nd Some Link have "walk k1 t (if IsAbs target then [] else cur) (comps target @ cs) = Inr m"
          by (simp add: walk.simps)
        from 2(3) [OF nd Some Link k this 2(5,6)] k nd 2(6) [OF Some] Link show ?thesis by (simp add: walk.simps)
      qed
    qed
  qed
qed

text \<open>Making the directories on a path that exists makes none.\<close>

lemma mkdirs_same:
  "walk k (tree s) cur (es @ cs @ ys) = Inr m \<Longrightarrow> node_at (tree s) m = Some Dir \<Longrightarrow>
   tree (snd (mkdirs k cur es cs s)) = tree s"
proof (induction k cur es cs s rule: mkdirs.induct)
  case (1 k cur s)
  then show ?case by simp
next
  case (2 k cur e es cs s)
  show ?case
  proof (cases "e = ''..''")
    case True
    with 2 show ?thesis by (simp add: walk.simps mkdirs.simps)
  next
    case nd: False
    show ?thesis
    proof (cases "tree s (cur @ [e])")
      case None
      with 2(4,5) nd have "m = cur @ [e]" by (auto simp: walk.simps split: if_splits)
      with None 2(5) show ?thesis by simp
    next
      case (Some n)
      show ?thesis
      proof (cases n)
        case (Link target)
        with 2(4) nd Some obtain k1 where k: "k = Suc k1" by (auto simp: walk.simps split: nat.splits)
        with 2(4) nd Some Link have "walk k1 (tree s) (if IsAbs target then [] else cur) ((comps target @ es) @ cs @ ys) = Inr m"
          by (simp add: walk.simps)
        from 2(3) [OF nd Some Link k this 2(5)] k nd Some Link show ?thesis by (simp add: mkdirs.simps)
      qed (use 2 nd Some in \<open>simp_all add: walk.simps mkdirs.simps\<close>)
    qed
  qed
next
  case (3 k cur c cs s)
  show ?case
  proof (cases "c = ''..''")
    case True
    with 3 show ?thesis by (simp add: walk.simps mkdirs.simps)
  next
    case nd: False
    show ?thesis
    proof (cases "tree s (cur @ [c])")
      case None
      with 3(5,6) nd have "m = cur @ [c]" by (auto simp: walk.simps split: if_splits)
      with None 3(6) show ?thesis by simp
    next
      case (Some n)
      show ?thesis
      proof (cases n)
        case (Link target)
        with 3(5) nd Some obtain k1 where k: "k = Suc k1" by (auto simp: walk.simps split: nat.splits)
        with 3(5) nd Some Link have "walk k1 (tree s) (if IsAbs target then [] else cur) (comps target @ cs @ ys) = Inr m"
          by (simp add: walk.simps)
        with 3(4) [OF nd Some Link k _ 3(6)] k nd Some Link show ?thesis by (simp add: mkdirs.simps)
      qed (use 3 nd Some in \<open>simp_all add: walk.simps mkdirs.simps\<close>)
    qed
  qed
qed

text \<open>New nodes do not change where a path to an existing node leads, and making directories only adds nodes.\<close>

lemma walk_grows:
  "walk k t cur xs = Inr m \<Longrightarrow> node_at t m \<noteq> None \<Longrightarrow> (\<And>p x. t p = Some x \<Longrightarrow> t' p = Some x) \<Longrightarrow> walk k t' cur xs = Inr m"
proof (induction k t cur xs rule: walk.induct)
  case (1 k t cur)
  then show ?case by simp
next
  case (2 k t cur c cs)
  show ?case
  proof (cases "c = ''..''")
    case True
    with 2 show ?thesis by (simp add: walk.simps)
  next
    case nd: False
    show ?thesis
    proof (cases "t (cur @ [c])")
      case None
      with 2(4,5) nd have "m = cur @ [c]" by (auto simp: walk.simps split: if_splits)
      with None 2(5) show ?thesis by simp
    next
      case (Some n)
      note s' = 2(6) [OF Some]
      show ?thesis
      proof (cases n)
        case Dir
        with 2 nd Some s' show ?thesis by (simp add: walk.simps)
      next
        case (File b)
        with 2(4) nd Some s' show ?thesis by (auto simp: walk.simps split: if_splits)
      next
        case (Link target)
        with 2(4) nd Some obtain k1 where k: "k = Suc k1" by (auto simp: walk.simps split: nat.splits)
        with 2(4) nd Some Link have "walk k1 t (if IsAbs target then [] else cur) (comps target @ cs) = Inr m"
          by (simp add: walk.simps)
        from 2(3) [OF nd Some Link k this 2(5,6)] k nd s' Link show ?thesis by (simp add: walk.simps)
      qed
    qed
  qed
qed

lemma mkdirs_grows: "tree s p = Some x \<Longrightarrow> tree (snd (mkdirs k cur es cs s)) p = Some x"
proof (induction k cur es cs s rule: mkdirs.induct)
  case (1 k cur s)
  then show ?case by simp
next
  case (2 k cur e es cs s)
  have link: "tree (snd (mkdirs k' d (comps l @ es) cs s)) p = Some x"
    if "e \<noteq> ''..''" "tree s (cur @ [e]) = Some (Link l)" "k = Suc k'" "d = (if IsAbs l then [] else cur)" for l k' d
    using 2(3) [OF that(1,2) _ that(3) 2(4)] that(4) by simp
  show ?case using 2(1,2,4) by (simp add: mkdirs.simps link split: option.split node.split nat.split)
next
  case (3 k cur c cs s)
  have link: "tree (snd (mkdirs k' d (comps l) cs s)) p = Some x"
    if "c \<noteq> ''..''" "tree s (cur @ [c]) = Some (Link l)" "k = Suc k'" "d = (if IsAbs l then [] else cur)" for l k' d
    using 3(4) [OF that(1,2) _ that(3) 3(5)] that(4) by simp
  obtain f s1 where y: "fs_sys s = (f, s1)" by (cases "fs_sys s")
  then have "tree s1 = tree s" by simp
  moreover have "tree s (cur @ [c]) = None \<Longrightarrow> p \<noteq> cur @ [c]" using 3(5) by auto
  ultimately show ?case using y 3(1,2,3,5) by (auto simp: mkdirs.simps link split: option.split node.split nat.split)
qed

end
