(* ===== verification/Go_Host.thy ===== *)
theory Go_Host
  imports Go_FS Go_OS
begin

text \<open>
  The machine that the drives run on: its file tree, the user, the commands that can be found and run
  (\<^verbatim>\<open>os/exec\<close>), and the memory that holds key material. What a command prints, whether it can be started,
  how it exits and what it does to the file tree is the choice of a script with one reply for each command run; when the
  script has ended every command succeeds silently. Each command that was run is recorded with its arguments, its standard
  input and whether it succeeded. Every command and every file operation of the model returns: a command that hangs is not
  modelled. The code runs its commands without a timeout, with the lock of the drive held, so that a command that hangs blocks
  the call and every later one on this drive.
\<close>

record reply =
  startErr :: "error option"
  stdoutOf :: "byte list"
  exitErr :: "error option"
  effect :: "tree \<Rightarrow> tree"

record cmdrun =
  argv :: "string list"
  stdin :: "byte list"
  failed :: bool

record host =
  files :: fs
  getwd :: "string result"
  tempDir :: string
  nextRoll :: "u32 list"
  geteuid :: int
  lookPath :: "string \<Rightarrow> string result"
  replies :: "reply list"
  cmdLog :: "cmdrun list"
  mem :: "nat \<Rightarrow> byte list"
  nextMem :: nat
  openers :: "nat \<Rightarrow> conn result list"

text \<open>
  A file operation on the machine; a relative path is taken from the working directory, the empty path names nothing.
\<close>

definition on_fs :: "(fs \<Rightarrow> 'a \<times> fs) \<Rightarrow> host \<Rightarrow> 'a \<times> host" where
  "on_fs f h = (case f (files h) of (r, s) \<Rightarrow> (r, h\<lparr>files := s\<rparr>))"

definition abs_path :: "host \<Rightarrow> string \<Rightarrow> string" where
  "abs_path h p = (if IsAbs p \<or> p = '''' then p else (case getwd h of Inl e \<Rightarrow> '''' | Inr w \<Rightarrow> w) @ ''/'' @ p)"

definition silent :: reply where
  "silent = \<lparr>startErr = None, stdoutOf = [], exitErr = None, effect = (\<lambda>t. t)\<rparr>"

definition next_reply :: "host \<Rightarrow> reply \<times> host" where
  "next_reply h = (case replies h of [] \<Rightarrow> (silent, h) | r # rs \<Rightarrow> (r, h\<lparr>replies := rs\<rparr>))"

text \<open>
  \<^verbatim>\<open>Cmd.Run\<close>, \<^verbatim>\<open>Cmd.Output\<close> and \<^verbatim>\<open>Cmd.CombinedOutput\<close>: what it printed and its error. A command that could
  not be started has no effect. \<open>inp\<close> is the standard input; an error other than EOF at its end makes a successful command
  fail when Go itself copies the input (\<open>copied\<close>), not when the command reads a file.
\<close>

definition exec_input :: "string list \<Rightarrow> bool \<times> conn \<Rightarrow> host \<Rightarrow> (byte list \<times> error option) \<times> host" where
  "exec_input args inp h =
     (case inp of
        (copied, segs, end) \<Rightarrow>
          (case next_reply h of
             (r, h1) \<Rightarrow>
               (case startErr r of
                  Some e \<Rightarrow> (([], Some e), h1\<lparr>cmdLog := cmdLog h1 @ [\<lparr>argv = args, stdin = [], failed = True\<rparr>]\<rparr>)
                | None \<Rightarrow>
                    let err = (case exitErr r of
                                 Some e \<Rightarrow> Some e
                               | None \<Rightarrow> if copied \<and> end \<noteq> LibE EOF then Some end else None)
                    in ((stdoutOf r, err),
                        h1\<lparr>cmdLog := cmdLog h1 @ [\<lparr>argv = args, stdin = concat segs, failed = exitErr r \<noteq> None\<rparr>],
                           files := (files h1)\<lparr>tree := effect r (tree (files h1))\<rparr>\<rparr>))))"

definition exec :: "string list \<Rightarrow> host \<Rightarrow> (byte list \<times> error option) \<times> host" where
  "exec args h = exec_input args (False, [], LibE EOF) h"

definition found :: "host \<Rightarrow> string \<Rightarrow> bool" where
  "found h name \<longleftrightarrow> (case lookPath h name of Inl e \<Rightarrow> False | Inr p \<Rightarrow> p \<noteq> '''')"

text \<open>\<^verbatim>\<open>os.MkdirTemp\<close> with an empty directory name: names with random numbers until one is new.\<close>

fun mkdir_temp_try :: "u32 list \<Rightarrow> string \<Rightarrow> host \<Rightarrow> string result \<times> host" where
  "mkdir_temp_try [] pre h = (Inl (LibE ErrFileExists), h\<lparr>nextRoll := []\<rparr>)"
| "mkdir_temp_try (r # rs) pre h =
     (case on_fs (fs_Mkdir (pre @ itoa (unat r))) h of
        (None, h1) \<Rightarrow> (Inr (pre @ itoa (unat r)), h1\<lparr>nextRoll := rs\<rparr>)
      | (Some e, h1) \<Rightarrow>
          if e = LibE ErrFileExists then mkdir_temp_try rs pre h1 else (Inl e, h1\<lparr>nextRoll := rs\<rparr>))"

definition os_MkdirTemp :: "string \<Rightarrow> host \<Rightarrow> string result \<times> host" where
  "os_MkdirTemp pattern h = mkdir_temp_try (nextRoll h) (tempDir h @ ''/'' @ pattern) h"

text \<open>White space at both ends, as \<^verbatim>\<open>strings.TrimSpace\<close> does for ASCII.\<close>

definition is_space :: "char \<Rightarrow> bool" where
  "is_space c \<longleftrightarrow> of_char c \<in> {9, 10, 11, 12, 13, 32 :: nat}"

definition trim :: "(char \<Rightarrow> bool) \<Rightarrow> string \<Rightarrow> string" where
  "trim P s = rev (dropWhile P (rev (dropWhile P s)))"

definition TrimSpace :: "string \<Rightarrow> string" where
  "TrimSpace s = trim is_space s"

lemma on_fs_keeps [simp]:
  "on_fs f h = (r, h') \<Longrightarrow> cmdLog h' = cmdLog h \<and> mem h' = mem h \<and> replies h' = replies h \<and> geteuid h' = geteuid h
     \<and> lookPath h' = lookPath h \<and> getwd h' = getwd h"
  by (auto simp: on_fs_def split: prod.splits)

lemma next_reply_keeps:
  "next_reply h = (r, h') \<Longrightarrow> cmdLog h' = cmdLog h \<and> mem h' = mem h \<and> files h' = files h \<and> geteuid h' = geteuid h
     \<and> lookPath h' = lookPath h \<and> getwd h' = getwd h"
  by (auto simp: next_reply_def split: list.splits)

lemma exec_input_log:
  "exec_input args inp h = ((out, e), h') \<Longrightarrow>
     \<exists>c. cmdLog h' = cmdLog h @ [c] \<and> argv c = args \<and> (e = None \<longrightarrow> \<not> failed c) \<and> mem h' = mem h"
proof -
  assume a: "exec_input args inp h = ((out, e), h')"
  obtain r h1 where n: "next_reply h = (r, h1)" by (cases "next_reply h")
  show ?thesis using a n next_reply_keeps [OF n]
    by (auto simp: exec_input_def Let_def split: prod.splits option.splits if_splits)
qed

lemma exec_log:
  "exec args h = ((out, e), h') \<Longrightarrow>
     \<exists>c. cmdLog h' = cmdLog h @ [c] \<and> argv c = args \<and> (e = None) = (\<not> failed c) \<and> mem h' = mem h"
proof -
  assume a: "exec args h = ((out, e), h')"
  obtain r h1 where n: "next_reply h = (r, h1)" by (cases "next_reply h")
  show ?thesis using a n next_reply_keeps [OF n]
    by (auto simp: exec_def exec_input_def Let_def split: prod.splits option.splits if_splits)
qed

lemma dropWhile_hd: "dropWhile P s = [] \<or> \<not> P (hd (dropWhile P s))"
  by (induction s) auto

lemma trim_ends: "trim P s = [] \<or> \<not> P (hd (trim P s)) \<and> \<not> P (last (trim P s))"
proof (cases "dropWhile P (rev (dropWhile P s)) = []")
  case True
  then show ?thesis by (simp add: trim_def)
next
  case False
  let ?d = "dropWhile P s" and ?e = "dropWhile P (rev (dropWhile P s))"
  have "\<not> P (hd ?e)" using dropWhile_hd [of P "rev ?d"] False by blast
  then have l: "\<not> P (last (rev ?e))" using False by (simp add: last_rev)
  obtain w where w: "rev ?d = w @ ?e" by (metis takeWhile_dropWhile_id)
  then have d: "?d = rev ?e @ rev w" by (metis rev_append rev_rev_ident)
  then have ne: "?d \<noteq> []" using False by (metis Nil_is_append_conv rev_is_Nil_conv)
  have "hd ?d = hd (rev ?e)" using d False by (metis hd_append rev_is_Nil_conv)
  then have "\<not> P (hd (rev ?e))" using dropWhile_hd [of P s] ne by metis
  with l show ?thesis by (simp add: trim_def)
qed

lemma trim_set: "set (trim P s) \<subseteq> set s"
  unfolding trim_def by (metis set_dropWhileD set_rev subsetI)

section \<open>UTF-8\<close>

text \<open>The width in bytes of the first rune, 1 for an invalid byte (\<^verbatim>\<open>utf8.DecodeRuneInString\<close>).\<close>

definition cont :: "nat \<Rightarrow> nat \<Rightarrow> char \<Rightarrow> bool" where
  "cont lo hi c \<longleftrightarrow> lo \<le> of_char c \<and> of_char c \<le> hi"

fun rune_width :: "string \<Rightarrow> nat" where
  "rune_width [] = 0"
| "rune_width (a # s) =
     (let b = of_char a :: nat;
          lo = (if b = 224 then 160 else if b = 240 then 144 else 128);
          hi = (if b = 237 then 159 else if b = 244 then 143 else 191);
          second = s \<noteq> [] \<and> cont lo hi (s ! 0);
          third = 2 \<le> length s \<and> cont 128 191 (s ! 1);
          fourth = 3 \<le> length s \<and> cont 128 191 (s ! 2)
      in if 194 \<le> b \<and> b \<le> 223 \<and> second then 2
         else if 224 \<le> b \<and> b \<le> 239 \<and> second \<and> third then 3
         else if 240 \<le> b \<and> b \<le> 244 \<and> second \<and> third \<and> fourth then 4
         else 1)"

declare rune_width.simps(2) [simp del]

text \<open>A rune that is a byte of its own, and the first byte of a string that is no rune.\<close>

definition ascii :: "char \<Rightarrow> bool" where
  "ascii c \<longleftrightarrow> of_char c < (128 :: nat)"

definition bad_byte :: "char \<Rightarrow> string \<Rightarrow> bool" where
  "bad_byte c s \<longleftrightarrow> rune_width (c # s) = 1 \<and> \<not> ascii c"

text \<open>The bytes of U+FFFD, which \<^verbatim>\<open>encoding/json\<close> writes for every byte that is no rune.\<close>

definition replacement :: string where
  "replacement = [CHR 0xEF, CHR 0xBF, CHR 0xBD]"

function to_utf8 :: "string \<Rightarrow> string" where
  "to_utf8 [] = []"
| "to_utf8 (c # s) =
     (if bad_byte c s then replacement @ to_utf8 s
      else take (rune_width (c # s)) (c # s) @ to_utf8 (drop (rune_width (c # s) - 1) s))"
  by pat_completeness auto
termination by (relation "measure length") auto

function valid_utf8 :: "string \<Rightarrow> bool" where
  "valid_utf8 [] = True"
| "valid_utf8 (c # s) = (\<not> bad_byte c s \<and> valid_utf8 (drop (rune_width (c # s) - 1) s))"
  by pat_completeness auto
termination by (relation "measure length") auto

lemma rune_width_bounds: "1 \<le> rune_width (c # s)" "rune_width (c # s) \<le> Suc (length s)"
  by (auto simp: rune_width.simps Let_def Suc_le_eq)

lemma rune_split: "take (rune_width (c # s)) (c # s) = c # take (rune_width (c # s) - 1) s"
  using rune_width_bounds(1) [of c s] by (cases "rune_width (c # s)") simp_all

lemma rune_width_ascii: "ascii c \<Longrightarrow> rune_width (c # s) = 1"
  by (simp add: ascii_def rune_width.simps Let_def)

lemma to_utf8_valid: "valid_utf8 s \<Longrightarrow> to_utf8 s = s"
proof (induction s rule: valid_utf8.induct)
  case (2 c s)
  have "take (rune_width (c # s)) (c # s) @ drop (rune_width (c # s) - 1) s = c # s" unfolding rune_split by simp
  with 2 show ?case by simp
qed simp

lemma valid_ascii: "list_all ascii s \<Longrightarrow> valid_utf8 s"
  by (induction s) (simp_all add: bad_byte_def rune_width_ascii)

lemma to_utf8_Nil: "to_utf8 s = [] \<longleftrightarrow> s = []"
  by (cases s) (simp_all add: replacement_def rune_split)

text \<open>Nothing but an ASCII string becomes one.\<close>

lemma to_utf8_ascii: "to_utf8 s = t \<Longrightarrow> list_all ascii t \<Longrightarrow> s = t"
proof (induction s arbitrary: t rule: to_utf8.induct)
  case (2 c s)
  show ?case
  proof (cases "bad_byte c s")
    case True
    with 2(3,4) show ?thesis by (auto simp: replacement_def ascii_def)
  next
    case False
    with 2(3) have t: "t = c # take (rune_width (c # s) - 1) s @ to_utf8 (drop (rune_width (c # s) - 1) s)"
      by (simp add: rune_split)
    with 2(4) have "ascii c" by simp
    then have "rune_width (c # s) = 1" by (rule rune_width_ascii)
    with 2(2) [OF False refl] 2(4) t show ?thesis by simp
  qed
qed simp

text \<open>A rune stays one whatever follows it, and the replacement is one.\<close>

lemma rune_width_two:
  "rune_width (c # s) = 2 \<Longrightarrow> \<exists>x s'. s = x # s' \<and> (\<forall>t. rune_width (c # x # t) = 2)"
  by (cases s) (auto simp: rune_width.simps Let_def split: if_splits)

lemma rune_width_three:
  "rune_width (c # s) = 3 \<Longrightarrow> \<exists>x y s'. s = x # y # s' \<and> (\<forall>t. rune_width (c # x # y # t) = 3)"
  by (cases s rule: remdups_adj.cases) (auto simp: rune_width.simps Let_def split: if_splits)

lemma rune_width_four:
  "rune_width (c # s) = 4 \<Longrightarrow> \<exists>x y z s'. s = x # y # z # s' \<and> (\<forall>t. rune_width (c # x # y # z # t) = 4)"
  by (cases s; cases "tl s"; cases "tl (tl s)") (auto simp: rune_width.simps Let_def split: if_splits)

lemma rune_width_take:
  assumes "1 < rune_width (c # s)"
  shows "rune_width (take (rune_width (c # s)) (c # s) @ t) = rune_width (c # s)"
proof -
  have "rune_width (c # s) \<in> {1, 2, 3, 4}" by (auto simp: rune_width.simps Let_def)
  with assms consider "rune_width (c # s) = 2" | "rune_width (c # s) = 3" | "rune_width (c # s) = 4" by auto
  then show ?thesis
  proof cases
    case 1
    with rune_width_two [OF 1] show ?thesis by (auto simp: numeral_2_eq_2)
  next
    case 2
    with rune_width_three [OF 2] show ?thesis by (auto simp: numeral_3_eq_3)
  next
    case 3
    with rune_width_four [OF 3] show ?thesis by (auto simp: numeral_eq_Suc)
  qed
qed

lemma to_utf8_replacement: "valid_utf8 t \<Longrightarrow> valid_utf8 (replacement @ t)"
  by (simp add: replacement_def bad_byte_def rune_width.simps Let_def cont_def)

lemma to_utf8_is_valid: "valid_utf8 (to_utf8 s)"
proof (induction s rule: to_utf8.induct)
  case (2 c s)
  show ?case
  proof (cases "bad_byte c s")
    case True
    with 2(1) show ?thesis by (simp add: to_utf8_replacement)
  next
    case False
    let ?w = "rune_width (c # s)" and ?r = "to_utf8 (drop (rune_width (c # s) - 1) s)"
    have ih: "valid_utf8 ?r" using 2(2) [OF False] by simp
    have u: "to_utf8 (c # s) = c # (take (?w - 1) s @ ?r)" using False by (simp add: rune_split)
    have w: "rune_width (c # (take (?w - 1) s @ ?r)) = ?w"
    proof (cases "ascii c")
      case True
      then show ?thesis by (simp add: rune_width_ascii)
    next
      case na: False
      with False rune_width_bounds(1) [of c s] have "1 < ?w" by (auto simp: bad_byte_def)
      from rune_width_take [OF this, of ?r] show ?thesis by (simp add: rune_split)
    qed
    have "\<not> bad_byte c (take (?w - 1) s @ ?r)" using False w by (simp add: bad_byte_def)
    moreover have "length (take (?w - 1) s) = ?w - 1" using rune_width_bounds [of c s] by simp
    ultimately show ?thesis unfolding u using ih w by simp
  qed
qed simp

declare to_utf8.simps(2) [simp del] valid_utf8.simps(2) [simp del]

end
