(* ===== verification/Drive_Options.thy ===== *)
theory Drive_Options
  imports Go_Host
begin

text \<open>
  \<^verbatim>\<open>drive/options.go\<close> and \<^verbatim>\<open>drive/mount_method.go\<close>: the parameters of a drive, their JSON form and the choice of a
  mount method. JSON is modelled as the value that \<^verbatim>\<open>encoding/json\<close> prints and parses: an object is the list of its
  fields in order; a string is written with every byte that is no rune replaced by U+FFFD (\<open>to_utf8\<close>), so that a string in the
  JSON text is always UTF-8; decoding into the struct matches field names without regard to the case of ASCII letters, lets a
  later field win, skips unknown fields and \<open>null\<close>, and reports a value of the wrong kind after the other fields have been
  stored.
\<close>

section \<open>The options\<close>

type_synonym MountMethod = string

abbreviation MountMethodGuestMount :: MountMethod where "MountMethodGuestMount \<equiv> ''guestmount''"
abbreviation MountMethodLoop :: MountMethod where "MountMethodLoop \<equiv> ''loop''"

record DriveOptions =
  optId :: string
  readonly :: bool
  isRoot :: bool
  partUUID :: string
  cacheType :: string
  ephemeral :: bool
  sizeBytes :: "64 word"
  fsType :: string
  mountMethod :: MountMethod

definition NewDriveOptions ::
  "string \<Rightarrow> bool \<Rightarrow> bool \<Rightarrow> string \<Rightarrow> string \<Rightarrow> bool \<Rightarrow> 64 word \<Rightarrow> string \<Rightarrow> MountMethod \<Rightarrow> DriveOptions" where
  "NewDriveOptions i ro root uuid cache eph sz fs mm =
     \<lparr>optId = i, readonly = ro, isRoot = root, partUUID = uuid, cacheType = cache, ephemeral = eph, sizeBytes = sz,
      fsType = (if fs = '''' then ''ext4'' else fs), mountMethod = mm\<rparr>"

definition Options_Validate :: "DriveOptions \<Rightarrow> bool" where
  "Options_Validate p \<longleftrightarrow>
     (if optId p = '''' then False
      else if sint (sizeBytes p) \<le> 0 then False
      else mountMethod p \<in> {'''', MountMethodGuestMount, MountMethodLoop})"

definition FSType :: "DriveOptions \<Rightarrow> string" where
  "FSType p = (if fsType p = '''' then (if readonly p then ''squashfs'' else ''ext4'') else fsType p)"

text \<open>A copy; a nil pointer stays nil.\<close>

definition Clone :: "DriveOptions option \<Rightarrow> DriveOptions option" where
  "Clone p = (case p of None \<Rightarrow> None | Some cp \<Rightarrow> Some cp)"

section \<open>JSON\<close>

datatype json = JStr string | JBool bool | JNum int | JNull | JOther

type_synonym json_object = "(string \<times> json) list"

record driveOptionsSerializable =
  sID :: string
  sReadOnly :: bool
  sIsRoot :: bool
  sPartUUID :: string
  sCacheType :: string
  sEphemeral :: bool
  sSizeBytes :: "64 word"
  sFSType :: string
  sMountMethod :: string

definition json_Marshal :: "driveOptionsSerializable \<Rightarrow> json_object" where
  "json_Marshal d =
     [(''id'', JStr (to_utf8 (sID d))), (''readonly'', JBool (sReadOnly d)), (''isRoot'', JBool (sIsRoot d)),
      (''partUUID'', JStr (to_utf8 (sPartUUID d))), (''cacheType'', JStr (to_utf8 (sCacheType d))),
      (''ephemeral'', JBool (sEphemeral d)), (''sizeBytes'', JNum (sint (sSizeBytes d))),
      (''fsType'', JStr (to_utf8 (sFSType d))), (''mountMethod'', JStr (to_utf8 (sMountMethod d)))]"

text \<open>One field of the object: the struct after it, or \<open>None\<close> when the value does not fit the field.\<close>

definition store_str :: "(string \<Rightarrow> 'd) \<Rightarrow> 'd \<Rightarrow> json \<Rightarrow> 'd option" where
  "store_str f d v = (case v of JStr s \<Rightarrow> Some (f s) | JNull \<Rightarrow> Some d | _ \<Rightarrow> None)"

definition store_bool :: "(bool \<Rightarrow> 'd) \<Rightarrow> 'd \<Rightarrow> json \<Rightarrow> 'd option" where
  "store_bool f d v = (case v of JBool b \<Rightarrow> Some (f b) | JNull \<Rightarrow> Some d | _ \<Rightarrow> None)"

definition store_int64 :: "(64 word \<Rightarrow> 'd) \<Rightarrow> 'd \<Rightarrow> json \<Rightarrow> 'd option" where
  "store_int64 f d v =
     (case v of
        JNum i \<Rightarrow> if - (2 ^ 63) \<le> i \<and> i < 2 ^ 63 then Some (f (word_of_int i)) else None
      | JNull \<Rightarrow> Some d
      | _ \<Rightarrow> None)"

definition store_field :: "string \<Rightarrow> json \<Rightarrow> driveOptionsSerializable \<Rightarrow> driveOptionsSerializable option" where
  "store_field k v d =
     (if EqualFold k ''id'' then store_str (\<lambda>s. d\<lparr>sID := s\<rparr>) d v
      else if EqualFold k ''readonly'' then store_bool (\<lambda>b. d\<lparr>sReadOnly := b\<rparr>) d v
      else if EqualFold k ''isRoot'' then store_bool (\<lambda>b. d\<lparr>sIsRoot := b\<rparr>) d v
      else if EqualFold k ''partUUID'' then store_str (\<lambda>s. d\<lparr>sPartUUID := s\<rparr>) d v
      else if EqualFold k ''cacheType'' then store_str (\<lambda>s. d\<lparr>sCacheType := s\<rparr>) d v
      else if EqualFold k ''ephemeral'' then store_bool (\<lambda>b. d\<lparr>sEphemeral := b\<rparr>) d v
      else if EqualFold k ''sizeBytes'' then store_int64 (\<lambda>n. d\<lparr>sSizeBytes := n\<rparr>) d v
      else if EqualFold k ''fsType'' then store_str (\<lambda>s. d\<lparr>sFSType := s\<rparr>) d v
      else if EqualFold k ''mountMethod'' then store_str (\<lambda>s. d\<lparr>sMountMethod := s\<rparr>) d v
      else Some d)"

definition zero_serializable :: driveOptionsSerializable where
  "zero_serializable =
     \<lparr>sID = '''', sReadOnly = False, sIsRoot = False, sPartUUID = '''', sCacheType = '''', sEphemeral = False, sSizeBytes = 0,
      sFSType = '''', sMountMethod = ''''\<rparr>"

fun json_store :: "json_object \<Rightarrow> driveOptionsSerializable \<Rightarrow> bool \<Rightarrow> driveOptionsSerializable \<times> bool" where
  "json_store [] d bad = (d, bad)"
| "json_store ((k, v) # fs) d bad =
     (case store_field k v d of None \<Rightarrow> json_store fs d True | Some d' \<Rightarrow> json_store fs d' bad)"

definition json_Unmarshal :: "json_object result \<Rightarrow> driveOptionsSerializable result" where
  "json_Unmarshal data =
     (case data of
        Inl e \<Rightarrow> Inl e
      | Inr ob \<Rightarrow>
          (case json_store ob zero_serializable False of
             (d, bad) \<Rightarrow> if bad then Inl (Msg ''json: cannot unmarshal'') else Inr d))"

definition MarshalJSON :: "DriveOptions \<Rightarrow> json_object" where
  "MarshalJSON p =
     json_Marshal
       \<lparr>sID = optId p, sReadOnly = readonly p, sIsRoot = isRoot p, sPartUUID = partUUID p, sCacheType = cacheType p,
        sEphemeral = ephemeral p, sSizeBytes = sizeBytes p, sFSType = FSType p,
        sMountMethod = mountMethod p\<rparr>"

text \<open>\<open>data\<close> is what the parser made of the text, or its syntax error; the receiver \<open>p\<close> keeps its value on an error.\<close>

definition UnmarshalJSON :: "json_object result \<Rightarrow> DriveOptions \<Rightarrow> error option \<times> DriveOptions" where
  "UnmarshalJSON data p =
     (case json_Unmarshal data of
        Inl e \<Rightarrow> (Some e, p)
      | Inr tmp \<Rightarrow>
          (None,
           p\<lparr>optId := sID tmp, readonly := sReadOnly tmp, isRoot := sIsRoot tmp, partUUID := sPartUUID tmp,
             cacheType := sCacheType tmp, ephemeral := sEphemeral tmp, sizeBytes := sSizeBytes tmp,
             fsType := (if sFSType tmp = '''' then ''ext4'' else sFSType tmp),
             mountMethod :=
               (if sMountMethod tmp = '''' then ''''
                else if sMountMethod tmp = MountMethodGuestMount then MountMethodGuestMount
                else if sMountMethod tmp = MountMethodLoop then MountMethodLoop
                else '''')\<rparr>))"

section \<open>The mount method of the host\<close>

fun join_comma :: "string list \<Rightarrow> string" where
  "join_comma [] = []"
| "join_comma [s] = s"
| "join_comma (s # t # ss) = s @ '', '' @ join_comma (t # ss)"

definition is_err :: "'a result \<Rightarrow> bool" where
  "is_err r = (case r of Inl e \<Rightarrow> True | Inr x \<Rightarrow> False)"

definition reasonFromTooling :: "bool \<Rightarrow> bool \<Rightarrow> string" where
  "reasonFromTooling guestMountErr guestUMountErr =
     (let reasons = (if guestMountErr then [''guestmount missing''] else [])
                  @ (if guestUMountErr then [''guestunmount missing''] else [])
      in if reasons = [] then ''ok'' else join_comma reasons)"

definition reasonFromLoopTooling :: "int \<Rightarrow> bool \<Rightarrow> bool \<Rightarrow> bool \<Rightarrow> string" where
  "reasonFromLoopTooling uid losetupErr mountErr umountErr =
     (let reasons = (if uid \<noteq> 0 then [''requires root''] else [])
                  @ (if losetupErr then [''losetup missing''] else [])
                  @ (if mountErr then [''mount missing''] else [])
                  @ (if umountErr then [''umount missing''] else [])
      in if reasons = [] then ''ok'' else join_comma reasons)"

definition DetectBestMountMethod :: "host \<Rightarrow> MountMethod result" where
  "DetectBestMountMethod h =
     (if found h ''guestmount'' \<and> found h ''guestunmount'' then Inr MountMethodGuestMount
      else if geteuid h = 0 \<and> found h ''losetup'' \<and> found h ''mount'' \<and> found h ''umount'' then Inr MountMethodLoop
      else
        (let guestReason = reasonFromTooling (is_err (lookPath h ''guestmount'')) (is_err (lookPath h ''guestunmount''));
             loopReason = reasonFromLoopTooling (geteuid h) (is_err (lookPath h ''losetup'')) (is_err (lookPath h ''mount''))
               (is_err (lookPath h ''umount''))
         in Inl (Wrap (''guestmount='' @ guestReason @ ''; loop='' @ loopReason) (DriveE ErrNoMountMethodAvailable))))"

section \<open>Properties\<close>

lemma EqualFold_length: "EqualFold s t \<Longrightarrow> length s = length t"
  unfolding EqualFold_def by (metis length_map)

lemma sint_range: "- (2 ^ 63) \<le> sint (w :: 64 word) \<and> sint w < 2 ^ 63"
  using sint_ge [of w] sint_lt [of w] by simp

lemma store_field_names:
  "store_field ''id'' v d = store_str (\<lambda>s. d\<lparr>sID := s\<rparr>) d v"
  "store_field ''readonly'' v d = store_bool (\<lambda>b. d\<lparr>sReadOnly := b\<rparr>) d v"
  "store_field ''isRoot'' v d = store_bool (\<lambda>b. d\<lparr>sIsRoot := b\<rparr>) d v"
  "store_field ''partUUID'' v d = store_str (\<lambda>s. d\<lparr>sPartUUID := s\<rparr>) d v"
  "store_field ''cacheType'' v d = store_str (\<lambda>s. d\<lparr>sCacheType := s\<rparr>) d v"
  "store_field ''ephemeral'' v d = store_bool (\<lambda>b. d\<lparr>sEphemeral := b\<rparr>) d v"
  "store_field ''sizeBytes'' v d = store_int64 (\<lambda>n. d\<lparr>sSizeBytes := n\<rparr>) d v"
  "store_field ''fsType'' v d = store_str (\<lambda>s. d\<lparr>sFSType := s\<rparr>) d v"
  "store_field ''mountMethod'' v d = store_str (\<lambda>s. d\<lparr>sMountMethod := s\<rparr>) d v"
  by (simp_all add: store_field_def EqualFold_def fold_char_def)

definition utf8_fields :: "driveOptionsSerializable \<Rightarrow> driveOptionsSerializable" where
  "utf8_fields d = d\<lparr>sID := to_utf8 (sID d), sPartUUID := to_utf8 (sPartUUID d), sCacheType := to_utf8 (sCacheType d),
     sFSType := to_utf8 (sFSType d), sMountMethod := to_utf8 (sMountMethod d)\<rparr>"

lemma json_roundtrip: "json_Unmarshal (Inr (json_Marshal d)) = Inr (utf8_fields d)"
  using sint_range [of "sSizeBytes d"]
  by (simp add: json_Unmarshal_def json_Marshal_def store_field_names store_str_def store_bool_def store_int64_def
      zero_serializable_def utf8_fields_def)

text \<open>What comes back: text in UTF-8, with the filesystem type written out and an unknown mount method dropped.\<close>

definition normalised :: "DriveOptions \<Rightarrow> DriveOptions" where
  "normalised p = p\<lparr>optId := to_utf8 (optId p), partUUID := to_utf8 (partUUID p), cacheType := to_utf8 (cacheType p),
     fsType := to_utf8 (FSType p),
     mountMethod := (if mountMethod p \<in> {MountMethodGuestMount, MountMethodLoop} then mountMethod p else '''')\<rparr>"

lemma mount_methods_ascii:
  "to_utf8 m = MountMethodGuestMount \<longleftrightarrow> m = MountMethodGuestMount" "to_utf8 m = MountMethodLoop \<longleftrightarrow> m = MountMethodLoop"
proof -
  have a: "list_all ascii MountMethodGuestMount" "list_all ascii MountMethodLoop" by (simp_all add: ascii_def)
  show "to_utf8 m = MountMethodGuestMount \<longleftrightarrow> m = MountMethodGuestMount" "to_utf8 m = MountMethodLoop \<longleftrightarrow> m = MountMethodLoop"
    using to_utf8_ascii [of m, OF _ a(1)] to_utf8_ascii [of m, OF _ a(2)] to_utf8_valid [OF valid_ascii [OF a(1)]]
      to_utf8_valid [OF valid_ascii [OF a(2)]] by auto
qed

lemma unmarshal_marshal: "UnmarshalJSON (Inr (MarshalJSON p)) p0 = (None, normalised p)"
proof -
  have "FSType p \<noteq> ''''" by (simp add: FSType_def)
  then have "to_utf8 (FSType p) \<noteq> ''''" by (simp add: to_utf8_Nil)
  then show ?thesis
    unfolding UnmarshalJSON_def MarshalJSON_def json_roundtrip utf8_fields_def normalised_def
    by (cases p, cases p0) (auto simp: mount_methods_ascii to_utf8_Nil)
qed

lemma FSType_normalised: "FSType (normalised p) = to_utf8 (FSType p)"
proof -
  have "FSType p \<noteq> ''''" by (simp add: FSType_def)
  then have "to_utf8 (FSType p) \<noteq> ''''" by (simp add: to_utf8_Nil)
  then show ?thesis by (simp add: normalised_def FSType_def)
qed

definition utf8_options :: "DriveOptions \<Rightarrow> bool" where
  "utf8_options p \<longleftrightarrow> valid_utf8 (optId p) \<and> valid_utf8 (partUUID p) \<and> valid_utf8 (cacheType p) \<and> valid_utf8 (fsType p)"

text \<open>
  C30: The JSON form of drive options reads back. Unmarshalling what was marshalled gives the normalised options, whatever
  the receiver held: bytes that are no UTF-8 are replaced, the filesystem type is written out, and an unknown mount method is
  dropped. Validated options in UTF-8 with a filesystem type come back exactly, and those without one behave alike: the same
  \<open>FSType\<close>. What comes back is valid when the original was, is in UTF-8, and a further round trip changes nothing.
\<close>

theorem options_json_roundtrip:
  "UnmarshalJSON (Inr (MarshalJSON p)) p0 = (None, normalised p)
     \<and> (Options_Validate p \<and> utf8_options p \<and> fsType p \<noteq> '''' \<longrightarrow> normalised p = p)
     \<and> (utf8_options p \<longrightarrow> FSType (normalised p) = FSType p)
     \<and> (Options_Validate p \<longrightarrow> Options_Validate (normalised p))
     \<and> utf8_options (normalised p)
     \<and> UnmarshalJSON (Inr (MarshalJSON (normalised p))) p0 = (None, normalised p)"
proof -
  have m: "Options_Validate p \<Longrightarrow> mountMethod p \<in> {'''', MountMethodGuestMount, MountMethodLoop}"
    by (auto simp: Options_Validate_def split: if_splits)
  have std: "to_utf8 ''squashfs'' = ''squashfs''" "to_utf8 ''ext4'' = ''ext4''"
    by (rule to_utf8_valid, rule valid_ascii, simp add: ascii_def)+
  have u: "utf8_options (normalised p)"
    by (simp add: utf8_options_def normalised_def to_utf8_is_valid)
  have fs: "utf8_options p \<longrightarrow> to_utf8 (FSType p) = FSType p" by (auto simp: utf8_options_def FSType_def std to_utf8_valid)
  have same: "Options_Validate p \<and> utf8_options p \<and> fsType p \<noteq> '''' \<longrightarrow> normalised p = p"
    using m by (cases p) (auto simp: normalised_def utf8_options_def to_utf8_valid FSType_def)
  have ok: "Options_Validate p \<longrightarrow> Options_Validate (normalised p)"
    by (auto simp: Options_Validate_def normalised_def to_utf8_Nil split: if_splits)
  have "normalised (normalised p) = normalised p"
  proof -
    have "to_utf8 (FSType (normalised p)) = fsType (normalised p)"
      by (simp add: FSType_normalised) (simp add: normalised_def to_utf8_valid [OF to_utf8_is_valid])
    then show ?thesis by (cases p) (auto simp: normalised_def to_utf8_valid [OF to_utf8_is_valid])
  qed
  with u fs same ok show ?thesis by (simp add: unmarshal_marshal FSType_normalised)
qed

theorem options_json_roundtrip_witness:
  "let p = NewDriveOptions ''disk'' False True '''' '''' True 4096 '''' MountMethodLoop in
     UnmarshalJSON (Inr (MarshalJSON p)) (NewDriveOptions '''' True False '''' '''' False 0 '''' '''') = (None, p)"
proof -
  let ?p = "NewDriveOptions ''disk'' False True '''' '''' True 4096 '''' MountMethodLoop"
  let ?z = "NewDriveOptions '''' True False '''' '''' False 0 '''' ''''"
  have "list_all ascii ''disk''" "list_all ascii ''ext4''" "list_all ascii ''''" by (simp_all add: ascii_def)
  then have "Options_Validate ?p \<and> utf8_options ?p \<and> fsType ?p \<noteq> ''''"
    by (simp add: Options_Validate_def NewDriveOptions_def utf8_options_def valid_ascii)
  with options_json_roundtrip [of ?p ?z] show ?thesis by (auto simp: Let_def)
qed

text \<open>Two identifiers that differ in a byte that is no UTF-8 have the same JSON form.\<close>

lemma ids_merge: "json_Marshal (d\<lparr>sID := [CHR 0xFF]\<rparr>) = json_Marshal (d\<lparr>sID := [CHR 0xFE]\<rparr>)"
  by (simp add: json_Marshal_def to_utf8.simps bad_byte_def rune_width.simps Let_def ascii_def)

text \<open>
  The mount method that is chosen can be used: the commands it runs were found, a loop mount is chosen only for the
  superuser and only when guestmount cannot be used, and the method is one that validated options may carry. No method is
  reported exactly when neither can be used.
\<close>

theorem detected_method_usable:
  "case DetectBestMountMethod h of
     Inr m \<Rightarrow>
       (m = MountMethodGuestMount \<and> found h ''guestmount'' \<and> found h ''guestunmount''
        \<or> m = MountMethodLoop \<and> geteuid h = 0 \<and> found h ''losetup'' \<and> found h ''mount'' \<and> found h ''umount''
          \<and> \<not> (found h ''guestmount'' \<and> found h ''guestunmount''))
   | Inl e \<Rightarrow>
       errors_Is e (DriveE ErrNoMountMethodAvailable)
       \<and> \<not> (found h ''guestmount'' \<and> found h ''guestunmount'')
       \<and> \<not> (geteuid h = 0 \<and> found h ''losetup'' \<and> found h ''mount'' \<and> found h ''umount'')"
  by (auto simp: DetectBestMountMethod_def Let_def)

end
