(* ===== verification/Drive_Paths.thy ===== *)
theory Drive_Paths
  imports Go_FS
begin

text \<open>
  \<^verbatim>\<open>drive/helpers.go\<close>: the path of a file on a mounted drive. \<open>safeDrivePath\<close> keeps the path lexically below
  the mount point, \<open>noSymLinks\<close> inspects every component below it. \<open>wd\<close> is the answer of \<^verbatim>\<open>os.Getwd\<close>. The main
  lemma says what the two checks give together: on a path that passed them the file system does not leave the mounted
  directory.
\<close>

section \<open>The checks\<close>

definition safeDrivePath :: "string result \<Rightarrow> string \<Rightarrow> string \<Rightarrow> string result" where
  "safeDrivePath wd mountPoint filePath =
     (let rel0 = TrimPrefix filePath ''/'';
          rel = (if rel0 = '''' then ''.'' else rel0);
          targetPath = Clean (path_Join [mountPoint, rel])
      in case path_Abs wd mountPoint of
           Inl e \<Rightarrow> Inl (Wrap ''failed to get absolute mount point'' e)
         | Inr mountPointAbs \<Rightarrow>
             (case path_Abs wd targetPath of
                Inl e \<Rightarrow> Inl (Wrap ''failed to get absolute target path'' e)
              | Inr targetAbs \<Rightarrow>
                  (case path_Rel mountPointAbs targetAbs of
                     Inl e \<Rightarrow> Inl (Wrap ''failed to check path traversal'' e)
                   | Inr relPath \<Rightarrow>
                       if relPath = ''..'' \<or> HasPrefix relPath ''../''
                       then Inl (Wrap (''path traversal detected: '' @ filePath) (DriveE ErrInvalidParameter))
                       else Inr targetAbs)))"

definition filePathForError :: "string \<Rightarrow> string \<Rightarrow> string" where
  "filePathForError mountPoint target =
     (case path_Rel mountPoint target of
        Inl e \<Rightarrow> ''/''
      | Inr rel \<Rightarrow> if rel = ''.'' then ''/'' else ''/'' @ rel)"

fun is_link :: "node \<Rightarrow> bool" where
  "is_link (Link l) = True"
| "is_link _ = False"

text \<open>The loop of \<open>noSymLinks\<close> over the segments.\<close>

fun check_segments :: "bool \<Rightarrow> string \<Rightarrow> string \<Rightarrow> string list \<Rightarrow> fs \<Rightarrow> error option \<times> fs" where
  "check_segments allowMissingTail mountAbs currentPath [] s = (None, s)"
| "check_segments allowMissingTail mountAbs currentPath (segment # segments) s =
     (if segment = '''' \<or> segment = ''.'' then check_segments allowMissingTail mountAbs currentPath segments s
      else
        (case fs_Lstat (path_Join [currentPath, segment]) s of
           (Inl e, s1) \<Rightarrow>
             if allowMissingTail \<and> errors_Is e (LibE ErrNotExist) then (None, s1)
             else (Some (Wrap ''failed to inspect path segment'' e), s1)
         | (Inr info, s1) \<Rightarrow>
             if is_link info
             then (Some (Wrap (''symlink segment is not allowed in drive path ''
                      @ filePathForError mountAbs (path_Join [currentPath, segment])) (DriveE ErrInvalidParameter)), s1)
             else check_segments allowMissingTail mountAbs (path_Join [currentPath, segment]) segments s1))"

definition noSymLinks :: "string result \<Rightarrow> string \<Rightarrow> string \<Rightarrow> bool \<Rightarrow> fs \<Rightarrow> error option \<times> fs" where
  "noSymLinks wd mountPoint targetPath allowMissingTail s =
     (case path_Abs wd mountPoint of
        Inl e \<Rightarrow> (Some (Wrap ''failed to resolve mount point'' e), s)
      | Inr mountAbs \<Rightarrow>
          (case path_Abs wd targetPath of
             Inl e \<Rightarrow> (Some (Wrap ''failed to resolve target path'' e), s)
           | Inr targetAbs \<Rightarrow>
               (case path_Rel mountAbs targetAbs of
                  Inl e \<Rightarrow> (Some (Wrap ''failed to evaluate target path'' e), s)
                | Inr relPath \<Rightarrow>
                    if relPath = ''.'' then (None, s)
                    else check_segments allowMissingTail mountAbs mountAbs (split_slash relPath) s)))"

definition pathCheck :: "string result \<Rightarrow> string \<Rightarrow> string \<Rightarrow> bool \<Rightarrow> fs \<Rightarrow> string result \<times> fs" where
  "pathCheck wd mountPoint filePath allowMissingTail s =
     (case safeDrivePath wd mountPoint filePath of
        Inl e \<Rightarrow> (Inl e, s)
      | Inr safePath \<Rightarrow>
          (case noSymLinks wd mountPoint safePath allowMissingTail s of
             (Some e, s1) \<Rightarrow> (Inl e, s1)
           | (None, s1) \<Rightarrow> (Inr safePath, s1)))"

section \<open>Absolute paths as lists of names\<close>

lemma abs_render: "IsAbs a \<Longrightarrow> Clean a = a \<Longrightarrow> a = render True (comps a) \<and> names (comps a)"
  by (metis Clean_def comps_Clean names_clean_abs)

lemma names_name_ok: "names cs \<Longrightarrow> \<forall>c \<in> set cs. name_ok c"
  by (auto simp: names_def)

lemma names_append [simp]: "names (xs @ ys) \<longleftrightarrow> names xs \<and> names ys"
  by (auto simp: names_def)

lemma render_facts:
  assumes "names cs"
  shows "IsAbs (render True cs)" and "Clean (render True cs) = render True cs" and "comps (render True cs) = cs"
    and "clean_comps (render True cs) = cs"
proof -
  note ok = names_name_ok [OF assms]
  show a: "IsAbs (render True cs)" using IsAbs_render [OF ok] by simp
  show c: "Clean (render True cs) = render True cs" using assms by (intro Clean_render) (simp add: normal_rooted)
  show k: "comps (render True cs) = cs" using comps_render [OF ok] .
  show "clean_comps (render True cs) = cs" using comps_Clean [of "render True cs"] c k by simp
qed

lemma render_ne [simp]: "render True cs \<noteq> ''''"
  by (simp add: render_def)

lemma path_Abs_render: "names cs \<Longrightarrow> path_Abs wd (render True cs) = Inr (render True cs)"
  by (simp add: path_Abs_def render_facts)

lemma Join_render: "names (cs @ [n]) \<Longrightarrow> path_Join [render True cs, n] = render True (cs @ [n])"
proof -
  assume a: "names (cs @ [n])"
  then have n: "name_ok n" "n \<noteq> ''..''" by (auto simp: names_def)
  then have cn: "comps n = [n]" using comps_join [of "[n]"] by simp
  have "path_Join [render True cs, n] = Clean (render True cs @ CHR ''/'' # n)"
    using n by (intro path_Join_two) (auto simp: render_def name_ok_def)
  also have "\<dots> = render True (clean_comps (render True cs @ CHR ''/'' # n))"
    by (simp add: Clean_def IsAbs_def render_def)
  also have "clean_comps (render True cs @ CHR ''/'' # n) = foldl (push_comp True) cs [n]"
    using a render_facts [of cs] cn by (subst clean_comps_append) (auto simp: render_def)
  also have "\<dots> = cs @ [n]" using n by (simp add: push_comp_def)
  finally show ?thesis .
qed

lemma join_slash_snoc: "cs \<noteq> [] \<Longrightarrow> join_slash (cs @ [n]) = join_slash cs @ CHR ''/'' # n"
  by (induction cs rule: join_slash.induct) auto

lemma Dir_render:
  assumes "names (cs @ [n])"
  shows "path_Dir (render True (cs @ [n])) = render True cs"
proof -
  have n: "CHR ''/'' \<notin> set n" using assms by (auto simp: names_def name_ok_def)
  obtain p where p: "render True (cs @ [n]) = p @ CHR ''/'' # n" "Clean (p @ ''/'') = render True cs"
  proof (cases "cs = []")
    case True
    show ?thesis by (rule that [of "[]"]) (use True in \<open>simp_all add: render_def Clean_def IsAbs_def clean_comps_def comps_def\<close>)
  next
    case False
    have "Clean (render True cs @ CHR ''/'' # []) = render True (foldl (push_comp True) cs (comps []))"
      using assms render_facts [of cs] clean_comps_append [of "render True cs" "[]"]
      by (simp add: Clean_def IsAbs_def render_def)
    then have "Clean (render True cs @ ''/'') = render True cs" by (simp add: comps_Nil)
    moreover have "render True (cs @ [n]) = render True cs @ CHR ''/'' # n"
      using False by (simp add: render_def join_slash_snoc)
    ultimately show ?thesis using that by blast
  qed
  have "dropWhile (\<lambda>c. c \<noteq> CHR ''/'') (rev (p @ CHR ''/'' # n)) = CHR ''/'' # rev p"
    using n by (auto simp: dropWhile_append3)
  with p show ?thesis by (simp add: path_Dir_def)
qed

lemma Rel_render:
  assumes "names M" and "names (M @ ns)"
  shows "path_Rel (render True M) (render True (M @ ns)) = Inr (if ns = [] then ''.'' else join_slash ns)"
  using Rel_under [of "render True M" "render True (M @ ns)"] render_facts [OF assms(1)] render_facts [OF assms(2)]
  by auto

lemma split_join_names: "names ns \<Longrightarrow> ns \<noteq> [] \<Longrightarrow> split_slash (join_slash ns) = ns"
  by (rule split_slash_join) (auto simp: names_def name_ok_def)

lemma join_slash_dot: "names ns \<Longrightarrow> ns \<noteq> [] \<Longrightarrow> join_slash ns \<noteq> ''.''"
proof
  assume "names ns" "ns \<noteq> []" "join_slash ns = ''.''"
  then have "ns = [''.'']" using split_join_names [of ns] by simp
  with \<open>names ns\<close> show False by (simp add: names_def name_ok_def)
qed

section \<open>What the checks give\<close>

lemma safeDrivePath_under:
  assumes "safeDrivePath wd mp fp = Inr target" and "mp \<noteq> ''''" and "\<And>w. wd = Inr w \<Longrightarrow> IsAbs w"
  shows "\<exists>M ns. path_Abs wd mp = Inr (render True M) \<and> target = render True (M @ ns) \<and> names (M @ ns)"
proof -
  let ?rel = "if TrimPrefix fp ''/'' = '''' then ''.'' else TrimPrefix fp ''/''"
  let ?t = "Clean (path_Join [mp, ?rel])"
  from assms(1) obtain a t r where a: "path_Abs wd mp = Inr a" and t: "path_Abs wd ?t = Inr t"
    and r: "path_Rel a t = Inr r" "\<not> (r = ''..'' \<or> HasPrefix r ''../'')" and target: "target = t"
    by (auto simp: safeDrivePath_def Let_def split: sum.splits if_splits)
  have abs: "IsAbs a" by (rule path_Abs_abs(1) [OF a assms(2) assms(3)])
  have abs2: "Clean a = a" by (rule path_Abs_abs(2) [OF a assms(2) assms(3)])
  have ne: "?t \<noteq> ''''" by (auto simp: Clean_def render_def dest: arg_cong [where f = length])
    (metis clean_comps_ok join_slash_hd list.set_sel(1) name_ok_def)+
  have abt: "IsAbs t" by (rule path_Abs_abs(1) [OF t ne assms(3)])
  have abt2: "Clean t = t" by (rule path_Abs_abs(2) [OF t ne assms(3)])
  from Rel_under [OF abs abt] r obtain ns where ns: "clean_comps t = clean_comps a @ ns" by auto
  have ca: "a = render True (clean_comps a)" "t = render True (clean_comps t)"
    using abs abs2 abt abt2 by (metis Clean_def)+
  have "names (clean_comps t)" using abt by (rule names_clean_abs)
  with ns ca a target show ?thesis by metis
qed

text \<open>A plain path below an absolute mount point.\<close>

lemma safeDrivePath_plain:
  assumes "names M" and "fp = ''/'' @ join_slash ns \<or> fp = join_slash ns" and "names ns" and "ns \<noteq> []"
  shows "safeDrivePath wd (render True M) fp = Inr (render True (M @ ns))"
proof -
  have hd: "join_slash ns \<noteq> '''' \<and> hd (join_slash ns) \<noteq> CHR ''/''"
  proof -
    have "name_ok (hd ns)" using assms(3,4) by (simp add: names_def)
    then have "hd ns \<noteq> [] \<and> hd (hd ns) \<noteq> CHR ''/''" using hd_in_set [of "hd ns"] unfolding name_ok_def by metis
    with join_slash_hd [OF assms(4)] show ?thesis by simp
  qed
  have tp: "TrimPrefix fp ''/'' = join_slash ns"
    using assms(2) hd by (cases "join_slash ns") (auto simp: TrimPrefix_def HasPrefix_def)
  have cj: "comps (join_slash ns) = ns" using comps_join assms(3) names_name_ok by blast
  have MN: "names (M @ ns)" using assms by simp
  have ne: "render True M \<noteq> ''''" by (simp add: render_def)
  note jn = path_Join_names [OF ne, of "join_slash ns"]
  have c: "Clean (path_Join [render True M, join_slash ns]) = render True (M @ ns)"
    using jn hd assms(1,3) cj render_facts [OF assms(1)] by (simp add: Clean_def)
  have "\<not> (join_slash ns = ''..'' \<or> HasPrefix (join_slash ns) ''../'')"
    using begins_dotdot [OF names_name_ok [OF assms(3)]] assms(3,4) by (cases ns) (auto simp: names_def)
  with c tp hd assms(4) show ?thesis
    by (simp add: safeDrivePath_def Let_def path_Abs_render [OF assms(1)] path_Abs_render [OF MN] Rel_render [OF assms(1) MN])
qed

text \<open>A system call is not reported as a missing file by the script.\<close>

definition honest :: "fs \<Rightarrow> bool" where
  "honest s \<longleftrightarrow> (\<forall>e. Some e \<in> set (fsFaults s) \<longrightarrow> \<not> errors_Is e (LibE ErrNotExist))"

lemma honest_sys: "honest s \<Longrightarrow> fs_sys s = (r, s1) \<Longrightarrow> honest s1 \<and> (\<forall>e. r = Some e \<longrightarrow> \<not> errors_Is e (LibE ErrNotExist))"
proof -
  assume "honest s" "fs_sys s = (r, s1)"
  moreover have "r = None \<and> s1 = s \<or> (\<exists>f ff. fsFaults s = f # ff \<and> r = f \<and> fsFaults s1 = ff)"
    using \<open>fs_sys s = (r, s1)\<close> by (cases "fsFaults s") (auto simp: fs_sys_def)
  ultimately show ?thesis unfolding honest_def by fastforce
qed

lemma fs_Lstat_spec:
  assumes "fs_Lstat p s = (r, s1)" and "honest s"
  shows "tree s1 = tree s \<and> honest s1 \<and>
    (r = lstat_node (tree s) (comps p) \<or> (\<exists>e. r = Inl e \<and> \<not> errors_Is e (LibE ErrNotExist)))"
proof -
  obtain f s2 where f: "fs_sys s = (f, s2)" by (cases "fs_sys s")
  have t: "tree s2 = tree s" using f by simp
  show ?thesis using assms f t honest_sys [OF assms(2) f] by (cases f) (auto simp: fs_Lstat_def)
qed

lemma tree_ok_file:
  assumes "tree_ok t" and "t p = Some (File b)" and "r \<noteq> []" and "p \<noteq> []"
  shows "t (p @ r) = None"
proof -
  obtain c r' where r: "r = c # r'" using assms(3) by (cases r) auto
  have "t (p @ [c]) = None" using assms(1,2,4) unfolding tree_ok_def node_at_def
    by (metis node.distinct(1) option.inject)
  then show ?thesis using tree_ok_below_any [OF assms(1), of "p @ [c]" r'] r by simp
qed

lemma check_segments_spec:
  assumes "resolve (tree s) M = Inr m" and "node_at (tree s) m = Some Dir" and "tree_ok (tree s)"
  shows "dirs_from (tree s) m q \<Longrightarrow> names (M @ q @ ns) \<Longrightarrow> honest s \<Longrightarrow>
    check_segments allow mp (render True (M @ q)) ns s = (e, s') \<Longrightarrow>
    tree s' = tree s \<and> honest s' \<and>
    (e = None \<longrightarrow> no_links (tree s) (m @ q) ns \<and>
      (\<not> allow \<longrightarrow> ns \<noteq> [] \<longrightarrow> dirs_from (tree s) m (q @ butlast ns) \<and> tree s (m @ q @ ns) \<noteq> None))"
  using assms
proof (induction ns arbitrary: q s)
  case Nil
  then show ?case by (simp add: no_links_def)
next
  case (Cons n ns)
  note res = Cons.prems(5) and dir = Cons.prems(6) and ok = Cons.prems(7)
  have n: "name_ok n" "n \<noteq> ''..''" "names (M @ q)" "names ((M @ q) @ [n])" "names q"
    using Cons.prems(2) by (auto simp: names_def)
  have J: "path_Join [render True (M @ q), n] = render True (M @ q @ [n])" using Join_render [OF n(4)] by simp
  have sk: "n \<noteq> '''' \<and> n \<noteq> ''.''" using n(1) by (simp add: name_ok_def)
  obtain r s1 where L: "fs_Lstat (render True (M @ q @ [n])) s = (r, s1)" by (cases "fs_Lstat (render True (M @ q @ [n])) s")
  from fs_Lstat_spec [OF L Cons.prems(3)] have s1: "tree s1 = tree s" "honest s1"
    and r: "r = lstat_node (tree s) (M @ q @ [n]) \<or> (\<exists>e. r = Inl e \<and> \<not> errors_Is e (LibE ErrNotExist))"
    using render_facts(3) [OF n(4)] by auto
  have ls: "lstat_node (tree s) (M @ q @ [n]) = (case tree s (m @ q @ [n]) of None \<Rightarrow> Inl (LibE ErrNotExist) | Some x \<Rightarrow> Inr x)"
    by (rule lstat_node_dirs [OF res dir Cons.prems(1) n(5)])
  note run = Cons.prems(4) [unfolded check_segments.simps J L]
  show ?case
  proof (cases r)
    case (Inl x)
    with run s1 sk have t: "tree s' = tree s" "honest s'" by (auto split: if_splits)
    show ?thesis
    proof (cases "allow \<and> errors_Is x (LibE ErrNotExist)")
      case False
      with run Inl sk have "e \<noteq> None" by auto
      with t show ?thesis by auto
    next
      case True
      with r Inl have "lstat_node (tree s) (M @ q @ [n]) = Inl x" by auto
      with ls have "tree s (m @ q @ [n]) = None" by (auto split: option.splits)
      then have "tree s ((m @ q @ [n]) @ p) = None" for p using tree_ok_below_any [OF ok, of "m @ q @ [n]" p] by simp
      then have "no_links (tree s) (m @ q) (n # ns)"
        by (auto simp: no_links_def Cons_eq_append_conv)
      with t True show ?thesis by simp
    qed
  next
    case (Inr x)
    with r ls have x: "tree s (m @ q @ [n]) = Some x" by (auto split: option.splits)
    show ?thesis
    proof (cases x)
      case (Link l)
      with run Inr s1 sk show ?thesis by auto
    next
      case Dir
      have "dirs_from (tree s) m (q @ [n])" using Cons.prems(1) x Dir by (simp add: dirs_from_append)
      moreover have "check_segments allow mp (render True (M @ (q @ [n]))) ns s1 = (e, s')" using run Inr Dir sk by simp
      ultimately have "tree s' = tree s \<and> honest s' \<and>
          (e = None \<longrightarrow> no_links (tree s) (m @ q @ [n]) ns \<and>
            (\<not> allow \<longrightarrow> ns \<noteq> [] \<longrightarrow> dirs_from (tree s) m ((q @ [n]) @ butlast ns) \<and> tree s (m @ (q @ [n]) @ ns) \<noteq> None))"
        using Cons.IH [of s1 "q @ [n]"] Cons.prems(2) s1 res dir ok by simp
      with x Dir Cons.prems(1) show ?thesis by (cases "ns = []") (auto simp: no_links_Cons dirs_from_append)
    next
      case (File b)
      have below: "tree s ((m @ q @ [n]) @ p) \<noteq> Some (Link l)" for p l
        using tree_ok_file [OF ok x [unfolded File], of p] x File by (cases "p = []") auto
      have nl: "no_links (tree s) (m @ q) (n # ns)" unfolding no_links_Cons using below [of "[]"] below by (auto simp: no_links_def)
      show ?thesis
      proof (cases ns)
        case Nil
        with run Inr File s1 nl x Cons.prems(1) sk show ?thesis by auto
      next
        case (Cons n2 ns2)
        have n2: "name_ok n2" "n2 \<noteq> ''..''" "names ((M @ q @ [n]) @ [n2])"
          using Cons.prems(2) Cons by (auto simp: names_def)
        have J2: "path_Join [render True (M @ q @ [n]), n2] = render True ((M @ q @ [n]) @ [n2])" using Join_render [OF n2(3)] .
        have sk2: "n2 \<noteq> '''' \<and> n2 \<noteq> ''.''" using n2(1) by (simp add: name_ok_def)
        obtain r2 s2 where L2: "fs_Lstat (render True ((M @ q @ [n]) @ [n2])) s1 = (r2, s2)"
          by (cases "fs_Lstat (render True ((M @ q @ [n]) @ [n2])) s1")
        have res2: "resolve (tree s) (M @ q @ [n]) = Inr (m @ q @ [n])"
          by (rule resolve_plain [OF res dir Cons.prems(1)]) (use n x File in auto)
        have "lstat_node (tree s1) ((M @ q @ [n]) @ [n2]) = Inl (LibE ErrNotDir)"
          using res2 x File s1(1) by (simp add: lstat_node_def node_at_def butlast_append)
        with fs_Lstat_spec [OF L2 s1(2)] have "\<exists>y. r2 = Inl y \<and> \<not> errors_Is y (LibE ErrNotExist)"
          and "tree s2 = tree s" "honest s2" using s1 render_facts(3) [OF n2(3)] by auto
        then obtain y where y: "r2 = Inl y" "\<not> errors_Is y (LibE ErrNotExist)" by blast
        have "check_segments allow mp (render True (M @ q @ [n])) (n2 # ns2) s1 = (e, s')"
          using run Inr File Cons sk by simp
        from this [unfolded check_segments.simps append_assoc [symmetric] J2 [unfolded append_assoc [symmetric]]
            L2 [unfolded append_assoc [symmetric]]]
        have "e \<noteq> None" "s' = s2" using sk2 y by auto
        with \<open>tree s2 = tree s\<close> \<open>honest s2\<close> show ?thesis by auto
      qed
    qed
  qed
qed

lemma fs_Lstat_tree [simp]: "fs_Lstat p s = (r, s1) \<Longrightarrow> tree s1 = tree s"
  by (auto simp: fs_Lstat_def split: prod.splits option.splits)

lemma check_segments_tree: "check_segments allow mp cur segs s = (e, s') \<Longrightarrow> tree s' = tree s"
proof (induction segs arbitrary: cur s)
  case (Cons n ns)
  obtain r s1 where L: "fs_Lstat (path_Join [cur, n]) s = (r, s1)" by (cases "fs_Lstat (path_Join [cur, n]) s")
  then have "tree s1 = tree s" by simp
  with Cons L show ?case by (cases r) (auto split: if_splits)
qed simp

lemma noSymLinks_tree: "noSymLinks wd mp p allow s = (e, s') \<Longrightarrow> tree s' = tree s"
  by (auto simp: noSymLinks_def split: sum.splits if_splits dest: check_segments_tree)

lemma noSymLinks_spec:
  assumes "path_Abs wd mp = Inr (render True M)" and "names (M @ ns)"
    and "resolve (tree s) M = Inr m" and "node_at (tree s) m = Some Dir" and "tree_ok (tree s)" and "honest s"
    and "noSymLinks wd mp (render True (M @ ns)) allow s = (e, s')"
  shows "tree s' = tree s" and "honest s'" and "e = None \<Longrightarrow> no_links (tree s) m ns"
    and "e = None \<Longrightarrow> \<not> allow \<Longrightarrow> ns \<noteq> [] \<Longrightarrow> dirs_from (tree s) m (butlast ns) \<and> tree s (m @ ns) \<noteq> None"
proof -
  have M: "names M" "names ns" using assms(2) by simp_all
  have "tree s' = tree s \<and> honest s' \<and> (e = None \<longrightarrow> no_links (tree s) m ns \<and>
      (\<not> allow \<longrightarrow> ns \<noteq> [] \<longrightarrow> dirs_from (tree s) m (butlast ns) \<and> tree s (m @ ns) \<noteq> None))"
  proof (cases "ns = []")
    case True
    with assms(1,6,7) M Rel_render [of M "[]"] show ?thesis by (simp add: noSymLinks_def path_Abs_render no_links_def)
  next
    case False
    have "check_segments allow (render True M) (render True (M @ [])) ns s = (e, s')"
      using assms(1,7) False join_slash_dot [OF M(2) False]
      by (simp add: noSymLinks_def path_Abs_render [OF assms(2)] Rel_render [OF M(1) assms(2)] split_join_names [OF M(2) False])
    from check_segments_spec [OF assms(3,4,5) _ _ assms(6) this] assms(2) show ?thesis by simp
  qed
  then show "tree s' = tree s" and "honest s'" and "e = None \<Longrightarrow> no_links (tree s) m ns"
    and "e = None \<Longrightarrow> \<not> allow \<Longrightarrow> ns \<noteq> [] \<Longrightarrow> dirs_from (tree s) m (butlast ns) \<and> tree s (m @ ns) \<noteq> None"
    by blast+
qed

lemma pathCheck_spec:
  assumes "pathCheck wd mp fp allow s = (Inr target, s')" and "mp \<noteq> ''''" and "\<And>w. wd = Inr w \<Longrightarrow> IsAbs w"
    and "path_Abs wd mp = Inr (render True M)" and "names M"
    and "resolve (tree s) M = Inr m" and "node_at (tree s) m = Some Dir" and "tree_ok (tree s)" and "honest s"
  shows "\<exists>ns. target = render True (M @ ns) \<and> safeDrivePath wd mp fp = Inr target \<and> names (M @ ns)
    \<and> no_links (tree s) m ns \<and> tree s' = tree s \<and> honest s'
    \<and> (\<not> allow \<longrightarrow> ns \<noteq> [] \<longrightarrow> dirs_from (tree s) m (butlast ns) \<and> tree s (m @ ns) \<noteq> None)"
proof -
  from assms(1) have sd: "safeDrivePath wd mp fp = Inr target" and ns: "noSymLinks wd mp target allow s = (None, s')"
    by (auto simp: pathCheck_def split: sum.splits prod.splits option.splits)
  have "\<exists>M' ns. path_Abs wd mp = Inr (render True M') \<and> target = render True (M' @ ns) \<and> names (M' @ ns)"
    by (rule safeDrivePath_under [OF sd assms(2)]) (rule assms(3))
  then obtain M' ns where t: "path_Abs wd mp = Inr (render True M')" "target = render True (M' @ ns)" "names (M' @ ns)"
    by (elim exE conjE)
  have nM: "names M'" using t(3) by simp
  have "render True M' = render True M" using t(1) assms(4) by simp
  then have "comps (render True M') = comps (render True M)" by (rule arg_cong)
  then have "M' = M" unfolding render_facts(3) [OF nM] render_facts(3) [OF assms(5)] .
  with t have t: "target = render True (M @ ns)" "names (M @ ns)" by simp_all
  note n = noSymLinks_spec [OF assms(4) t(2) assms(6-9) ns [unfolded t(1)]]
  show ?thesis
    by (intro exI [of _ ns] conjI impI t sd n(1,2) n(3) [OF refl] n(4) [OF refl, THEN conjunct1] n(4) [OF refl, THEN conjunct2])
qed

lemma pathCheck_tree: "pathCheck wd mp fp allow s = (r, s') \<Longrightarrow> tree s' = tree s"
  by (auto simp: pathCheck_def split: sum.splits prod.splits option.splits dest: noSymLinks_tree)

text \<open>Conversely, the checks pass on directories that lead to an existing file.\<close>

lemma check_segments_pass:
  assumes "resolve (tree s) M = Inr m" and "node_at (tree s) m = Some Dir" and "fsFaults s = []"
  shows "dirs_from (tree s) m (q @ butlast ns) \<Longrightarrow> names (M @ q @ ns) \<Longrightarrow> ns = [] \<or> (\<exists>x. tree s (m @ q @ ns) = Some x \<and> \<not> is_link x) \<Longrightarrow>
    check_segments allow mp (render True (M @ q)) ns s = (None, s)"
proof (induction ns arbitrary: q)
  case (Cons n ns)
  have n: "name_ok n" "names ((M @ q) @ [n])" "names q" using Cons.prems(2) by (auto simp: names_def)
  have J: "path_Join [render True (M @ q), n] = render True (M @ q @ [n])" using Join_render [OF n(2)] by simp
  have dq: "dirs_from (tree s) m q" using Cons.prems(1) by (simp add: dirs_from_append)
  have x: "\<exists>x. tree s (m @ q @ [n]) = Some x \<and> \<not> is_link x"
  proof (cases "ns = []")
    case True
    with Cons.prems(3) show ?thesis by simp
  next
    case False
    with Cons.prems(1) show ?thesis by (auto simp: dirs_from_append)
  qed
  then obtain x where x: "tree s (m @ q @ [n]) = Some x" "\<not> is_link x" by blast
  have "lstat_node (tree s) (M @ q @ [n]) = Inr x" using lstat_node_dirs [OF assms(1,2) dq n(3), of n] x by simp
  then have L: "fs_Lstat (render True (M @ q @ [n])) s = (Inr x, s)"
    using render_facts(3) [OF n(2)] by (simp add: fs_Lstat_def fs_sys_healthy [OF assms(3)])
  have "check_segments allow mp (render True (M @ (q @ [n]))) ns s = (None, s)"
  proof (cases "ns = []")
    case False
    then show ?thesis by (intro Cons.IH) (use Cons.prems in auto)
  qed simp
  then show ?case using n(1) x(2) unfolding check_segments.simps J L by (simp add: name_ok_def)
qed simp

lemma pathCheck_pass:
  assumes "safeDrivePath wd mp fp = Inr (render True (M @ ns))" and "path_Abs wd mp = Inr (render True M)" and "names (M @ ns)"
    and "resolve (tree s) M = Inr m" and "node_at (tree s) m = Some Dir" and "fsFaults s = []"
    and "dirs_from (tree s) m (butlast ns)" and "ns \<noteq> []" and "tree s (m @ ns) = Some x" and "\<not> is_link x"
  shows "pathCheck wd mp fp allow s = (Inr (render True (M @ ns)), s)"
proof -
  have M: "names M" "names ns" using assms(3) by simp_all
  have "check_segments allow (render True M) (render True (M @ [])) ns s = (None, s)"
    by (rule check_segments_pass [OF assms(4-6)]) (use assms(3,7,9,10) in auto)
  then show ?thesis using assms(1,2) join_slash_dot [OF M(2) assms(8)]
    by (simp add: pathCheck_def noSymLinks_def path_Abs_render [OF assms(3)] Rel_render [OF M(1) assms(3)]
        split_join_names [OF M(2) assms(8)] assms(8))
qed

end
