(* ===== verification/Drive_Image.thy ===== *)
theory Drive_Image
  imports Drive_Options Drive_Paths
begin

text \<open>
  The state of a drive (\<^verbatim>\<open>drive/base_drive.go\<close>; the encrypted drive has the same fields and a key) and how one is made
  from an image file (\<^verbatim>\<open>drive/autodetect.go\<close>): the filesystem is recognised, the options are completed and checked. The
  closure stored by a mount is a value of \<open>unmount_fn\<close>; the wait group is its counter. The receiver of a method is not nil.
\<close>

section \<open>State\<close>

datatype unmount_fn =
    GuestUnmount string string
  | LoopUnmount string string
  | LuksUnmount string string

record drive =
  params :: "DriveOptions option"
  imagePath :: string
  mounted :: bool
  mountPoint :: string
  unmountFunc :: "unmount_fn option"
  ioWG :: nat
  unMounting :: bool

definition Base_Validate :: "drive \<Rightarrow> bool" where
  "Base_Validate d \<longleftrightarrow> (case params d of None \<Rightarrow> False | Some p \<Rightarrow> Options_Validate p)"

definition Base_Parameters :: "drive \<Rightarrow> DriveOptions option" where
  "Base_Parameters d = Clone (params d)"

section \<open>From an image\<close>

definition id_char :: "char \<Rightarrow> bool" where
  "id_char c \<longleftrightarrow>
     (let n = of_char c :: nat in
      97 \<le> n \<and> n \<le> 122 \<or> 65 \<le> n \<and> n \<le> 90 \<or> 48 \<le> n \<and> n \<le> 57 \<or> c \<in> {CHR ''-'', CHR ''_'', CHR ''.''})"

text \<open>\<^verbatim>\<open>strings.Map\<close> with the function of the code: a rune of several bytes becomes one dash.\<close>

fun map_runes :: "nat \<Rightarrow> string \<Rightarrow> string" where
  "map_runes skip [] = []"
| "map_runes (Suc skip) (c # s) = map_runes skip s"
| "map_runes 0 (c # s) = (if id_char c then c else CHR ''-'') # map_runes (rune_width (c # s) - 1) s"

definition path_Ext :: "string \<Rightarrow> string" where
  "path_Ext p =
     (let lastElem = rev (takeWhile (\<lambda>c. c \<noteq> CHR ''/'') (rev p))
      in if CHR ''.'' \<in> set lastElem then CHR ''.'' # rev (takeWhile (\<lambda>c. c \<noteq> CHR ''.'') (rev lastElem)) else '''')"

definition TrimSuffix :: "string \<Rightarrow> string \<Rightarrow> string" where
  "TrimSuffix s suf =
     (if length suf \<le> length s \<and> drop (length s - length suf) s = suf then take (length s - length suf) s else s)"

definition deriveDriveIDFromPath :: "string \<Rightarrow> string" where
  "deriveDriveIDFromPath path =
     (let baseName = path_Base path;
          extension = path_Ext baseName;
          i1 = TrimSpace (TrimSuffix baseName extension);
          i2 = map_runes 0 i1;
          i3 = trim (\<lambda>c. c \<in> {CHR ''-'', CHR ''_'', CHR ''.''}) i2
      in if i3 = '''' then ''drive'' else i3)"

definition detectImageFilesystem :: "string \<Rightarrow> host \<Rightarrow> ((string \<times> bool) result \<times> host) outcome" where
  "detectImageFilesystem path h =
     (case on_fs (fs_Open path) h of
        (Inl e, h1) \<Rightarrow> Return (Inl (Wrap ''failed to open image file'' e), h1)
      | (Inr f, h1) \<Rightarrow>
          (case io_ReadFull conn_read 4096 f of
             None \<Rightarrow> Blocked
           | Some (header, readErr, f') \<Rightarrow>
               if readErr \<noteq> None \<and> \<not> errors_Is (the readErr) (LibE ErrUnexpectedEOF)
               then Return (Inl (Wrap ''failed to read image header'' (the readErr)), h1)
               else if 4 \<le> length header \<and> (take 4 header = bytes_of ''hsqs'' \<or> take 4 header = bytes_of ''sqsh'')
               then Return (Inr (''squashfs'', True), h1)
               else if 1082 \<le> length header \<and> header ! 1080 = 0x53 \<and> header ! 1081 = 0xEF
               then Return (Inr (''ext4'', False), h1)
               else if 4 \<le> length header \<and> take 4 header = bytes_of ''QFI'' @ [0xfb]
               then Return (Inl (Msg ''unsupported image format qcow2; expected a filesystem image (raw ext4/squashfs)''), h1)
               else if found h1 ''blkid''
               then (case exec [projr (lookPath h1 ''blkid''), ''-o'', ''value'', ''-s'', ''TYPE'', path] h1 of
                       ((out, cmdErr), h2) \<Rightarrow>
                         let blkidType = TrimSpace (string_of out)
                         in if cmdErr = None \<and> blkidType \<noteq> ''''
                            then Return (Inr (blkidType, blkidType = ''squashfs''), h2)
                            else Return (Inl (Msg ''could not detect a supported filesystem image type''), h2))
               else Return (Inl (Msg ''could not detect a supported filesystem image type''), h1)))"

definition newDrive :: "DriveOptions \<Rightarrow> string \<Rightarrow> drive" where
  "newDrive p path =
     \<lparr>params = Some p, imagePath = path, mounted = False, mountPoint = '''', unmountFunc = None, ioWG = 0, unMounting = False\<rparr>"

text \<open>The parameters of the drive: the caller's, with a mount method, or ones made from what was detected.\<close>

definition image_params ::
  "DriveOptions option \<Rightarrow> string \<Rightarrow> nat \<Rightarrow> string \<Rightarrow> bool \<Rightarrow> host \<Rightarrow> DriveOptions result" where
  "image_params options absImagePath len detectedFSType detectedReadOnly h =
     (case Clone options of
        None \<Rightarrow>
          (case DetectBestMountMethod h of
             Inl e \<Rightarrow> Inl e
           | Inr m \<Rightarrow>
               Inr (NewDriveOptions (deriveDriveIDFromPath absImagePath) detectedReadOnly False '''' '''' False
                     (of_nat len) detectedFSType m))
      | Some p \<Rightarrow>
          if mountMethod p = '''' then
            (case DetectBestMountMethod h of Inl e \<Rightarrow> Inl e | Inr m \<Rightarrow> Inr (p\<lparr>mountMethod := m\<rparr>))
          else Inr p)"

definition BaseDriveFromImage :: "string \<Rightarrow> DriveOptions option \<Rightarrow> host \<Rightarrow> (drive result \<times> host) outcome" where
  "BaseDriveFromImage path options h =
     (if path = '''' then Return (Inl (Wrap ''image path cannot be empty'' (DriveE ErrInvalidParameter)), h)
      else
        (case path_Abs (getwd h) path of
           Inl e \<Rightarrow> Return (Inl (Wrap ''failed to resolve image path'' (DriveE ErrInvalidParameter)), h)
         | Inr absImagePath \<Rightarrow>
             (case on_fs (fs_Stat absImagePath) h of
                (Inl e, h1) \<Rightarrow> Return (Inl (Wrap ''failed to stat image path'' (DriveE ErrInvalidParameter)), h1)
              | (Inr (isDir, len), h1) \<Rightarrow>
                  if isDir then Return (Inl (Wrap ''image path must be a file'' (DriveE ErrInvalidParameter)), h1)
                  else if len = 0 then Return (Inl (Wrap ''image file is empty'' (DriveE ErrInvalidParameter)), h1)
                  else
                    (case detectImageFilesystem absImagePath h1 of
                       Panic \<Rightarrow> Panic
                     | Blocked \<Rightarrow> Blocked
                     | Return (Inl e, h2) \<Rightarrow> Return (Inl (Wrap (error_text e) (DriveE ErrInvalidParameter)), h2)
                     | Return (Inr (detectedFSType, detectedReadOnly), h2) \<Rightarrow>
                         (case image_params options absImagePath len detectedFSType detectedReadOnly h2 of
                            Inl e \<Rightarrow> Return (Inl e, h2)
                          | Inr p \<Rightarrow>
                              if \<not> Base_Validate (newDrive p absImagePath) then Return (Inl (DriveE ErrDriveNotValid), h2)
                              else if FSType p \<noteq> detectedFSType
                              then Return (Inl (Wrap ''provided filesystem type does not match detected image type''
                                     (DriveE ErrInvalidParameter)), h2)
                              else if detectedReadOnly \<and> \<not> readonly p
                              then Return (Inl (Wrap ''detected read-only image type requires readonly=true''
                                     (DriveE ErrInvalidParameter)), h2)
                              else Return (Inr (newDrive p absImagePath), h2))))))"

section \<open>What a constructed drive satisfies\<close>

definition drive_id_ok :: "string \<Rightarrow> bool" where
  "drive_id_ok i \<longleftrightarrow> i \<noteq> '''' \<and> (\<forall>c \<in> set i. id_char c)
     \<and> hd i \<notin> {CHR ''-'', CHR ''_'', CHR ''.''} \<and> last i \<notin> {CHR ''-'', CHR ''_'', CHR ''.''}"

lemma map_runes_chars: "c \<in> set (map_runes k s) \<Longrightarrow> id_char c"
  by (induction k s rule: map_runes.induct) (auto simp: id_char_def split: if_splits)

lemma deriveDriveID_ok: "drive_id_ok (deriveDriveIDFromPath p)"
proof -
  let ?P = "\<lambda>c. c \<in> {CHR ''-'', CHR ''_'', CHR ''.''}"
  obtain s where s: "deriveDriveIDFromPath p = (if trim ?P (map_runes 0 s) = '''' then ''drive'' else trim ?P (map_runes 0 s))"
    by (rule that) (simp only: deriveDriveIDFromPath_def Let_def)
  have "\<forall>c \<in> set (trim ?P (map_runes 0 s)). id_char c"
    using trim_set [of ?P "map_runes 0 s"] map_runes_chars by blast
  then show ?thesis using trim_ends [of ?P "map_runes 0 s"] unfolding s drive_id_ok_def
    by (auto simp: id_char_def Let_def)
qed

lemma detect_readonly:
  "detectImageFilesystem path h = Return (Inr (t, ro), h') \<Longrightarrow> ro = (t = ''squashfs'') \<and> t \<noteq> ''''"
  by (auto simp: detectImageFilesystem_def Let_def split: prod.splits sum.splits option.splits if_splits)

lemma image_params_facts:
  assumes "image_params options p n t ro h = Inr q"
  shows "mountMethod q \<noteq> ''''" and "options = None \<Longrightarrow> optId q = deriveDriveIDFromPath p"
proof -
  have "m \<noteq> ''''" if "DetectBestMountMethod h = Inr m" for m
    using that by (auto simp: DetectBestMountMethod_def Let_def split: if_splits)
  with assms show "mountMethod q \<noteq> ''''"
    by (auto simp: image_params_def Clone_def NewDriveOptions_def split: option.splits sum.splits if_splits)
  show "options = None \<Longrightarrow> optId q = deriveDriveIDFromPath p" using assms
    by (auto simp: image_params_def Clone_def NewDriveOptions_def split: option.splits sum.splits if_splits)
qed

text \<open>What every drive made from an image satisfies.\<close>

definition image_drive_ok :: "drive \<Rightarrow> bool" where
  "image_drive_ok d \<longleftrightarrow>
     (\<exists>p. params d = Some p \<and> Options_Validate p \<and> mountMethod p \<in> {MountMethodGuestMount, MountMethodLoop}
        \<and> (FSType p = ''squashfs'' \<longrightarrow> readonly p))
     \<and> IsAbs (imagePath d) \<and> Clean (imagePath d) = imagePath d
     \<and> \<not> mounted d \<and> \<not> unMounting d \<and> unmountFunc d = None \<and> ioWG d = 0"

lemma BaseDriveFromImage_ok:
  assumes "BaseDriveFromImage path options h = Return (Inr d, h')"
  shows "\<exists>p a n t h1 h2. d = newDrive p a \<and> path_Abs (getwd h) path = Inr a \<and> path \<noteq> '''' \<and>
    detectImageFilesystem a h1 = Return (Inr (t, t = ''squashfs''), h2) \<and>
    image_params options a n t (t = ''squashfs'') h2 = Inr p \<and>
    Base_Validate d \<and> FSType p = t \<and> (t = ''squashfs'' \<longrightarrow> readonly p)"
proof -
  from assms obtain a isDir n h1 where a: "path \<noteq> ''''" "path_Abs (getwd h) path = Inr a"
      "on_fs (fs_Stat a) h = (Inr (isDir, n), h1)" "\<not> isDir" "n \<noteq> 0"
    by (auto simp: BaseDriveFromImage_def split: sum.splits prod.splits if_splits)
  note u = assms [unfolded BaseDriveFromImage_def]
  from u a obtain t ro h2 where t: "detectImageFilesystem a h1 = Return (Inr (t, ro), h2)"
    by (auto split: outcome.splits sum.splits prod.splits if_splits)
  from u a t obtain p where p: "image_params options a n t ro h2 = Inr p" "d = newDrive p a" "Base_Validate d"
      "FSType p = t" "ro \<longrightarrow> readonly p"
    by (auto split: sum.splits if_splits)
  from detect_readonly [OF t] p t a show ?thesis by blast
qed

text \<open>
  C27: A drive made from an image is well formed: its options are valid and name one of the two mount methods, a squashfs
  image is read-only, its image path is absolute and clean, it is not mounted, and an ID that the code derives from the file
  name consists of letters, digits, dashes, underscores and dots, does not begin or end with a separator and is not empty,
  whatever bytes the file name has.
\<close>

theorem image_drive_well_formed:
  assumes "BaseDriveFromImage path options h = Return (Inr d, h')" and "getwd h = Inr wd" and "IsAbs wd"
  shows "image_drive_ok d \<and> (options = None \<longrightarrow> drive_id_ok (optId (the (params d))))"
proof -
  from BaseDriveFromImage_ok [OF assms(1)] obtain p a n t h1 h2 where d: "d = newDrive p a" "path_Abs (getwd h) path = Inr a"
      "path \<noteq> ''''" "Base_Validate d" "FSType p = t" "t = ''squashfs'' \<longrightarrow> readonly p"
    and ip: "image_params options a n t (t = ''squashfs'') h2 = Inr p" by blast
  have w: "IsAbs w" if "getwd h = Inr w" for w using that assms(2,3) by simp
  have a: "IsAbs a" by (rule path_Abs_abs(1) [OF d(2,3) w])
  have c: "Clean a = a" by (rule path_Abs_abs(2) [OF d(2,3) w])
  have v: "Options_Validate p" using d(1,4) by (simp add: Base_Validate_def newDrive_def)
  then have "mountMethod p \<in> {MountMethodGuestMount, MountMethodLoop}"
    using image_params_facts(1) [OF ip] by (auto simp: Options_Validate_def split: if_splits)
  with d a c v show ?thesis using image_params_facts(2) [OF ip] deriveDriveID_ok [of a]
    by (auto simp: image_drive_ok_def newDrive_def)
qed

definition image_host :: host where
  "image_host =
     \<lparr>files = \<lparr>tree = [[''d''] \<mapsto> Dir, [''d'', ''my disk.sqsh''] \<mapsto> File (bytes_of ''hsqsX'')], fsFaults = [], fsReadEnd = (\<lambda>p. LibE EOF)\<rparr>,
      getwd = Inr ''/d'', tempDir = ''/tmp'', nextRoll = [5], geteuid = 0, lookPath = (\<lambda>n. Inr (''/bin/'' @ n)), replies = [], cmdLog = [],
      mem = (\<lambda>a. []), nextMem = 1, openers = (\<lambda>i. [])\<rparr>"

lemma image_host_runs: "\<exists>d h'. BaseDriveFromImage ''my disk.sqsh'' None image_host = Return (Inr d, h')
   \<and> optId (the (params d)) = ''my-disk''"
proof -
  have a: "path_Abs (getwd image_host) ''my disk.sqsh'' = Inr ''/d/my disk.sqsh''" by code_simp
  have r: "resolve [[''d''] \<mapsto> Dir, [''d'', ''my disk.sqsh''] \<mapsto> File (bytes_of ''hsqsX'')] (comps ''/d/my disk.sqsh'')
      = Inr [''d'', ''my disk.sqsh'']" by code_simp
  have s: "on_fs (fs_Stat ''/d/my disk.sqsh'') image_host = (Inr (False, 5), image_host)"
    using r by (simp add: on_fs_def fs_Stat_def fs_sys_def image_host_def node_at_def)
  have o: "on_fs (fs_Open ''/d/my disk.sqsh'') image_host = (Inr ([bytes_of ''hsqsX''], LibE EOF), image_host)"
    using r by (simp add: on_fs_def fs_Open_def fs_sys_def image_host_def node_at_def bytes_of_def)
  have f: "io_ReadFull conn_read 4096 ([bytes_of ''hsqsX''], LibE EOF) = Some (bytes_of ''hsqsX'', Some (LibE ErrUnexpectedEOF), [], LibE EOF)"
    by (simp add: io_ReadFull_def read_full_loop.simps bytes_of_def)
  have d: "detectImageFilesystem ''/d/my disk.sqsh'' image_host = Return (Inr (''squashfs'', True), image_host)"
    by (simp add: detectImageFilesystem_def o f) (simp add: bytes_of_def)
  have i: "deriveDriveIDFromPath ''/d/my disk.sqsh'' = ''my-disk''" by code_simp
  have m: "DetectBestMountMethod image_host = Inr MountMethodGuestMount"
    by (simp add: DetectBestMountMethod_def found_def image_host_def)
  show ?thesis
    using a s d m i
    by (simp add: BaseDriveFromImage_def image_params_def Clone_def Base_Validate_def newDrive_def Options_Validate_def
        NewDriveOptions_def FSType_def image_host_def)
qed

theorem image_drive_well_formed_witness:
  "\<exists>d h'. BaseDriveFromImage ''my disk.sqsh'' None image_host = Return (Inr d, h') \<and> image_drive_ok d
     \<and> drive_id_ok ''my-disk'' \<and> optId (the (params d)) = ''my-disk''"
proof -
  obtain d h' where r: "BaseDriveFromImage ''my disk.sqsh'' None image_host = Return (Inr d, h')"
    and i: "optId (the (params d)) = ''my-disk''" using image_host_runs by blast
  have "getwd image_host = Inr ''/d''" "IsAbs ''/d''" by (simp_all add: image_host_def IsAbs_def)
  from image_drive_well_formed [OF r this] r i show ?thesis by auto
qed

end
