(* ===== verification/Base_Drive.thy ===== *)
theory Base_Drive
  imports Drive_Image
begin

text \<open>
  The operations of \<^verbatim>\<open>drive/base_drive.go\<close>. A method is split at its critical sections: a definition for each piece
  that holds the drive's lock and one for the work between them, composed into the whole method as the code composes them.
  \<^verbatim>\<open>Unmount\<close> called alone is \<open>Blocked\<close> when it would wait for I/O that nobody is doing; the interleaving of the pieces
  of several calls is in \<open>Drive_Lifecycle\<close>. File modes are not modelled.
\<close>

section \<open>Mounting\<close>

definition set_mounted :: "string \<Rightarrow> unmount_fn \<Rightarrow> drive \<Rightarrow> drive" where
  "set_mounted mp f d = d\<lparr>mounted := True, mountPoint := mp, unmountFunc := Some f\<rparr>"

text \<open>The three attempts: with inspection, with the first partition and with the whole device.\<close>

fun try_guestmount :: "string \<Rightarrow> string list list \<Rightarrow> host \<Rightarrow> (byte list \<times> error option) \<times> host" where
  "try_guestmount exe [] h = (([], Some (Msg '''')), h)"
| "try_guestmount exe [args] h = exec (exe # args) h"
| "try_guestmount exe (args # others) h =
     (case exec (exe # args) h of
        ((out, None), h1) \<Rightarrow> ((out, None), h1)
      | ((out, Some e), h1) \<Rightarrow> try_guestmount exe others h1)"

definition mountWithGuestMount :: "string \<Rightarrow> string \<Rightarrow> bool \<Rightarrow> drive \<Rightarrow> host \<Rightarrow> error option \<times> drive \<times> host" where
  "mountWithGuestMount img mp ro d h =
     (if \<not> found h ''guestmount'' then (Some (Msg ''guestmount not available''), d, h)
      else if \<not> found h ''guestunmount'' then (Some (Msg ''guestunmount not available''), d, h)
      else
        (let base = [''-a'', img] @ (if ro then [''--ro''] else [])
         in case try_guestmount (projr (lookPath h ''guestmount''))
                   [base @ [''-i'', mp], base @ [''-m'', ''/dev/sda1'', mp], base @ [''-m'', ''/dev/sda'', mp]] h of
              ((out, Some e), h1) \<Rightarrow> (Some (Msg (''guestmount failed: '' @ TrimSpace (string_of out))), d, h1)
            | ((out, None), h1) \<Rightarrow> (None, set_mounted mp (GuestUnmount (projr (lookPath h ''guestunmount'')) mp) d, h1)))"

definition mountWithLoopDevice ::
  "string \<Rightarrow> string \<Rightarrow> string \<Rightarrow> string \<Rightarrow> drive \<Rightarrow> host \<Rightarrow> error option \<times> drive \<times> host" where
  "mountWithLoopDevice img mp fsname mountOpts d h =
     (if geteuid h \<noteq> 0 then (Some (Msg ''loop mount requires root privileges''), d, h)
      else
        (case exec [''losetup'', ''--find'', ''--show'', img] h of
           ((output, Some e), h1) \<Rightarrow> (Some (Wrap ''failed to create loop device'' e), d, h1)
         | ((output, None), h1) \<Rightarrow>
             (let loopDevice = TrimSpace (string_of output)
              in case exec [''mount'', ''-t'', fsname, ''-o'', mountOpts, loopDevice, mp] h1 of
                   ((out, Some e), h2) \<Rightarrow>
                     (Some (Wrap ''failed to mount loop device'' e), d, snd (exec [''losetup'', ''-d'', loopDevice] h2))
                 | ((out, None), h2) \<Rightarrow> (None, set_mounted mp (LoopUnmount mp loopDevice) d, h2))))"

text \<open>
  \<open>Mount\<close> holds the lock throughout. On a drive without options every path that gets past the two flags dereferences a nil
  pointer.
\<close>

definition Mount :: "string \<Rightarrow> drive \<Rightarrow> host \<Rightarrow> (error option \<times> drive \<times> host) outcome" where
  "Mount mp0 d h =
     (if mounted d then Return (Some (DriveE ErrDriveAlreadyMounted), d, h)
      else if unMounting d then Return (Some (Msg ''drive is currently unmounting''), d, h)
      else
        (case params d of
           None \<Rightarrow> Panic
         | Some p \<Rightarrow>
             if mp0 = '''' \<and> \<not> ephemeral p
             then Return (Some (Msg ''a specified mount point is required for non-ephemeral drives''), d, h)
             else if FSType p = ''squashfs'' \<and> \<not> readonly p
             then Return (Some (Msg ''squashfs drives must be read-only''), d, h)
             else
               (let mountOpts = ''nosuid,nodev,noexec'' @ (if readonly p then '',ro'' else '''')
                in case (if mp0 = '''' then os_MkdirTemp ''drive-mount-'' h else (Inr mp0, h)) of
                     (Inl e, h1) \<Rightarrow> Return (Some (Wrap ''failed to create mount point'' e), d, h1)
                   | (Inr mp, h1) \<Rightarrow>
                       if mountMethod p = MountMethodGuestMount
                       then Return (mountWithGuestMount (imagePath d) mp (readonly p) d h1)
                       else if mountMethod p = MountMethodLoop
                       then Return (mountWithLoopDevice (imagePath d) mp (FSType p) mountOpts d h1)
                       else Return (Some (Msg (''unsupported mount method: '' @ mountMethod p)), d, h1))))"

section \<open>Unmounting\<close>

definition guest_unmount :: "string \<Rightarrow> string \<Rightarrow> host \<Rightarrow> error option \<times> host" where
  "guest_unmount exe mp h = (case exec [exe, mp] h of ((out, e), h1) \<Rightarrow> (e, h1))"

definition loop_unmount :: "string \<Rightarrow> string \<Rightarrow> host \<Rightarrow> error option \<times> host" where
  "loop_unmount mp loopDevice h =
     (case exec [''umount'', mp] h of
        ((output, Some e), h1) \<Rightarrow> (Some (Wrap ''failed to unmount'' e), snd (exec [''losetup'', ''-d'', loopDevice] h1))
      | ((output, None), h1) \<Rightarrow>
          (case exec [''losetup'', ''-d'', loopDevice] h1 of
             ((output, Some e), h2) \<Rightarrow> (Some (Wrap ''failed to remove loop device'' e), h2)
           | ((output, None), h2) \<Rightarrow> (None, h2)))"

text \<open>\<^verbatim>\<open>runCmd\<close> and the closure of \<^verbatim>\<open>drive/encrypted_drive.go\<close>.\<close>

definition runCmd :: "string list \<Rightarrow> host \<Rightarrow> error option \<times> host" where
  "runCmd args h =
     (case exec args h of
        ((output, Some e), h1) \<Rightarrow> (Some (Wrap (''command failed; output='' @ TrimSpace (string_of output)) e), h1)
      | ((output, None), h1) \<Rightarrow> (None, h1))"

definition luks_unmount :: "string \<Rightarrow> string \<Rightarrow> host \<Rightarrow> error option \<times> host" where
  "luks_unmount mp mapName h =
     (case runCmd [''umount'', mp] h of
        (Some e, h1) \<Rightarrow> (Some e, snd (runCmd [''cryptsetup'', ''luksClose'', mapName] h1))
      | (None, h1) \<Rightarrow> runCmd [''cryptsetup'', ''luksClose'', mapName] h1)"

fun run_unmount :: "unmount_fn \<Rightarrow> host \<Rightarrow> error option \<times> host" where
  "run_unmount (GuestUnmount exe mp) h = guest_unmount exe mp h"
| "run_unmount (LoopUnmount mp dev) h = loop_unmount mp dev h"
| "run_unmount (LuksUnmount mp name) h = luks_unmount mp name h"

text \<open>The first critical section of \<open>Unmount\<close>.\<close>

definition unmount_begin :: "'z drive_scheme \<Rightarrow> error option \<times> 'z drive_scheme" where
  "unmount_begin d =
     (if \<not> mounted d then (Some (DriveE ErrDriveNotMounted), d)
      else if unMounting d then (Some (Msg ''drive is currently unmounting''), d)
      else if unmountFunc d = None then (Some (Msg ''drive has no unmount function''), d)
      else (None, d\<lparr>unMounting := True\<rparr>))"

text \<open>What the second one reads, after the wait for the I/O.\<close>

definition unmount_snapshot :: "'z drive_scheme \<Rightarrow> unmount_fn option \<times> string \<times> bool" where
  "unmount_snapshot d =
     (unmountFunc d, mountPoint d, case params d of None \<Rightarrow> False | Some p \<Rightarrow> ephemeral p)"

datatype unmount_result = UnmountFailed error | RemoveFailed error | Unmounted

text \<open>The work outside the lock.\<close>

definition unmount_work :: "unmount_fn \<Rightarrow> string \<Rightarrow> bool \<Rightarrow> host \<Rightarrow> unmount_result \<times> host" where
  "unmount_work f mp eph h =
     (case run_unmount f h of
        (Some e, h1) \<Rightarrow> (UnmountFailed e, h1)
      | (None, h1) \<Rightarrow>
          if eph \<and> mp \<noteq> '''' then
            (case on_fs (fs_RemoveAll (abs_path h1 mp)) h1 of
               (Some e, h2) \<Rightarrow> (RemoveFailed e, h2)
             | (None, h2) \<Rightarrow> (Unmounted, h2))
          else (Unmounted, h1))"

text \<open>The last critical section, one for each way the work can end; a failed removal returns without one.\<close>

fun unmount_end :: "unmount_result \<Rightarrow> 'z drive_scheme \<Rightarrow> error option \<times> 'z drive_scheme" where
  "unmount_end (UnmountFailed e) d = (Some (Wrap ''failed to unmount drive'' e), d\<lparr>unMounting := False\<rparr>)"
| "unmount_end (RemoveFailed e) d = (Some (Wrap ''failed to remove ephemeral drive'' e), d)"
| "unmount_end Unmounted d =
     (None, d\<lparr>mounted := False, mountPoint := '''', unmountFunc := None, unMounting := False\<rparr>)"

definition Unmount :: "drive \<Rightarrow> host \<Rightarrow> (error option \<times> drive \<times> host) outcome" where
  "Unmount d h =
     (case unmount_begin d of
        (Some e, d1) \<Rightarrow> Return (Some e, d1, h)
      | (None, d1) \<Rightarrow>
          if ioWG d1 \<noteq> 0 then Blocked
          else (case unmount_snapshot d1 of
                  (None, mp, eph) \<Rightarrow> Panic
                | (Some f, mp, eph) \<Rightarrow>
                    (case unmount_work f mp eph h of
                       (r, h1) \<Rightarrow> (case unmount_end r d1 of (e, d2) \<Rightarrow> Return (e, d2, h1)))))"

section \<open>Deleting\<close>

definition delete_snapshot :: "'z drive_scheme \<Rightarrow> bool \<times> string" where
  "delete_snapshot d = (case params d of None \<Rightarrow> False | Some p \<Rightarrow> ephemeral p, imagePath d)"

definition delete_work :: "bool \<Rightarrow> string \<Rightarrow> host \<Rightarrow> error option \<times> host" where
  "delete_work eph img h =
     (if eph \<and> img \<noteq> '''' then
        (case on_fs (fs_Remove (abs_path h img)) h of
           (Some e, h1) \<Rightarrow>
             (if errors_Is e (LibE ErrNotExist) then None else Some (Wrap ''failed to remove ephemeral drive image'' e), h1)
         | (None, h1) \<Rightarrow> (None, h1))
      else (None, h))"

definition delete_end :: "'z drive_scheme \<Rightarrow> 'z drive_scheme" where
  "delete_end d =
     d\<lparr>mounted := False, unMounting := False, unmountFunc := None, mountPoint := '''', params := None, imagePath := ''''\<rparr>"

definition Delete :: "drive \<Rightarrow> host \<Rightarrow> (error option \<times> drive \<times> host) outcome" where
  "Delete d h =
     (case Unmount d h of
        Panic \<Rightarrow> Panic
      | Blocked \<Rightarrow> Blocked
      | Return (e, d1, h1) \<Rightarrow>
          if e \<noteq> None \<and> \<not> errors_Is (the e) (DriveE ErrDriveNotMounted) then Return (e, d1, h1)
          else
            (case delete_work (fst (delete_snapshot d1)) (snd (delete_snapshot d1)) h1 of
               (Some e2, h2) \<Rightarrow> Return (Some e2, d1, h2)
             | (None, h2) \<Rightarrow> Return (None, delete_end d1, h2)))"

section \<open>Reading and writing files\<close>

text \<open>The critical section at the start of a write: the mount point, with the I/O counted.\<close>

definition write_begin :: "drive \<Rightarrow> (string result \<times> drive) outcome" where
  "write_begin d =
     (if \<not> mounted d then Return (Inl (Msg ''drive not mounted''), d)
      else if unMounting d then Return (Inl (Msg ''drive is currently unmounting''), d)
      else
        (case params d of
           None \<Rightarrow> Panic
         | Some p \<Rightarrow>
             if readonly p then Return (Inl (Msg (''cannot write to read-only drive: '' @ optId p)), d)
             else if FSType p = ''squashfs''
             then Return (Inl (Msg (''cannot write to squashfs drive (read-only filesystem): '' @ optId p)), d)
             else Return (Inr (mountPoint d), d\<lparr>ioWG := Suc (ioWG d)\<rparr>)))"

definition io_end :: "'z drive_scheme \<Rightarrow> 'z drive_scheme" where
  "io_end d = d\<lparr>ioWG := ioWG d - 1\<rparr>"

text \<open>The last checks on the target, then the open file.\<close>

definition open_target :: "string \<Rightarrow> string \<Rightarrow> fs \<Rightarrow> string list result \<times> fs" where
  "open_target filePath targetPath s =
     (case fs_Lstat targetPath s of
        (Inr info, s1) \<Rightarrow>
          if is_link info
          then (Inl (Wrap (''refusing to write to symlink path: '' @ filePath) (DriveE ErrInvalidParameter)), s1)
          else (case fs_OpenTrunc targetPath s1 of
                  (Inl e, s2) \<Rightarrow> (Inl (Wrap ''failed to open file for writing'' e), s2)
                | (Inr f, s2) \<Rightarrow> (Inr f, s2))
      | (Inl e, s1) \<Rightarrow>
          if \<not> errors_Is e (LibE ErrNotExist) then (Inl (Wrap ''failed to inspect target file'' e), s1)
          else (case fs_OpenTrunc targetPath s1 of
                  (Inl e, s2) \<Rightarrow> (Inl (Wrap ''failed to open file for writing'' e), s2)
                | (Inr f, s2) \<Rightarrow> (Inr f, s2)))"

definition copy_to_file :: "string list \<Rightarrow> conn \<Rightarrow> fs \<Rightarrow> (error option \<times> fs) option" where
  "copy_to_file f r s =
     (case io_Copy conn_read (fs_Write f) r s of
        None \<Rightarrow> None
      | Some (n, err, r', s1) \<Rightarrow>
          (case fs_Close s1 of
             (closeErr, s2) \<Rightarrow>
               Some (if err \<noteq> None then Some (Wrap ''failed to write file'' (the err))
                     else if closeErr \<noteq> None then Some (Wrap ''failed to close file'' (the closeErr))
                     else None, s2)))"

text \<open>The work between the critical sections; \<open>None\<close> when the reader never ends.\<close>

definition write_file :: "string result \<Rightarrow> string \<Rightarrow> string \<Rightarrow> conn \<Rightarrow> fs \<Rightarrow> (error option \<times> fs) option" where
  "write_file wd mp filePath r s =
     (case pathCheck wd mp filePath True s of
        (Inl e, s1) \<Rightarrow> Some (Some e, s1)
      | (Inr targetPath, s1) \<Rightarrow>
          (case fs_MkdirAll (path_Dir targetPath) s1 of
             (Some e, s2) \<Rightarrow> Some (Some (Wrap ''failed to create directory'' e), s2)
           | (None, s2) \<Rightarrow>
               (case noSymLinks wd mp (path_Dir targetPath) False s2 of
                  (Some e, s3) \<Rightarrow> Some (Some e, s3)
                | (None, s3) \<Rightarrow>
                    (case open_target filePath targetPath s3 of
                       (Inl e, s4) \<Rightarrow> Some (Some e, s4)
                     | (Inr f, s4) \<Rightarrow> copy_to_file f r s4))))"

definition WriteToDrive :: "string \<Rightarrow> conn \<Rightarrow> drive \<Rightarrow> host \<Rightarrow> (error option \<times> drive \<times> host) outcome" where
  "WriteToDrive filePath r d h =
     (if filePath = '''' then Return (Some (Wrap ''filepath cannot be empty'' (DriveE ErrInvalidParameter)), d, h)
      else if \<not> Base_Validate d then Return (Some (DriveE ErrDriveNotValid), d, h)
      else
        (case write_begin d of
           Panic \<Rightarrow> Panic
         | Blocked \<Rightarrow> Blocked
         | Return (Inl e, d1) \<Rightarrow> Return (Some e, d1, h)
         | Return (Inr mp, d1) \<Rightarrow>
             (case write_file (getwd h) mp filePath r (files h) of
                None \<Rightarrow> Blocked
              | Some (e, s) \<Rightarrow> Return (e, io_end d1, h\<lparr>files := s\<rparr>))))"

definition load_begin :: "'z drive_scheme \<Rightarrow> string result \<times> 'z drive_scheme" where
  "load_begin d =
     (if \<not> mounted d then (Inl (Msg ''drive not mounted''), d)
      else if unMounting d then (Inl (Msg ''drive is currently unmounting''), d)
      else (Inr (mountPoint d), d\<lparr>ioWG := Suc (ioWG d)\<rparr>))"

definition load_file :: "string result \<Rightarrow> string \<Rightarrow> string \<Rightarrow> fs \<Rightarrow> byte list result \<times> fs" where
  "load_file wd mp filePath s =
     (case pathCheck wd mp filePath False s of
        (Inl e, s1) \<Rightarrow> (Inl e, s1)
      | (Inr targetPath, s1) \<Rightarrow>
          (case fs_ReadFile targetPath s1 of
             (Inl e, s2) \<Rightarrow>
               (Inl (if errors_Is e (LibE ErrNotExist) then Msg (''file not found: '' @ filePath)
                     else Wrap ''failed to read file'' e), s2)
           | (Inr bytes, s2) \<Rightarrow> (Inr bytes, s2)))"

definition LoadFromDrive :: "string \<Rightarrow> drive \<Rightarrow> host \<Rightarrow> byte list result \<times> drive \<times> host" where
  "LoadFromDrive filePath d h =
     (if filePath = '''' then (Inl (Wrap ''filepath cannot be empty'' (DriveE ErrInvalidParameter)), d, h)
      else if \<not> Base_Validate d then (Inl (DriveE ErrDriveNotValid), d, h)
      else
        (case load_begin d of
           (Inl e, d1) \<Rightarrow> (Inl e, d1, h)
         | (Inr mp, d1) \<Rightarrow>
             (case on_fs (load_file (getwd h) mp filePath) h of (r, h1) \<Rightarrow> (r, io_end d1, h1))))"

section \<open>Where a write can reach\<close>

lemma fs_Write_tree: "fs_Write f s bs = (e, s') \<Longrightarrow>
    (\<forall>p. p \<noteq> f \<longrightarrow> tree s' p = tree s p) \<and>
    (\<forall>b. tree s f = Some (File b) \<longrightarrow> tree s' f = Some (File (if e = None then b @ bs else b)))"
proof -
  assume a: "fs_Write f s bs = (e, s')"
  obtain x s1 where x: "fs_sys s = (x, s1)" by (cases "fs_sys s")
  then have "tree s1 = tree s" by simp
  with a x show ?thesis by (cases x) (auto simp: fs_Write_def)
qed

definition file_bytes :: "string list \<Rightarrow> fs \<Rightarrow> byte list" where
  "file_bytes f s = (case tree s f of Some (File b) \<Rightarrow> b | _ \<Rightarrow> [])"

interpretation to_file: copier conn_read conn_avail conn_fin conn_meas "fs_Write f" "file_bytes f" for f
proof
  fix w bs w'
  obtain x w1 where x: "fs_sys w = (x, w1)" by (cases "fs_sys w")
  then have t: "tree w1 = tree w" by simp
  show "fs_Write f w bs = (None, w') \<Longrightarrow> file_bytes f w' = file_bytes f w @ bs"
    using x t by (cases x) (auto simp: fs_Write_def file_bytes_def)
  fix e
  have "fs_Write f w bs = (Some e, w') \<Longrightarrow> file_bytes f w' = file_bytes f w"
    using x t by (cases x) (auto simp: fs_Write_def file_bytes_def)
  then show "fs_Write f w bs = (Some e, w') \<Longrightarrow> \<exists>p q. bs = p @ q \<and> file_bytes f w' = file_bytes f w @ p" by auto
qed

text \<open>The file gets a prefix of what the reader has, all of it when the copy succeeds; nothing else changes.\<close>

lemma copy_to_file_spec:
  assumes "tree s f = Some (File [])"
  shows "\<exists>e s' p q. copy_to_file f r s = Some (e, s') \<and> (\<forall>p. p \<noteq> f \<longrightarrow> tree s' p = tree s p)
    \<and> tree s' f = Some (File p) \<and> conn_avail r = p @ q \<and> (e = None \<longrightarrow> conn_fin r = LibE EOF \<and> p = conn_avail r)"
proof -
  let ?P = "\<lambda>s'. (\<forall>p. p \<noteq> f \<longrightarrow> tree s' p = tree s p) \<and> (\<exists>b. tree s' f = Some (File b))"
  have st: "?P w \<Longrightarrow> ?P (snd (fs_Write f w bs))" for w bs
    using fs_Write_tree [of f w bs "fst (fs_Write f w bs)" "snd (fs_Write f w bs)"] by auto
  have "\<exists>n err r' s1. io_Copy conn_read (fs_Write f) r s = Some (n, err, r', s1) \<and> ?P s1"
    by (rule conn.Copy_writer [where P = ?P, OF st]) (use assms in auto)
  then obtain n err r' s1 where c: "io_Copy conn_read (fs_Write f) r s = Some (n, err, r', s1)" and P: "?P s1"
    by (elim exE conjE) blast
  from to_file.Copy_spec [of f r s] c obtain p q where q: "conn_avail r = p @ q" "file_bytes f s1 = file_bytes f s @ p"
      "err = None \<longrightarrow> conn_fin r = LibE EOF \<and> file_bytes f s1 = file_bytes f s @ conn_avail r" by auto
  obtain ce s2 where ce: "fs_Close s1 = (ce, s2)" by (cases "fs_Close s1")
  then have t: "tree s2 = tree s1" by (simp add: fs_Close_def)
  have "tree s1 f = Some (File p)" using P q(2) assms by (auto simp: file_bytes_def)
  moreover have "\<exists>e. copy_to_file f r s = Some (e, s2) \<and> (e = None \<longrightarrow> err = None)"
    using c ce by (cases err) (simp_all add: copy_to_file_def)
  ultimately obtain e where "tree s1 f = Some (File p)" "copy_to_file f r s = Some (e, s2)" "e = None \<longrightarrow> err = None"
    by blast
  with t P q assms show ?thesis
    by (intro exI [of _ e] exI [of _ s2] exI [of _ p] exI [of _ q]) (simp add: file_bytes_def)
qed

text \<open>What differs between two trees: new directories on the way from \<open>m\<close> along \<open>ns\<close>, and the file at its end.\<close>

definition writes_below :: "tree \<Rightarrow> tree \<Rightarrow> string list \<Rightarrow> string list \<Rightarrow> bool" where
  "writes_below t t' m ns \<longleftrightarrow>
     (\<forall>p. t' p = t p \<or> t p = None \<and> t' p = Some Dir \<and> (\<exists>q r. butlast ns = q @ r \<and> q \<noteq> [] \<and> p = m @ q)
        \<or> p = m @ ns \<and> (t p = None \<or> (\<exists>b. t p = Some (File b))) \<and> (\<exists>b. t' p = Some (File b)))"

lemma new_dirs_writes: "new_dirs t t' m (butlast ns) \<Longrightarrow> writes_below t t' m ns"
  unfolding new_dirs_def writes_below_def by blast

lemma open_target_spec:
  assumes "open_target fp (render True cs) s = (r, s')" and "names cs" and "resolve (tree s) cs = Inr loc"
  shows "case r of Inl e \<Rightarrow> tree s' = tree s
    | Inr f \<Rightarrow> f = loc \<and> tree s' = (tree s)(loc \<mapsto> File []) \<and> node_at (tree s) loc \<noteq> Some Dir"
proof -
  obtain x s1 where L: "fs_Lstat (render True cs) s = (x, s1)" by (cases "fs_Lstat (render True cs) s")
  then have t1: "tree s1 = tree s" by simp
  obtain y s2 where o: "fs_OpenTrunc (render True cs) s1 = (y, s2)" by (cases "fs_OpenTrunc (render True cs) s1")
  obtain z s3 where z: "fs_sys s1 = (z, s3)" by (cases "fs_sys s1")
  then have t3: "tree s3 = tree s1" by simp
  have "case y of Inl e \<Rightarrow> tree s2 = tree s
    | Inr f \<Rightarrow> f = loc \<and> tree s2 = (tree s)(loc \<mapsto> File []) \<and> node_at (tree s) loc \<noteq> Some Dir"
    using o [unfolded fs_OpenTrunc_def render_facts(3) [OF assms(2)]] z t3 t1
    by (cases z) (auto simp: assms(3) split: option.splits node.splits)
  moreover have "r = (case y of Inl e \<Rightarrow> Inl (Wrap ''failed to open file for writing'' e) | Inr f \<Rightarrow> Inr f) \<and> s' = s2
      \<or> (\<exists>e. r = Inl e) \<and> s' = s1"
    using assms(1) [unfolded open_target_def L prod.case] o by (cases x; cases y) (simp_all split: if_splits, blast+)
  ultimately show ?thesis using t1 by (cases y) auto
qed

lemma dirs_from_other:
  "dirs_from t m ds \<Longrightarrow> \<forall>p. p \<noteq> m @ ds @ [n] \<longrightarrow> t' p = t p \<Longrightarrow> dirs_from t' m ds"
  by (induction ds arbitrary: m) auto

lemma write_file_spec:
  assumes mp: "mp \<noteq> ''''" and wd: "\<And>w. wd = Inr w \<Longrightarrow> IsAbs w" and ab: "path_Abs wd mp = Inr (render True M)" and M: "names M"
    and res: "resolve (tree s) M = Inr m" and dir: "node_at (tree s) m = Some Dir" and ok: "tree_ok (tree s)" and hon: "honest s"
  shows "\<exists>e s'. write_file wd mp fp r s = Some (e, s') \<and>
    (tree s' = tree s \<and> e \<noteq> None
     \<or> (\<exists>ns. ns \<noteq> [] \<and> names ns \<and> safeDrivePath wd mp fp = Inr (render True (M @ ns)) \<and> writes_below (tree s) (tree s') m ns
          \<and> (e = None \<longrightarrow> tree s' (m @ ns) = Some (File (conn_avail r)) \<and> conn_fin r = LibE EOF
               \<and> dirs_from (tree s') m (butlast ns))))"
proof -
  obtain x s1 where pc: "pathCheck wd mp fp True s = (x, s1)" by (cases "pathCheck wd mp fp True s")
  show ?thesis
  proof (cases x)
    case (Inl e)
    with pc pathCheck_tree [OF pc] show ?thesis by (simp add: write_file_def)
  next
    case x: (Inr target)
    have "\<exists>ns. target = render True (M @ ns) \<and> safeDrivePath wd mp fp = Inr target \<and> names (M @ ns)
      \<and> no_links (tree s) m ns \<and> tree s1 = tree s \<and> honest s1
      \<and> (\<not> True \<longrightarrow> ns \<noteq> [] \<longrightarrow> dirs_from (tree s) m (butlast ns) \<and> tree s (m @ ns) \<noteq> None)"
      by (rule pathCheck_spec [OF pc [unfolded x] mp wd ab M res dir ok hon])
    then obtain ns where t: "target = render True (M @ ns)" and sd: "safeDrivePath wd mp fp = Inr target"
      and names: "names (M @ ns)" and nl: "no_links (tree s) m ns" and t1: "tree s1 = tree s" and h1: "honest s1"
      by (elim exE conjE)
    obtain e2 s2 where mk: "fs_MkdirAll (path_Dir target) s1 = (e2, s2)" by (cases "fs_MkdirAll (path_Dir target) s1")
    obtain e3 s3 where n3: "noSymLinks wd mp (path_Dir target) False s2 = (e3, s3)"
      by (cases "noSymLinks wd mp (path_Dir target) False s2")
    note t3 = noSymLinks_tree [OF n3]
    obtain y s4 where op: "open_target fp target s3 = (y, s4)" by (cases "open_target fp target s3")
    have w: "write_file wd mp fp r s = (case e2 of Some e \<Rightarrow> Some (Some (Wrap ''failed to create directory'' e), s2)
         | None \<Rightarrow> (case e3 of Some e \<Rightarrow> Some (Some e, s3)
         | None \<Rightarrow> (case y of Inl e \<Rightarrow> Some (Some e, s4) | Inr f \<Rightarrow> copy_to_file f r s4)))"
      using pc x mk n3 op by (simp add: write_file_def split: option.splits)
    show ?thesis
    proof (cases "ns = []")
      case True
      have "tree s2 = tree s1"
      proof -
        have "\<exists>M0 M1. path_Dir target = render True M0 \<and> names M0 \<and> M = M0 @ M1"
        proof (cases M rule: rev_cases)
          case Nil
          then have "path_Dir target = render True []" using t True by (simp add: render_def) code_simp
          with Nil show ?thesis by (intro exI [of _ "[]"]) (simp add: names_def)
        next
          case (snoc M0 c)
          with Dir_render [of M0 c] M t True show ?thesis by (intro exI [of _ M0] exI [of _ "[c]"]) auto
        qed
        then obtain M0 M1 where m0: "path_Dir target = render True M0" "names M0" "M = M0 @ M1" by blast
        have "tree (snd (mkdirs 40 [] [] M0 s1)) = tree s1"
          by (rule mkdirs_same [where ys = M1 and m = m]) (use res dir t1 m0 in simp_all)
        with mk m0 render_facts(3) [OF m0(2)] show ?thesis by (simp add: fs_MkdirAll_def)
      qed
      then have t: "tree s2 = tree s" "tree s3 = tree s" using t1 t3 by simp_all
      have "resolve (tree s3) (M @ ns) = Inr m" using res t True by simp
      from open_target_spec [OF op [unfolded \<open>target = render True (M @ ns)\<close>] names this]
      have "\<exists>e. y = Inl e" and "tree s4 = tree s" using dir t by (cases y; auto)+
      then show ?thesis using w t by (auto split: option.splits)
    next
      case False
      then obtain ds n where ns: "ns = ds @ [n]" by (metis rev_exhaust)
      have nm: "names (M @ ds)" "names ((M @ ds) @ [n])" "names ds" "names ns" "names (ds @ [n])" using names ns by simp_all
      have d: "path_Dir target = render True (M @ ds)" using Dir_render [OF nm(2)] t ns by simp
      obtain k where k: "\<And>ys. mkdirs 40 [] [] (M @ ys) s1 = mkdirs k m [] ys s1"
        using mkdirs_walk [of 40 s1 "[]" "[]" M m] res dir t1 by auto
      have run: "mkdirs k m [] ds s1 = (e2, s2)" using mk k [of ds] render_facts(3) [OF nm(1)] by (simp add: fs_MkdirAll_def d)
      have nld: "no_links (tree s1) m ds" using nl ns t1 by (auto simp: no_links_def)
      note md = mkdirs_plain [OF _ _ nm(3) nld run]
      have md: "tree_ok (tree s2)" "new_dirs (tree s) (tree s2) m ds" "e2 = None \<Longrightarrow> dirs_from (tree s2) m ds"
        using md dir ok t1 by auto
      have wb: "writes_below (tree s) (tree s2) m ns" by (rule new_dirs_writes) (use md(2) ns in simp)
      have res2: "resolve (tree s2) M = Inr m" by (rule walk_extends [OF res dir]) (rule new_dirs_old [OF md(2)], assumption)
      have dir2: "node_at (tree s2) m = Some Dir"
        using dir new_dirs_old [OF md(2), of m Dir] by (auto simp: node_at_def split: if_splits)
      note sd' = sd [unfolded t]
      show ?thesis
      proof (cases "e2 = None \<and> e3 = None")
        case False
        have "\<exists>e s'. write_file wd mp fp r s = Some (Some e, s') \<and> tree s' = tree s2"
          using False w t3 by (cases e2; cases e3) auto
        then obtain e s' where "write_file wd mp fp r s = Some (Some e, s')" "tree s' = tree s2" by blast
        with wb \<open>ns \<noteq> []\<close> nm(4) sd' show ?thesis by (intro exI [of _ "Some e"] exI [of _ s']) auto
      next
        case True
        have nolink: "\<forall>l. tree s2 (m @ ds @ [n]) \<noteq> Some (Link l)"
        proof
          fix l
          have "tree s (m @ ds @ [n]) \<noteq> Some (Link l)" using nl ns unfolding no_links_def by (metis append_Nil2 snoc_eq_iff_butlast)
          then show "tree s2 (m @ ds @ [n]) \<noteq> Some (Link l)"
            using md(2) [unfolded new_dirs_def, rule_format, of "m @ ds @ [n]"] by auto
        qed
        have r2: "resolve (tree s3) (M @ ns) = Inr (m @ ns)"
          using resolve_plain [OF res2 dir2 md(3) nm(5) nolink] True t3 ns by simp
        note o = open_target_spec [OF op [unfolded t] names r2]
        show ?thesis
        proof (cases y)
          case (Inl e)
          with w True have "write_file wd mp fp r s = Some (Some e, s4)" by simp
          moreover have "tree s4 = tree s2" using o Inl t3 by simp
          ultimately show ?thesis using wb \<open>ns \<noteq> []\<close> nm(4) sd' by (intro exI [of _ "Some e"] exI [of _ s4]) auto
        next
          case (Inr f)
          have f: "f = m @ ns" "tree s4 = (tree s2)(m @ ns \<mapsto> File [])" using o Inr t3 by simp_all
          then have "tree s4 f = Some (File [])" by simp
          from copy_to_file_spec [OF this, of r] obtain e s' p q where c: "copy_to_file f r s4 = Some (e, s')"
            and oth: "\<And>p. p \<noteq> f \<Longrightarrow> tree s' p = tree s4 p" and fin: "tree s' f = Some (File p)"
            and e: "e = None \<longrightarrow> conn_fin r = LibE EOF \<and> p = conn_avail r" by blast
          have old: "tree s (m @ ns) = None \<or> (\<exists>b. tree s (m @ ns) = Some (File b))"
          proof (cases "tree s (m @ ns)")
            case (Some x)
            then have x: "tree s2 (m @ ns) = Some x" by (rule new_dirs_old [OF md(2)])
            moreover have "tree s2 (m @ ns) \<noteq> Some Dir" using o Inr t3 ns by (simp add: node_at_def)
            ultimately show ?thesis using Some nolink ns by (cases x) auto
          qed simp
          have "writes_below (tree s) (tree s') m ns"
            unfolding writes_below_def
          proof
            fix p'
            show "tree s' p' = tree s p' \<or> tree s p' = None \<and> tree s' p' = Some Dir \<and> (\<exists>q r. butlast ns = q @ r \<and> q \<noteq> [] \<and> p' = m @ q)
                \<or> p' = m @ ns \<and> (tree s p' = None \<or> (\<exists>b. tree s p' = Some (File b))) \<and> (\<exists>b. tree s' p' = Some (File b))"
              using wb [unfolded writes_below_def, rule_format, of p'] oth [of p'] f fin old by (cases "p' = m @ ns") auto
          qed
          moreover have "dirs_from (tree s') m ds"
          proof -
            have "dirs_from (tree s2) m ds" using md(3) True by simp
            moreover have "\<forall>p. p \<noteq> m @ ds @ [n] \<longrightarrow> tree s' p = tree s2 p" using oth f ns by simp
            ultimately show ?thesis by (rule dirs_from_other)
          qed
          ultimately show ?thesis using w True Inr c f fin e \<open>ns \<noteq> []\<close> nm(4) sd' ns
            by (intro exI [of _ e] exI [of _ s']) auto
        qed
      qed
    qed
  qed
qed

text \<open>
  The mount point of a mounted drive is the directory \<open>m\<close> of the file tree: its absolute path leads there, possibly through
  links. The tree is a tree, the working directory is absolute, and no failing system call claims that a file is missing.
\<close>

definition mounted_at :: "string result \<Rightarrow> string \<Rightarrow> fs \<Rightarrow> string list \<Rightarrow> bool" where
  "mounted_at wd mp s m \<longleftrightarrow> mp \<noteq> ''''
     \<and> (\<exists>M. path_Abs wd mp = Inr (render True M) \<and> names M \<and> resolve (tree s) M = Inr m \<and> node_at (tree s) m = Some Dir)
     \<and> tree_ok (tree s) \<and> honest s \<and> (\<forall>w. wd = Inr w \<longrightarrow> IsAbs w)"

lemma write_file_mounted:
  assumes "mounted_at wd mp s m"
  shows "\<exists>M. path_Abs wd mp = Inr (render True M) \<and> names M \<and> resolve (tree s) M = Inr m \<and> node_at (tree s) m = Some Dir
    \<and> (\<exists>e s'. write_file wd mp fp r s = Some (e, s') \<and>
      (tree s' = tree s \<and> e \<noteq> None
       \<or> (\<exists>ns. ns \<noteq> [] \<and> names ns \<and> safeDrivePath wd mp fp = Inr (render True (M @ ns)) \<and> writes_below (tree s) (tree s') m ns
            \<and> (e = None \<longrightarrow> tree s' (m @ ns) = Some (File (conn_avail r)) \<and> conn_fin r = LibE EOF
                 \<and> dirs_from (tree s') m (butlast ns)))))"
proof -
  from assms obtain M where M: "path_Abs wd mp = Inr (render True M)" "names M" "resolve (tree s) M = Inr m" "node_at (tree s) m = Some Dir"
    unfolding mounted_at_def by (elim exE conjE)
  have o: "mp \<noteq> ''''" "tree_ok (tree s)" "honest s" "\<And>w. wd = Inr w \<Longrightarrow> IsAbs w" using assms unfolding mounted_at_def by blast+
  show ?thesis by (intro exI [of _ M] conjI M write_file_spec o(1-3)) (rule o(4), assumption)
qed

lemma io_end_begin [simp]: "io_end (d\<lparr>ioWG := Suc (ioWG d)\<rparr>) = d"
  by (simp add: io_end_def)

lemma WriteToDrive_cases:
  assumes "WriteToDrive fp r d h = x" and "Base_Validate d"
  shows "(\<exists>e. x = Return (Some e, d, h)) \<or>
    mounted d \<and> \<not> unMounting d \<and> fp \<noteq> '''' \<and> \<not> readonly (the (params d)) \<and>
      x = (case write_file (getwd h) (mountPoint d) fp r (files h) of None \<Rightarrow> Blocked | Some (e, s) \<Rightarrow> Return (e, d, h\<lparr>files := s\<rparr>))"
proof -
  obtain p where "params d = Some p" using assms(2) by (auto simp: Base_Validate_def split: option.splits)
  with assms show ?thesis
    by (simp add: WriteToDrive_def write_begin_def split: if_splits) (metis io_end_begin)+
qed

text \<open>
  C21: A write cannot leave the mounted drive. Whatever path and data the caller gives, whatever symbolic links the drive
  contains, and on success as on every failure (of the checks, of making directories, of opening, copying or closing), a call
  of \<open>WriteToDrive\<close> returns, leaves the drive's state as it was, and all that it changes in the file tree is below the
  directory where the drive is mounted: new directories on the way to one place and a regular file at that place, which
  replaces no directory and no link. On success that file holds exactly what the reader had.
\<close>

theorem write_confined:
  assumes "mounted_at (getwd h) (mountPoint d) (files h) m"
  shows "\<exists>e h'. WriteToDrive fp r d h = Return (e, d, h')
    \<and> (tree (files h') = tree (files h) \<and> e \<noteq> None
       \<or> (\<exists>ns. ns \<noteq> [] \<and> names ns \<and> writes_below (tree (files h)) (tree (files h')) m ns
            \<and> (e = None \<longrightarrow> tree (files h') (m @ ns) = Some (File (conn_avail r)) \<and> conn_fin r = LibE EOF)))"
proof (cases "Base_Validate d")
  case False
  then show ?thesis by (auto simp: WriteToDrive_def)
next
  case True
  from WriteToDrive_cases [OF refl True, of fp r h] show ?thesis
  proof (elim disjE exE conjE)
    fix e
    assume "WriteToDrive fp r d h = Return (Some e, d, h)"
    then show ?thesis by blast
  next
    assume w: "WriteToDrive fp r d h = (case write_file (getwd h) (mountPoint d) fp r (files h) of None \<Rightarrow> Blocked
        | Some (e, s) \<Rightarrow> Return (e, d, h\<lparr>files := s\<rparr>))"
    from write_file_mounted [OF assms, of fp r] obtain e s' where wf: "write_file (getwd h) (mountPoint d) fp r (files h) = Some (e, s')"
      and sp: "tree s' = tree (files h) \<and> e \<noteq> None
         \<or> (\<exists>ns. ns \<noteq> [] \<and> names ns \<and> writes_below (tree (files h)) (tree s') m ns
            \<and> (e = None \<longrightarrow> tree s' (m @ ns) = Some (File (conn_avail r)) \<and> conn_fin r = LibE EOF))"
      by (elim exE conjE) blast
    with w have "WriteToDrive fp r d h = Return (e, d, h\<lparr>files := s'\<rparr>)" by simp
    with sp show ?thesis by (intro exI [of _ e] exI [of _ "h\<lparr>files := s'\<rparr>"]) simp
  qed
qed

definition drive_tree :: tree where
  "drive_tree = [[''mnt''] \<mapsto> Dir, [''etc''] \<mapsto> Dir, [''mnt'', ''esc''] \<mapsto> Link ''/etc'', [''etc'', ''passwd''] \<mapsto> File [1]]"

definition drive_host :: host where
  "drive_host =
     \<lparr>files = \<lparr>tree = drive_tree, fsFaults = [], fsReadEnd = (\<lambda>p. LibE EOF)\<rparr>,
      getwd = Inr ''/'', tempDir = ''/tmp'', nextRoll = [], geteuid = 0, lookPath = (\<lambda>n. Inr (''/bin/'' @ n)), replies = [], cmdLog = [],
      mem = (\<lambda>a. []), nextMem = 1, openers = (\<lambda>i. [])\<rparr>"

definition sample_options :: DriveOptions where
  "sample_options = NewDriveOptions ''disk'' False False '''' '''' False 4096 ''ext4'' MountMethodLoop"

definition mounted_drive :: drive where
  "mounted_drive = set_mounted ''/mnt'' (LoopUnmount ''/mnt'' ''/dev/loop0'') (newDrive sample_options ''/d.img'')"

lemma mounted_drive_at: "mounted_at (getwd drive_host) (mountPoint mounted_drive) (files drive_host) [''mnt'']"
proof -
  have m: "path_Abs (getwd drive_host) (mountPoint mounted_drive) = Inr (render True [''mnt''])" by code_simp
  have r: "resolve (tree (files drive_host)) [''mnt''] = Inr [''mnt'']"
    by (simp add: drive_host_def drive_tree_def walk.simps)
  have "tree_ok drive_tree" by (auto simp: tree_ok_def drive_tree_def node_at_def split: if_splits)
  with m r show ?thesis
    unfolding mounted_at_def
    by (intro conjI exI [of _ "[''mnt'']"])
      (auto simp: honest_def drive_host_def IsAbs_def names_def name_ok_def drive_tree_def node_at_def mounted_drive_def set_mounted_def)
qed

text \<open>No operation changes how reading a file ends.\<close>

lemma fs_sys_end: "fsReadEnd (snd (fs_sys s)) = fsReadEnd s"
  by (cases "fsFaults s") (simp_all add: fs_sys_def)

lemma fs_Lstat_end: "fsReadEnd (snd (fs_Lstat p s)) = fsReadEnd s"
  using fs_sys_end [of s] by (cases "fs_sys s"; cases "fst (fs_sys s)") (simp_all add: fs_Lstat_def)

lemma check_segments_end: "check_segments allow mp cur segs s = (e, s') \<Longrightarrow> fsReadEnd s' = fsReadEnd s"
proof (induction segs arbitrary: cur s)
  case (Cons n ns)
  obtain r s1 where L: "fs_Lstat (path_Join [cur, n]) s = (r, s1)" by (cases "fs_Lstat (path_Join [cur, n]) s")
  then have "fsReadEnd s1 = fsReadEnd s" using fs_Lstat_end [of "path_Join [cur, n]" s] by simp
  with Cons L show ?case by (cases r) (auto split: if_splits)
qed simp

lemma noSymLinks_end: "noSymLinks wd mp p allow s = (e, s') \<Longrightarrow> fsReadEnd s' = fsReadEnd s"
  by (auto simp: noSymLinks_def split: sum.splits if_splits dest: check_segments_end)

lemma pathCheck_end: "pathCheck wd mp fp allow s = (r, s') \<Longrightarrow> fsReadEnd s' = fsReadEnd s"
  by (auto simp: pathCheck_def split: sum.splits prod.splits option.splits dest: noSymLinks_end)

lemma mkdirs_end: "fsReadEnd (snd (mkdirs k cur es cs s)) = fsReadEnd s"
proof (induction k cur es cs s rule: mkdirs.induct)
  case (2 k cur e es cs s)
  show ?case
  proof (cases "e \<noteq> ''..'' \<and> (\<exists>target k'. tree s (cur @ [e]) = Some (Link target) \<and> k = Suc k')")
    case True
    then obtain target k' where t: "e \<noteq> ''..''" "tree s (cur @ [e]) = Some (Link target)" "k = Suc k'" by blast
    from 2(3) [OF t(1,2) refl t(3)] t show ?thesis by (simp add: mkdirs.simps)
  next
    case False
    with 2(1,2) show ?thesis by (auto simp: mkdirs.simps split: option.splits node.splits nat.splits)
  qed
next
  case (3 k cur c cs s)
  obtain x s1 where x: "fs_sys s = (x, s1)" by (cases "fs_sys s")
  then have e: "fsReadEnd s1 = fsReadEnd s" using fs_sys_end [of s] by simp
  show ?case
  proof (cases "c \<noteq> ''..'' \<and> (\<exists>target k'. tree s (cur @ [c]) = Some (Link target) \<and> k = Suc k')")
    case True
    then obtain target k' where t: "c \<noteq> ''..''" "tree s (cur @ [c]) = Some (Link target)" "k = Suc k'" by blast
    from 3(4) [OF t(1,2) refl t(3)] t show ?thesis by (simp add: mkdirs.simps)
  next
    case False
    with 3(1,2,3) x e show ?thesis by (cases x) (auto simp: mkdirs.simps split: option.splits node.splits nat.splits)
  qed
qed simp

lemma fs_MkdirAll_end: "fs_MkdirAll p s = (e, s') \<Longrightarrow> fsReadEnd s' = fsReadEnd s"
  using mkdirs_end [of 40 "[]" "[]" "comps p" s] by (simp add: fs_MkdirAll_def)

lemma open_target_end: "open_target fp p s = (r, s') \<Longrightarrow> fsReadEnd s' = fsReadEnd s"
proof -
  assume a: "open_target fp p s = (r, s')"
  obtain x s1 where L: "fs_Lstat p s = (x, s1)" by (cases "fs_Lstat p s")
  obtain y s2 where o: "fs_OpenTrunc p s1 = (y, s2)" by (cases "fs_OpenTrunc p s1")
  obtain z s3 where z: "fs_sys s1 = (z, s3)" by (cases "fs_sys s1")
  have "fsReadEnd s2 = fsReadEnd s1" using o z fs_sys_end [of s1]
    by (cases z) (auto simp: fs_OpenTrunc_def split: if_splits sum.splits option.splits node.splits)
  moreover have "fsReadEnd s1 = fsReadEnd s" using fs_Lstat_end [of p s] L by simp
  moreover have "s' = s1 \<or> s' = s2" using a L o by (cases x; cases y) (auto simp: open_target_def split: if_splits)
  ultimately show ?thesis by auto
qed

lemma copy_runs:
  "fsFaults s = [] \<Longrightarrow>
     \<exists>s'. copy_to_file f ([[1, 2], [3]], LibE EOF) s = Some (None, s') \<and> fsFaults s' = [] \<and> fsReadEnd s' = fsReadEnd s"
  by (simp add: copy_to_file_def io_Copy_def copy_loop.simps fs_Write_def fs_sys_def fs_Close_def)

lemma write_runs:
  "\<exists>h'. WriteToDrive ''/a/b'' ([[1, 2], [3]], LibE EOF) mounted_drive drive_host = Return (None, mounted_drive, h')
     \<and> fsFaults (files h') = [] \<and> fsReadEnd (files h') = (\<lambda>p. LibE EOF)"
proof -
  let ?r = "([[1, 2], [3]], LibE EOF) :: conn"
  have m: "mountPoint mounted_drive = ''/mnt''" "getwd drive_host = Inr ''/''"  "mounted mounted_drive" "\<not> unMounting mounted_drive"
     "Base_Validate mounted_drive" "\<not> readonly sample_options" "FSType sample_options \<noteq> ''squashfs''" by code_simp+
  have p: "params mounted_drive = Some sample_options" by (simp add: mounted_drive_def set_mounted_def newDrive_def)
  let ?p = "pathCheck (Inr ''/'') ''/mnt'' ''/a/b'' True (files drive_host)"
  let ?k = "fs_MkdirAll (path_Dir ''/mnt/a/b'') (snd ?p)"
  let ?n = "noSymLinks (Inr ''/'') ''/mnt'' (path_Dir ''/mnt/a/b'') False (snd ?k)"
  let ?o = "open_target ''/a/b'' ''/mnt/a/b'' (snd ?n)"
  have r: "fst ?p = Inr ''/mnt/a/b''" "fst ?k = None" "fst ?n = None" "fst ?o = Inr [''mnt'', ''a'', ''b'']" "fsFaults (snd ?o) = []"
    by code_simp+
  obtain s1 s2 s3 s4 where s: "?p = (Inr ''/mnt/a/b'', s1)" "fs_MkdirAll (path_Dir ''/mnt/a/b'') s1 = (None, s2)"
      "noSymLinks (Inr ''/'') ''/mnt'' (path_Dir ''/mnt/a/b'') False s2 = (None, s3)"
      "open_target ''/a/b'' ''/mnt/a/b'' s3 = (Inr [''mnt'', ''a'', ''b''], s4)" "fsFaults s4 = []"
    using r by (metis prod.collapse)
  have e: "fsReadEnd s4 = fsReadEnd (files drive_host)"
    using pathCheck_end [OF s(1)] fs_MkdirAll_end [OF s(2)] noSymLinks_end [OF s(3)] open_target_end [OF s(4)] by simp
  obtain s' where c: "copy_to_file [''mnt'', ''a'', ''b''] ?r s4 = Some (None, s')" "fsFaults s' = []" "fsReadEnd s' = fsReadEnd s4"
    using copy_runs [OF s(5)] by blast
  have "write_file (Inr ''/'') ''/mnt'' ''/a/b'' ?r (files drive_host) = Some (None, s')"
    unfolding write_file_def s(1) sum.case prod.case s(2-4) option.case c(1) ..
  with m p have "WriteToDrive ''/a/b'' ?r mounted_drive drive_host = Return (None, mounted_drive, drive_host\<lparr>files := s'\<rparr>)"
    by (simp add: WriteToDrive_def write_begin_def)
  with c e show ?thesis by (intro exI [of _ "drive_host\<lparr>files := s'\<rparr>"]) (simp add: drive_host_def)
qed

theorem write_confined_witness:
  "\<exists>h' ns. WriteToDrive ''/a/b'' ([[1, 2], [3]], LibE EOF) mounted_drive drive_host = Return (None, mounted_drive, h')
     \<and> ns \<noteq> [] \<and> writes_below (tree (files drive_host)) (tree (files h')) [''mnt''] ns
     \<and> tree (files h') ([''mnt''] @ ns) = Some (File [1, 2, 3])"
proof -
  obtain h' where w: "WriteToDrive ''/a/b'' ([[1, 2], [3]], LibE EOF) mounted_drive drive_host = Return (None, mounted_drive, h')"
    using write_runs by blast
  from write_confined [OF mounted_drive_at, of "''/a/b''" "([[1, 2], [3]], LibE EOF)"] w
  obtain ns where "ns \<noteq> []" "writes_below (tree (files drive_host)) (tree (files h')) [''mnt''] ns"
    "tree (files h') ([''mnt''] @ ns) = Some (File [1, 2, 3])" by auto
  with w show ?thesis by blast
qed

lemma writes_below_resolve:
  "writes_below t t' m ns \<Longrightarrow> resolve t M = Inr m \<Longrightarrow> node_at t m = Some Dir \<Longrightarrow> resolve t' M = Inr m \<and> node_at t' m = Some Dir"
proof
  assume w: "writes_below t t' m ns" and r: "resolve t M = Inr m" and d: "node_at t m = Some Dir"
  have keep: "t' p = Some x" if "t p = Some x" "\<forall>b. x \<noteq> File b" for p x
    using w [unfolded writes_below_def, rule_format, of p] that by auto
  show "resolve t' M = Inr m" by (rule walk_extends [OF r d]) (rule keep)
  show "node_at t' m = Some Dir" using d keep [of m Dir] by (auto simp: node_at_def split: if_splits)
qed

text \<open>
  C23: A written file reads back. After a successful write, on a machine whose disk then works, \<open>LoadFromDrive\<close> of the same path
  returns exactly the bytes the reader had and changes nothing.
\<close>

theorem write_then_load:
  assumes "mounted_at (getwd h) (mountPoint d) (files h) m"
    and "WriteToDrive fp r d h = Return (None, d', h')"
    and "fsFaults (files h') = []" and "fsReadEnd (files h') = (\<lambda>p. LibE EOF)"
  shows "LoadFromDrive fp d' h' = (Inr (conn_avail r), d', h')"
proof -
  have v: "Base_Validate d" using assms(2) by (auto simp: WriteToDrive_def split: if_splits)
  from write_file_mounted [OF assms(1), of fp r] obtain M e s' where
      M: "path_Abs (getwd h) (mountPoint d) = Inr (render True M)" "names M" "resolve (tree (files h)) M = Inr m"
        "node_at (tree (files h)) m = Some Dir"
    and wf: "write_file (getwd h) (mountPoint d) fp r (files h) = Some (e, s')"
    and sp: "tree s' = tree (files h) \<and> e \<noteq> None
       \<or> (\<exists>ns. ns \<noteq> [] \<and> names ns \<and> safeDrivePath (getwd h) (mountPoint d) fp = Inr (render True (M @ ns))
            \<and> writes_below (tree (files h)) (tree s') m ns
            \<and> (e = None \<longrightarrow> tree s' (m @ ns) = Some (File (conn_avail r)) \<and> conn_fin r = LibE EOF
                 \<and> dirs_from (tree s') m (butlast ns)))" by (elim exE conjE)
  from WriteToDrive_cases [OF assms(2) v] wf have e: "e = None" "d' = d" "h' = h\<lparr>files := s'\<rparr>"
    and d: "mounted d" "\<not> unMounting d" "fp \<noteq> ''''" by auto
  from sp e obtain ns where ns: "ns \<noteq> []" "names ns" "safeDrivePath (getwd h) (mountPoint d) fp = Inr (render True (M @ ns))"
      "writes_below (tree (files h)) (tree s') m ns" "tree s' (m @ ns) = Some (File (conn_avail r))"
      "dirs_from (tree s') m (butlast ns)" by blast
  note r' = writes_below_resolve [OF ns(4) M(3,4)]
  have f: "fsFaults s' = []" "fsReadEnd s' (m @ ns) = LibE EOF" using assms(3,4) e by simp_all
  have nm: "names (M @ ns)" using M(2) ns(2) by simp
  have pc: "pathCheck (getwd h) (mountPoint d) fp False s' = (Inr (render True (M @ ns)), s')"
    by (rule pathCheck_pass [OF ns(3) M(1) nm _ _ f(1) ns(6,1,5)]) (use r' in simp_all)
  obtain ds n where dn: "ns = ds @ [n]" using ns(1) by (metis rev_exhaust)
  have "resolve (tree s') (M @ ds @ [n]) = Inr (m @ ds @ [n])"
    by (rule resolve_plain) (use r' ns dn in auto)
  then have "fs_ReadFile (render True (M @ ns)) s' = (Inr (conn_avail r), s')"
    using ns(1,5) f dn render_facts(3) [OF nm] by (auto simp: fs_ReadFile_def fs_Open_def fs_sys_healthy node_at_def)
  with pc have "load_file (getwd h) (mountPoint d) fp s' = (Inr (conn_avail r), s')" by (simp add: load_file_def)
  with e d v show ?thesis by (simp add: LoadFromDrive_def load_begin_def on_fs_def)
qed

theorem write_then_load_witness:
  "\<exists>h'. WriteToDrive ''/a/b'' ([[1, 2], [3]], LibE EOF) mounted_drive drive_host = Return (None, mounted_drive, h')
     \<and> LoadFromDrive ''/a/b'' mounted_drive h' = (Inr [1, 2, 3], mounted_drive, h')"
proof -
  obtain h' where w: "WriteToDrive ''/a/b'' ([[1, 2], [3]], LibE EOF) mounted_drive drive_host = Return (None, mounted_drive, h')"
    "fsFaults (files h') = []" "fsReadEnd (files h') = (\<lambda>p. LibE EOF)" using write_runs by blast
  from write_then_load [OF mounted_drive_at w] w(1) show ?thesis by auto
qed

end
