(* ===== verification/Drive_Key.thy ===== *)
theory Drive_Key
  imports Go_Host Go_Hash
begin

text \<open>
  \<^verbatim>\<open>drive/key.go\<close>: the sources of key material. The bytes of an \<open>InMemoryKey\<close> are an array of the machine's memory,
  so that wiping them can be stated; the interface \<open>Key\<close> is the datatype \<open>key\<close> with one constructor for each implementation,
  and a key that is used or destroyed is returned in its new state. The callback of \<open>WithReader\<close> receives the reader (its
  bytes and its end) and whether Go copies it into a command itself, which it does for every reader but an
  \<^verbatim>\<open>os.File\<close>.
\<close>

section \<open>Keys\<close>

datatype key =
    InMemoryKey "nat option"
  | ReaderKey "nat option"
  | FileKey string
  | CommandKey string "string list"
  | OneShotKey bool "key option"

type_synonym key_user = "bool \<times> conn \<Rightarrow> host \<Rightarrow> error option \<times> host"

definition unusable :: "string \<Rightarrow> error" where
  "unusable s = Wrap s (DriveE ErrInvalidParameter)"

text \<open>\<open>make\<close> and \<open>copy\<close>: the key owns its own array.\<close>

definition NewInMemoryKey :: "byte list \<Rightarrow> host \<Rightarrow> key \<times> host" where
  "NewInMemoryKey bs h =
     (InMemoryKey (Some (nextMem h)), h\<lparr>mem := (mem h)(nextMem h := bs), nextMem := Suc (nextMem h)\<rparr>)"

definition zeroed :: "nat \<Rightarrow> host \<Rightarrow> host" where
  "zeroed a h = h\<lparr>mem := (mem h)(a := replicate (length (mem h a)) 0)\<rparr>"

definition InMemoryKey_Destroy :: "nat option \<Rightarrow> host \<Rightarrow> key \<times> host" where
  "InMemoryKey_Destroy data h = (InMemoryKey None, case data of None \<Rightarrow> h | Some a \<Rightarrow> zeroed a h)"

fun Destroy :: "key \<Rightarrow> host \<Rightarrow> key \<times> host" where
  "Destroy (InMemoryKey data) h = InMemoryKey_Destroy data h"
| "Destroy (ReaderKey op) h = (ReaderKey op, h)"
| "Destroy (FileKey path) h = (FileKey path, h)"
| "Destroy (CommandKey name args) h = (CommandKey name args, h)"
| "Destroy (OneShotKey used k) h =
     (OneShotKey True None, case k of None \<Rightarrow> h | Some k' \<Rightarrow> snd (Destroy k' h))"

definition InMemoryKey_WithReader :: "key_user \<Rightarrow> nat option \<Rightarrow> host \<Rightarrow> error option \<times> host" where
  "InMemoryKey_WithReader fn data h =
     (case data of
        None \<Rightarrow> (Some (unusable ''key material unavailable''), h)
      | Some a \<Rightarrow>
          if mem h a = [] then (Some (unusable ''key material unavailable''), h)
          else fn (True, [mem h a], LibE EOF) h)"

definition ReaderKey_WithReader :: "key_user \<Rightarrow> nat option \<Rightarrow> host \<Rightarrow> error option \<times> host" where
  "ReaderKey_WithReader fn op h =
     (case op of
        None \<Rightarrow> (Some (unusable ''key reader unavailable''), h)
      | Some i \<Rightarrow>
          (case openers h i of
             [] \<Rightarrow> (Some (External 0), h)
           | Inl e # os \<Rightarrow> (Some e, h\<lparr>openers := (openers h)(i := os)\<rparr>)
           | Inr rc # os \<Rightarrow> fn (True, rc) (h\<lparr>openers := (openers h)(i := os)\<rparr>)))"

definition FileKey_WithReader :: "key_user \<Rightarrow> string \<Rightarrow> host \<Rightarrow> error option \<times> host" where
  "FileKey_WithReader fn path h =
     (if path = '''' then (Some (unusable ''key file path is required''), h)
      else (case on_fs (fs_Open (abs_path h path)) h of
              (Inl e, h1) \<Rightarrow> (Some e, h1)
            | (Inr f, h1) \<Rightarrow> fn (False, f) h1))"

text \<open>The command runs while \<open>fn\<close> reads its output; its own exit status counts when \<open>fn\<close> succeeded.\<close>

definition CommandKey_WithReader :: "key_user \<Rightarrow> string \<Rightarrow> string list \<Rightarrow> host \<Rightarrow> error option \<times> host" where
  "CommandKey_WithReader fn name args h =
     (if name = '''' then (Some (unusable ''key command is required''), h)
      else (case next_reply h of
              (r, h1) \<Rightarrow>
                (case startErr r of
                   Some e \<Rightarrow> (Some e, h1\<lparr>cmdLog := cmdLog h1 @ [\<lparr>argv = name # args, stdin = [], failed = True\<rparr>]\<rparr>)
                 | None \<Rightarrow>
                     (case fn (False, [stdoutOf r], LibE EOF)
                        (h1\<lparr>cmdLog := cmdLog h1 @ [\<lparr>argv = name # args, stdin = [], failed = exitErr r \<noteq> None\<rparr>],
                            files := (files h1)\<lparr>tree := effect r (tree (files h1))\<rparr>\<rparr>) of
                        (Some e, h2) \<Rightarrow> (Some e, h2)
                      | (None, h2) \<Rightarrow> (exitErr r, h2)))))"

fun WithReader :: "key_user \<Rightarrow> key \<Rightarrow> host \<Rightarrow> error option \<times> key \<times> host" where
  "WithReader fn (InMemoryKey data) h = (case InMemoryKey_WithReader fn data h of (e, h1) \<Rightarrow> (e, InMemoryKey data, h1))"
| "WithReader fn (ReaderKey op) h = (case ReaderKey_WithReader fn op h of (e, h1) \<Rightarrow> (e, ReaderKey op, h1))"
| "WithReader fn (FileKey path) h = (case FileKey_WithReader fn path h of (e, h1) \<Rightarrow> (e, FileKey path, h1))"
| "WithReader fn (CommandKey name args) h =
     (case CommandKey_WithReader fn name args h of (e, h1) \<Rightarrow> (e, CommandKey name args, h1))"
| "WithReader fn (OneShotKey used k) h =
     (if used then (Some (unusable ''one-shot key already consumed''), OneShotKey used k, h)
      else (case k of
              None \<Rightarrow> (Some (unusable ''one-shot key is nil''), OneShotKey used k, h)
            | Some inner \<Rightarrow>
                (case WithReader fn inner h of
                   (err, inner', h1) \<Rightarrow> (err, OneShotKey True None, snd (Destroy inner' h1)))))"

definition NewOneShotKey :: "key option \<Rightarrow> key" where
  "NewOneShotKey k = OneShotKey False k"

text \<open>The passphrase is the array at \<open>a\<close>, which is wiped.\<close>

definition NewSHA256PassphraseKey :: "nat \<Rightarrow> host \<Rightarrow> key result \<times> host" where
  "NewSHA256PassphraseKey a h =
     (if mem h a = [] then (Inl (unusable ''passphrase cannot be empty''), h)
      else (case NewInMemoryKey (sha256_Sum (mem h a)) h of (k, h1) \<Rightarrow> (Inr k, zeroed a h1)))"

section \<open>Wiping\<close>

text \<open>The arrays a key holds.\<close>

fun key_arrays :: "key \<Rightarrow> nat set" where
  "key_arrays (InMemoryKey (Some a)) = {a}"
| "key_arrays (OneShotKey used (Some k)) = key_arrays k"
| "key_arrays _ = {}"

lemma Destroy_mem:
  "Destroy k h = (k', h') \<Longrightarrow>
     key_arrays k' = {} \<and> (\<forall>a. mem h' a = (if a \<in> key_arrays k then replicate (length (mem h a)) 0 else mem h a))"
  by (induction k arbitrary: k' h')
    (auto simp: InMemoryKey_Destroy_def zeroed_def split: option.splits, (metis prod.collapse)+)

lemma zeroed_mem: "mem (zeroed a h) b = (if b = a then replicate (length (mem h a)) 0 else mem h b)"
  by (simp add: zeroed_def)

lemma WithReader_arrays:
  "WithReader fn k h = (e, k', h') \<Longrightarrow> a \<in> key_arrays k \<Longrightarrow> a \<in> key_arrays k' \<or> set (mem h' a) \<subseteq> {0}"
proof (induction k arbitrary: e k' h')
  case (OneShotKey used k)
  then obtain inner where k: "k = Some inner" by (cases k) auto
  obtain e1 i h1 where w: "WithReader fn inner h = (e1, i, h1)" by (cases "WithReader fn inner h")
  obtain d h2 where d: "Destroy i h1 = (d, h2)" by (cases "Destroy i h1")
  have "a \<in> key_arrays i \<or> set (mem h1 a) \<subseteq> {0}" using OneShotKey.IH [of inner e1 i h1] OneShotKey.prems(2) k w by simp
  then have "set (mem h2 a) \<subseteq> {0}" using Destroy_mem [OF d] by auto
  with OneShotKey.prems k w d show ?case by (auto split: if_splits)
qed (auto split: prod.splits)

text \<open>
  C29: A one-shot key delivers its material at most once. After one use, whatever the reader of the key did and whether it
  succeeded, every byte array of the key inside has been wiped, the key holds no array any more, and every further use fails
  without calling the reader and without touching the machine.
\<close>

theorem one_shot_used_once:
  assumes "WithReader fn (NewOneShotKey (Some inner)) h = (e, k', h')"
  shows "(\<forall>a \<in> key_arrays inner. set (mem h' a) \<subseteq> {0}) \<and> key_arrays k' = {}
    \<and> (\<forall>fn' h1. WithReader fn' k' h1 = (Some (unusable ''one-shot key already consumed''), k', h1))"
proof -
  obtain e1 i h1 where w: "WithReader fn inner h = (e1, i, h1)" by (cases "WithReader fn inner h")
  obtain d h2 where d: "Destroy i h1 = (d, h2)" by (cases "Destroy i h1")
  have r: "k' = OneShotKey True None" "h' = h2" using assms w d by (auto simp: NewOneShotKey_def)
  have "set (mem h2 a) \<subseteq> {0}" if "a \<in> key_arrays inner" for a
    using WithReader_arrays [OF w that] Destroy_mem [OF d] by auto
  with r show ?thesis by simp
qed

definition sample_host :: host where
  "sample_host =
     \<lparr>files = \<lparr>tree = (\<lambda>p. None), fsFaults = [], fsReadEnd = (\<lambda>p. LibE EOF)\<rparr>, getwd = Inr ''/'', tempDir = ''/tmp'',
      nextRoll = [], geteuid = 0, lookPath = (\<lambda>n. Inr n), replies = [], cmdLog = [],
      mem = (\<lambda>a. if a = 0 then [7, 8, 9] else []), nextMem = 1, openers = (\<lambda>i. [])\<rparr>"

theorem one_shot_used_once_witness:
  "\<exists>h'. WithReader (\<lambda>r h. (None, h)) (NewOneShotKey (Some (InMemoryKey (Some 0)))) sample_host = (None, OneShotKey True None, h')
     \<and> set (mem h' 0) \<subseteq> {0}
     \<and> WithReader (\<lambda>r h. (None, h)) (OneShotKey True None) h' =
         (Some (unusable ''one-shot key already consumed''), OneShotKey True None, h')"
proof -
  let ?h' = "snd (snd (WithReader (\<lambda>r h. (None, h)) (NewOneShotKey (Some (InMemoryKey (Some 0)))) sample_host))"
  have r: "WithReader (\<lambda>r h. (None, h)) (NewOneShotKey (Some (InMemoryKey (Some 0)))) sample_host = (None, OneShotKey True None, ?h')"
    by (simp add: NewOneShotKey_def InMemoryKey_WithReader_def sample_host_def)
  from one_shot_used_once [OF r] r show ?thesis by (intro exI [of _ ?h']) simp
qed

text \<open>
  A passphrase key delivers the SHA-256 sum of the passphrase, through the whole reader and nothing else, and the
  caller's passphrase bytes are wiped; no other array that existed before is touched.
\<close>

theorem passphrase_key:
  assumes "NewSHA256PassphraseKey a h = (Inr k, h')" and "a < nextMem h"
  shows "(\<forall>fn. WithReader fn k h' = (case fn (True, [sha256_Sum (mem h a)], LibE EOF) h' of (e, h1) \<Rightarrow> (e, k, h1)))
    \<and> length (sha256_Sum (mem h a)) = 32
    \<and> mem h' a = replicate (length (mem h a)) 0
    \<and> (\<forall>b < nextMem h. b \<noteq> a \<longrightarrow> mem h' b = mem h b)"
proof -
  have k: "mem h a \<noteq> []" "k = InMemoryKey (Some (nextMem h))"
    "h' = zeroed a (h\<lparr>mem := (mem h)(nextMem h := sha256_Sum (mem h a)), nextMem := Suc (nextMem h)\<rparr>)"
    using assms(1) by (auto simp: NewSHA256PassphraseKey_def NewInMemoryKey_def split: if_splits)
  have "sha256_Sum (mem h a) \<noteq> []" using length_sha256 [of "mem h a"] by fastforce
  with k assms(2) show ?thesis by (auto simp: InMemoryKey_WithReader_def zeroed_def)
qed

theorem passphrase_key_witness:
  "\<exists>k h'. NewSHA256PassphraseKey 0 sample_host = (Inr k, h') \<and> mem h' 0 = [0, 0, 0]
     \<and> WithReader (\<lambda>r h. (Some (External (length (concat (fst (snd r))))), h)) k h' = (Some (External 32), k, h')"
proof -
  obtain k h' where r: "NewSHA256PassphraseKey 0 sample_host = (Inr k, h')"
    by (simp add: NewSHA256PassphraseKey_def NewInMemoryKey_def sample_host_def)
  have a: "0 < nextMem sample_host" "mem sample_host 0 = [7, 8, 9]" by (simp_all add: sample_host_def)
  show ?thesis using passphrase_key [OF r a(1)] r a by (intro exI [of _ k] exI [of _ h']) (simp add: numeral_eq_Suc)
qed

end
