(* ===== verification/Encrypted_Drive.thy ===== *)
theory Encrypted_Drive
  imports Base_Drive Drive_Key
begin

text \<open>
  \<^verbatim>\<open>drive/encrypted_drive.go\<close>: a drive in a LUKS container. It has the fields of a drive and a key; its unmounting,
  deleting, reading and writing are the code of the plain drive again and use the same pieces, its mounting runs
  \<^verbatim>\<open>cryptsetup\<close> with the key on its standard input. A nil key or nil options are dereferenced as in the code: \<open>Panic\<close>.
\<close>

section \<open>State\<close>

record encrypted_drive = drive +
  key :: "key option"

definition Enc_Validate :: "encrypted_drive \<Rightarrow> bool" where
  "Enc_Validate d \<longleftrightarrow>
     (case params d of
        None \<Rightarrow> False
      | Some p \<Rightarrow>
          if \<not> Options_Validate p then False
          else if imagePath d = '''' \<or> key d = None then False
          else FSType p = ''ext4'')"

definition Enc_Parameters :: "encrypted_drive \<Rightarrow> DriveOptions option" where
  "Enc_Parameters d = Clone (params d)"

definition newEncryptedDrive :: "DriveOptions \<Rightarrow> string \<Rightarrow> key \<Rightarrow> encrypted_drive" where
  "newEncryptedDrive p path k =
     \<lparr>params = Some p, imagePath = path, mounted = False, mountPoint = '''', unmountFunc = None, ioWG = 0, unMounting = False,
      key = Some k\<rparr>"

text \<open>The options of the drive: the caller's, or ones made from an existing image.\<close>

definition encrypted_params :: "DriveOptions option \<Rightarrow> string \<Rightarrow> host \<Rightarrow> DriveOptions result \<times> host" where
  "encrypted_params options absImagePath h =
     (case Clone options of
        Some p \<Rightarrow> (Inr p, h)
      | None \<Rightarrow>
          (case on_fs (fs_Stat absImagePath) h of
             (Inl e, h1) \<Rightarrow> (Inl (Wrap ''options are required to create a new encrypted drive image'' (DriveE ErrInvalidParameter)), h1)
           | (Inr (isDir, len), h1) \<Rightarrow>
               (Inr (NewDriveOptions (deriveDriveIDFromPath absImagePath) False False '''' '''' False (of_nat len) ''ext4''
                  MountMethodLoop), h1)))"

definition EncryptedDriveFromImage ::
  "string \<Rightarrow> key option \<Rightarrow> DriveOptions option \<Rightarrow> host \<Rightarrow> encrypted_drive result \<times> host" where
  "EncryptedDriveFromImage path ko options h =
     (if path = '''' then (Inl (Wrap ''image path cannot be empty'' (DriveE ErrInvalidParameter)), h)
      else
        (case ko of
           None \<Rightarrow> (Inl (Wrap ''key cannot be nil'' (DriveE ErrInvalidParameter)), h)
         | Some k \<Rightarrow>
             (case path_Abs (getwd h) path of
                Inl e \<Rightarrow> (Inl (Wrap ''failed to resolve image path'' (DriveE ErrInvalidParameter)), h)
              | Inr absImagePath \<Rightarrow>
                  if_ok (encrypted_params options absImagePath h) (\<lambda>p h1.
                    if FSType p \<noteq> ''ext4''
                    then (Inl (Wrap ''encrypted drive currently supports ext4 only'' (DriveE ErrInvalidParameter)), h1)
                    else if \<not> Enc_Validate (newEncryptedDrive p absImagePath k) then (Inl (DriveE ErrDriveNotValid), h1)
                    else (Inr (newEncryptedDrive p absImagePath k), h1)))))"

section \<open>Commands\<close>

definition ensureEncryptionTooling :: "host \<Rightarrow> error option" where
  "ensureEncryptionTooling h =
     (let missing = filter (\<lambda>tool. is_err (lookPath h tool)) [''cryptsetup'', ''truncate'', ''mkfs.ext4'', ''mount'', ''umount'']
      in if missing \<noteq> [] then Some (Wrap (''missing tools: '' @ join_comma missing) (DriveE ErrEncryptionUnavailable)) else None)"

definition mapName :: "encrypted_drive \<Rightarrow> string" where
  "mapName d = ''drvcrypt-'' @ hex_EncodeToString (take 6 (sha256_Sum (bytes_of (imagePath d))))"

definition mapperPath :: "encrypted_drive \<Rightarrow> string" where
  "mapperPath d = ''/dev/mapper/'' @ mapName d"

definition runCmdWithStdin :: "string list \<Rightarrow> key_user" where
  "runCmdWithStdin args inp h =
     (case exec_input args inp h of
        ((output, Some e), h1) \<Rightarrow> (Some (Wrap (''command failed; output='' @ TrimSpace (string_of output)) e), h1)
      | ((output, None), h1) \<Rightarrow> (None, h1))"

definition runCryptsetupWithKey :: "string list \<Rightarrow> encrypted_drive \<Rightarrow> host \<Rightarrow> (error option \<times> encrypted_drive \<times> host) outcome" where
  "runCryptsetupWithKey args d h =
     (case key d of
        None \<Rightarrow> Panic
      | Some k \<Rightarrow>
          (case WithReader (runCmdWithStdin (''cryptsetup'' # args)) k h of
             (e, k', h1) \<Rightarrow> Return (e, d\<lparr>key := Some k'\<rparr>, h1)))"

text \<open>Sequencing: go on when the call returned nil, with its error wrapped otherwise.\<close>

definition and_then ::
  "(error option \<times> 'd \<times> host) outcome \<Rightarrow> string \<Rightarrow> ('d \<Rightarrow> host \<Rightarrow> (error option \<times> 'd \<times> host) outcome)
     \<Rightarrow> (error option \<times> 'd \<times> host) outcome" where
  "and_then r msg k =
     (case r of
        Panic \<Rightarrow> Panic
      | Blocked \<Rightarrow> Blocked
      | Return (Some e, d, h) \<Rightarrow> Return (Some (Wrap msg e), d, h)
      | Return (None, d, h) \<Rightarrow> k d h)"

abbreviation plain :: "error option \<times> host \<Rightarrow> 'd \<Rightarrow> (error option \<times> 'd \<times> host) outcome" where
  "plain r d \<equiv> (case r of (e, h) \<Rightarrow> Return (e, d, h))"

definition luks_open :: "encrypted_drive \<Rightarrow> host \<Rightarrow> (error option \<times> encrypted_drive \<times> host) outcome" where
  "luks_open d h = runCryptsetupWithKey [''luksOpen'', imagePath d, mapName d, ''--key-file'', ''-''] d h"

definition luks_close :: "encrypted_drive \<Rightarrow> host \<Rightarrow> host" where
  "luks_close d h = snd (runCmd [''cryptsetup'', ''luksClose'', mapName d] h)"

text \<open>A new image: made, formatted, opened, given a filesystem, and closed whatever the outcome of that.\<close>

definition createLUKSImage :: "encrypted_drive \<Rightarrow> DriveOptions \<Rightarrow> host \<Rightarrow> (error option \<times> encrypted_drive \<times> host) outcome" where
  "createLUKSImage d p h =
     (if sint (sizeBytes p) \<le> 0
      then Return (Some (Wrap ''sizeBytes must be > 0 to create encrypted image'' (DriveE ErrInvalidParameter)), d, h)
      else
        and_then (plain (on_fs (fs_MkdirAll (path_Dir (imagePath d))) h) d) ''failed to create encrypted image directory''
          (\<lambda>d h. and_then (plain (runCmd [''truncate'', ''-s'', itoa_int (sint (sizeBytes p)), imagePath d] h) d)
             ''failed to create encrypted image''
          (\<lambda>d h. and_then (runCryptsetupWithKey
                (''--batch-mode'' # ''--type'' # ''luks2'' # ''luksFormat'' # [imagePath d, ''--key-file'', ''-'']) d h)
             ''failed to format encrypted image''
          (\<lambda>d h. and_then (luks_open d h) ''failed to open newly formatted encrypted image''
          (\<lambda>d h. (case runCmd [''mkfs.ext4'', ''-F'', mapperPath d] h of
                    (Some e, h1) \<Rightarrow> Return (Some (Wrap ''failed to format encrypted mapper filesystem'' e), d, luks_close d h1)
                  | (None, h1) \<Rightarrow> Return (None, d, luks_close d h1)))))))"

definition ensureLUKSImage :: "encrypted_drive \<Rightarrow> host \<Rightarrow> (error option \<times> encrypted_drive \<times> host) outcome" where
  "ensureLUKSImage d h =
     (case on_fs (fs_Stat (imagePath d)) h of
        (Inr info, h1) \<Rightarrow>
          (case runCmd [''cryptsetup'', ''isLuks'', imagePath d] h1 of
             (Some e, h2) \<Rightarrow>
               Return (Some (Wrap ''existing image is not a valid LUKS container'' (DriveE ErrInvalidParameter)), d, h2)
           | (None, h2) \<Rightarrow> Return (None, d, h2))
      | (Inl e, h1) \<Rightarrow>
          if \<not> errors_Is e (LibE ErrNotExist) then Return (Some (Wrap ''failed to inspect encrypted image'' e), d, h1)
          else (case params d of None \<Rightarrow> Panic | Some p \<Rightarrow> createLUKSImage d p h1))"

section \<open>Mounting\<close>

definition enc_set_mounted :: "string \<Rightarrow> encrypted_drive \<Rightarrow> encrypted_drive" where
  "enc_set_mounted mp d = d\<lparr>mounted := True, mountPoint := mp, unmountFunc := Some (LuksUnmount mp (mapName d))\<rparr>"

text \<open>The part of \<open>Mount\<close> after its checks.\<close>

definition mount_luks :: "string \<Rightarrow> encrypted_drive \<Rightarrow> host \<Rightarrow> (error option \<times> encrypted_drive \<times> host) outcome" where
  "mount_luks mp d h =
     (case ensureLUKSImage d h of
        Panic \<Rightarrow> Panic
      | Blocked \<Rightarrow> Blocked
      | Return (Some e, d1, h1) \<Rightarrow> Return (Some e, d1, h1)
      | Return (None, d1, h1) \<Rightarrow>
          and_then (luks_open d1 h1) ''failed to open encrypted drive''
            (\<lambda>d2 h2.
               (case params d2 of
                  None \<Rightarrow> Panic
                | Some p \<Rightarrow>
                    let mountOpts = ''nosuid,nodev,noexec'' @ (if readonly p then '',ro'' else '''')
                    in (case runCmd [''mount'', ''-t'', FSType p, ''-o'', mountOpts, mapperPath d2, mp] h2 of
                          (Some e, h3) \<Rightarrow> Return (Some (Wrap ''failed to mount encrypted mapper'' e), d2, luks_close d2 h3)
                        | (None, h3) \<Rightarrow> Return (None, enc_set_mounted mp d2, h3)))))"

definition Enc_Mount :: "string \<Rightarrow> encrypted_drive \<Rightarrow> host \<Rightarrow> (error option \<times> encrypted_drive \<times> host) outcome" where
  "Enc_Mount mp0 d h =
     (if mounted d then Return (Some (DriveE ErrDriveAlreadyMounted), d, h)
      else if unMounting d then Return (Some (Msg ''drive is currently unmounting''), d, h)
      else if mp0 = '''' \<and> params d = None then Panic
      else if mp0 = '''' \<and> \<not> ephemeral (the (params d))
      then Return (Some (Msg ''a specified mount point is required for non-ephemeral drives''), d, h)
      else if geteuid h \<noteq> 0 then Return (Some (Msg ''encrypted drive mount requires root privileges''), d, h)
      else
        (case ensureEncryptionTooling h of
           Some e \<Rightarrow> Return (Some e, d, h)
         | None \<Rightarrow>
             (case (if mp0 = '''' then os_MkdirTemp ''encrypted-drive-mount-'' h else (Inr mp0, h)) of
                (Inl e, h1) \<Rightarrow> Return (Some (Wrap ''failed to create mount point'' e), d, h1)
              | (Inr mp, h1) \<Rightarrow> mount_luks mp d h1)))"

section \<open>Unmounting, deleting, reading and writing\<close>

definition Enc_Unmount :: "encrypted_drive \<Rightarrow> host \<Rightarrow> (error option \<times> encrypted_drive \<times> host) outcome" where
  "Enc_Unmount d h =
     (case unmount_begin d of
        (Some e, d1) \<Rightarrow> Return (Some e, d1, h)
      | (None, d1) \<Rightarrow>
          if ioWG d1 \<noteq> 0 then Blocked
          else (case unmount_snapshot d1 of
                  (None, mp, eph) \<Rightarrow> Panic
                | (Some f, mp, eph) \<Rightarrow>
                    (case unmount_work f mp eph h of
                       (r, h1) \<Rightarrow> (case unmount_end r d1 of (e, d2) \<Rightarrow> Return (e, d2, h1)))))"

text \<open>The last critical section of \<open>Delete\<close> also destroys the key.\<close>

definition enc_delete_end :: "encrypted_drive \<Rightarrow> host \<Rightarrow> encrypted_drive \<times> host" where
  "enc_delete_end d h =
     ((delete_end d)\<lparr>key := None\<rparr>, case key d of None \<Rightarrow> h | Some k \<Rightarrow> snd (Destroy k h))"

definition Enc_Delete :: "encrypted_drive \<Rightarrow> host \<Rightarrow> (error option \<times> encrypted_drive \<times> host) outcome" where
  "Enc_Delete d h =
     (case Enc_Unmount d h of
        Panic \<Rightarrow> Panic
      | Blocked \<Rightarrow> Blocked
      | Return (e, d1, h1) \<Rightarrow>
          if e \<noteq> None \<and> \<not> errors_Is (the e) (DriveE ErrDriveNotMounted) then Return (e, d1, h1)
          else
            (case delete_work (fst (delete_snapshot d1)) (snd (delete_snapshot d1)) h1 of
               (Some e2, h2) \<Rightarrow> Return (Some e2, d1, h2)
             | (None, h2) \<Rightarrow> (case enc_delete_end d1 h2 of (d2, h3) \<Rightarrow> Return (None, d2, h3))))"

definition enc_write_begin :: "encrypted_drive \<Rightarrow> (string result \<times> encrypted_drive) outcome" where
  "enc_write_begin d =
     (if \<not> mounted d then Return (Inl (Msg ''drive not mounted''), d)
      else if unMounting d then Return (Inl (Msg ''drive is currently unmounting''), d)
      else
        (case params d of
           None \<Rightarrow> Panic
         | Some p \<Rightarrow>
             if readonly p then Return (Inl (Msg (''cannot write to read-only drive: '' @ optId p)), d)
             else Return (Inr (mountPoint d), d\<lparr>ioWG := Suc (ioWG d)\<rparr>)))"

definition Enc_WriteToDrive ::
  "string \<Rightarrow> conn \<Rightarrow> encrypted_drive \<Rightarrow> host \<Rightarrow> (error option \<times> encrypted_drive \<times> host) outcome" where
  "Enc_WriteToDrive filePath r d h =
     (if filePath = '''' then Return (Some (Wrap ''filepath cannot be empty'' (DriveE ErrInvalidParameter)), d, h)
      else if \<not> Enc_Validate d then Return (Some (DriveE ErrDriveNotValid), d, h)
      else
        (case enc_write_begin d of
           Panic \<Rightarrow> Panic
         | Blocked \<Rightarrow> Blocked
         | Return (Inl e, d1) \<Rightarrow> Return (Some e, d1, h)
         | Return (Inr mp, d1) \<Rightarrow>
             (case write_file (getwd h) mp filePath r (files h) of
                None \<Rightarrow> Blocked
              | Some (e, s) \<Rightarrow> Return (e, io_end d1, h\<lparr>files := s\<rparr>))))"

definition Enc_LoadFromDrive :: "string \<Rightarrow> encrypted_drive \<Rightarrow> host \<Rightarrow> byte list result \<times> encrypted_drive \<times> host" where
  "Enc_LoadFromDrive filePath d h =
     (if filePath = '''' then (Inl (Wrap ''filepath cannot be empty'' (DriveE ErrInvalidParameter)), d, h)
      else if \<not> Enc_Validate d then (Inl (DriveE ErrDriveNotValid), d, h)
      else
        (case load_begin d of
           (Inl e, d1) \<Rightarrow> (Inl e, d1, h)
         | (Inr mp, d1) \<Rightarrow>
             (case on_fs (load_file (getwd h) mp filePath) h of (r, h1) \<Rightarrow> (r, io_end d1, h1))))"

section \<open>Which mapping is open\<close>

text \<open>
  The mapping \<open>nm\<close> is open on the machine after a \<open>luksOpen\<close> that succeeded and until a \<open>luksClose\<close> that succeeded, by
  the record of the commands run; a command that fails changes nothing.
\<close>

definition opens :: "string \<Rightarrow> cmdrun \<Rightarrow> bool" where
  "opens nm c \<longleftrightarrow> \<not> failed c \<and> (case argv c of a # b # i # n # rest \<Rightarrow> a = ''cryptsetup'' \<and> b = ''luksOpen'' \<and> n = nm | _ \<Rightarrow> False)"

definition closes :: "string \<Rightarrow> cmdrun \<Rightarrow> bool" where
  "closes nm c \<longleftrightarrow> \<not> failed c \<and> argv c = [''cryptsetup'', ''luksClose'', nm]"

definition mapping_open :: "string \<Rightarrow> host \<Rightarrow> bool" where
  "mapping_open nm h = foldl (\<lambda>b c. if opens nm c then True else if closes nm c then False else b) False (cmdLog h)"

lemma mapping_open_snoc:
  "cmdLog h' = cmdLog h @ [c] \<Longrightarrow> mapping_open nm h' = (if opens nm c then True else if closes nm c then False else mapping_open nm h)"
  by (simp add: mapping_open_def)

lemma mapping_open_same: "cmdLog h' = cmdLog h \<Longrightarrow> mapping_open nm h' = mapping_open nm h"
  by (simp add: mapping_open_def)

definition is_luks :: "string list \<Rightarrow> bool" where
  "is_luks args \<longleftrightarrow> take 2 args \<in> {[''cryptsetup'', ''luksOpen''], [''cryptsetup'', ''luksClose'']}"

lemma not_luks: "\<not> is_luks (argv c) \<Longrightarrow> \<not> opens nm c \<and> \<not> closes nm c"
  by (auto simp: is_luks_def opens_def closes_def split: list.splits)

lemma exec_mapping:
  assumes "exec args h = ((out, e), h')" and "\<not> is_luks args"
  shows "mapping_open nm h' = mapping_open nm h"
proof -
  from exec_log [OF assms(1)] obtain c where c: "cmdLog h' = cmdLog h @ [c]" "argv c = args" by blast
  with assms(2) not_luks [of c nm] show ?thesis by (simp add: mapping_open_snoc [OF c(1)])
qed

lemma runCmd_mapping:
  "runCmd args h = (e, h') \<Longrightarrow> \<not> is_luks args \<Longrightarrow> mapping_open nm h' = mapping_open nm h"
  unfolding runCmd_def by (auto split: prod.splits option.splits dest: exec_mapping)

text \<open>Between two moments, the record of commands has grown, and a command that should close the mapping was run and failed.\<close>

definition log_grows :: "host \<Rightarrow> host \<Rightarrow> bool" where
  "log_grows h h' \<longleftrightarrow> (\<exists>ran. cmdLog h' = cmdLog h @ ran)"

definition close_failed :: "string \<Rightarrow> host \<Rightarrow> host \<Rightarrow> bool" where
  "close_failed nm h h' \<longleftrightarrow>
     (\<exists>c \<in> set (drop (length (cmdLog h)) (cmdLog h')). argv c = [''cryptsetup'', ''luksClose'', nm] \<and> failed c)"

lemma log_grows_same [simp]: "cmdLog h' = cmdLog h \<Longrightarrow> log_grows h h'"
  by (simp add: log_grows_def)

lemma log_grows_snoc: "cmdLog h' = cmdLog h @ [c] \<Longrightarrow> log_grows h h'"
  by (simp add: log_grows_def)

lemma log_grows_trans: "log_grows h h1 \<Longrightarrow> log_grows h1 h2 \<Longrightarrow> log_grows h h2"
  by (auto simp: log_grows_def)

lemma close_failed_trans:
  "log_grows h h1 \<Longrightarrow> log_grows h1 h2 \<Longrightarrow> close_failed nm h h1 \<or> close_failed nm h1 h2 \<Longrightarrow> close_failed nm h h2"
  by (auto simp: log_grows_def close_failed_def)

lemma runCmd_grows: "runCmd args h = (e, h') \<Longrightarrow> log_grows h h'"
  unfolding runCmd_def by (auto split: prod.splits option.splits dest!: exec_log intro: log_grows_snoc)

lemma luks_close_mapping:
  "log_grows h (luks_close d h) \<and> (mapping_open (mapName d) (luks_close d h) \<longrightarrow> close_failed (mapName d) h (luks_close d h))"
proof -
  obtain out e h1 where x: "exec [''cryptsetup'', ''luksClose'', mapName d] h = ((out, e), h1)"
    by (cases "exec [''cryptsetup'', ''luksClose'', mapName d] h") auto
  from exec_log [OF x] obtain c where c: "cmdLog h1 = cmdLog h @ [c]" "argv c = [''cryptsetup'', ''luksClose'', mapName d]" by blast
  have "mapping_open (mapName d) h1 \<longrightarrow> close_failed (mapName d) h h1"
    using c by (simp add: mapping_open_snoc [OF c(1)] opens_def closes_def close_failed_def)
  moreover have "luks_close d h = h1" using x by (cases e) (simp_all add: luks_close_def runCmd_def)
  ultimately show ?thesis using log_grows_snoc [OF c(1)] by simp
qed

text \<open>A key whose delivery fails only when the command that reads it fails.\<close>

fun steady_key :: "key \<Rightarrow> bool" where
  "steady_key (InMemoryKey data) = True"
| "steady_key (FileKey path) = True"
| "steady_key (OneShotKey used (Some k)) = steady_key k"
| "steady_key (OneShotKey used None) = True"
| "steady_key _ = False"

lemma Destroy_ran: "cmdLog (snd (Destroy k h)) = cmdLog h"
  by (induction k) (auto simp: InMemoryKey_Destroy_def zeroed_def split: option.splits)

lemma steady_run:
  "steady_key k \<Longrightarrow> WithReader (runCmdWithStdin args) k h = (e, k', h') \<Longrightarrow>
     steady_key k' \<and> (e \<noteq> None \<and> cmdLog h' = cmdLog h
       \<or> (\<exists>c. cmdLog h' = cmdLog h @ [c] \<and> argv c = args \<and> (e = None) = (\<not> failed c)))"
proof (induction k arbitrary: e k' h')
  case (InMemoryKey data)
  then show ?case
    by (auto simp: InMemoryKey_WithReader_def runCmdWithStdin_def exec_input_def Let_def next_reply_def
        split: option.splits if_splits prod.splits list.splits)
next
  case (FileKey path)
  then show ?case
    by (auto simp: FileKey_WithReader_def runCmdWithStdin_def exec_input_def Let_def next_reply_def
        split: option.splits if_splits prod.splits list.splits sum.splits)
next
  case (OneShotKey used ko)
  show ?case
  proof (cases "used \<or> ko = None")
    case True
    with OneShotKey.prems show ?thesis by (auto split: if_splits option.splits)
  next
    case False
    then obtain k where k: "ko = Some k" "\<not> used" by auto
    obtain e1 i h1 where w: "WithReader (runCmdWithStdin args) k h = (e1, i, h1)" by (cases "WithReader (runCmdWithStdin args) k h")
    have r: "e = e1" "k' = OneShotKey True None" "cmdLog h' = cmdLog h1"
      using OneShotKey.prems(2) k w Destroy_ran [of i h1] by auto
    from OneShotKey.IH [OF _ _ w] k OneShotKey.prems(1) r show ?thesis by simp
  qed
qed simp_all

lemma crypt_run:
  assumes "runCryptsetupWithKey args d h = Return (e, d', h')" and "\<forall>k. key d = Some k \<longrightarrow> steady_key k"
  shows "\<exists>k'. d' = d\<lparr>key := Some k'\<rparr> \<and> steady_key k' \<and> (e \<noteq> None \<and> cmdLog h' = cmdLog h
    \<or> (\<exists>c. cmdLog h' = cmdLog h @ [c] \<and> argv c = ''cryptsetup'' # args \<and> (e = None) = (\<not> failed c)))"
proof -
  from assms(1) obtain k where k: "key d = Some k" by (auto simp: runCryptsetupWithKey_def split: option.splits)
  obtain e1 k' h1 where w: "WithReader (runCmdWithStdin (''cryptsetup'' # args)) k h = (e1, k', h1)"
    by (cases "WithReader (runCmdWithStdin (''cryptsetup'' # args)) k h")
  have r: "e = e1" "d' = d\<lparr>key := Some k'\<rparr>" "h' = h1" using assms(1) k w by (simp_all add: runCryptsetupWithKey_def)
  from steady_run [OF _ w] assms(2) k r show ?thesis by blast
qed

text \<open>What every step of a mount keeps of the drive: all but the state of the key, which stays steady.\<close>

definition same_drive :: "encrypted_drive \<Rightarrow> encrypted_drive \<Rightarrow> bool" where
  "same_drive d d' \<longleftrightarrow> drive.truncate d' = drive.truncate d
     \<and> ((\<forall>k. key d = Some k \<longrightarrow> steady_key k) \<longrightarrow> (\<forall>k. key d' = Some k \<longrightarrow> steady_key k))"

lemma same_drive_refl [simp]: "same_drive d d"
  by (simp add: same_drive_def)

lemma same_drive_fields: "same_drive d d' \<Longrightarrow> imagePath d' = imagePath d \<and> params d' = params d \<and> mapName d' = mapName d"
  by (simp add: same_drive_def drive.truncate_def mapName_def)

lemma same_drive_key: "same_drive d d' \<Longrightarrow> d' = d\<lparr>key := key d'\<rparr>"
  by (cases d; cases d') (simp add: same_drive_def drive.truncate_def)

lemma same_drive_trans: "same_drive d d1 \<Longrightarrow> same_drive d1 d2 \<Longrightarrow> same_drive d d2"
  unfolding same_drive_def by metis

lemma same_drive_set_key: "steady_key k \<Longrightarrow> same_drive d (d\<lparr>key := Some k\<rparr>)"
  by (simp add: same_drive_def drive.truncate_def)

abbreviation steady :: "encrypted_drive \<Rightarrow> bool" where
  "steady d \<equiv> \<forall>k. key d = Some k \<longrightarrow> steady_key k"

lemma luks_open_mapping:
  assumes "luks_open d h = Return (e, d', h')" and "steady d"
  shows "same_drive d d' \<and> log_grows h h' \<and> mapping_open (mapName d) h' = (e = None \<or> mapping_open (mapName d) h)"
proof -
  from crypt_run [OF assms(1) [unfolded luks_open_def] assms(2)] obtain k' where
    d': "d' = d\<lparr>key := Some k'\<rparr>" "steady_key k'"
    and r: "e \<noteq> None \<and> cmdLog h' = cmdLog h
      \<or> (\<exists>c. cmdLog h' = cmdLog h @ [c] \<and> argv c = ''cryptsetup'' # [''luksOpen'', imagePath d, mapName d, ''--key-file'', ''-'']
            \<and> (e = None) = (\<not> failed c))" by blast
  have "same_drive d d'" using d' by (simp add: same_drive_set_key)
  moreover have "mapping_open (mapName d) h' = (e = None \<or> mapping_open (mapName d) h)"
    using r
  proof (elim disjE exE conjE)
    assume "e \<noteq> None" "cmdLog h' = cmdLog h"
    then show ?thesis using mapping_open_same [of h' h] by auto
  next
    fix c
    assume c: "cmdLog h' = cmdLog h @ [c]" "argv c = ''cryptsetup'' # [''luksOpen'', imagePath d, mapName d, ''--key-file'', ''-'']"
      "(e = None) = (\<not> failed c)"
    show ?thesis unfolding mapping_open_snoc [OF c(1)] using c(2,3) by (simp add: opens_def closes_def)
  qed
  moreover have "log_grows h h'" using r by (auto intro: log_grows_snoc)
  ultimately show ?thesis by blast
qed

lemma crypt_mapping:
  assumes "runCryptsetupWithKey args d h = Return (e, d', h')" and "steady d" and "args \<noteq> []" and "hd args = ''--batch-mode''"
  shows "same_drive d d' \<and> log_grows h h' \<and> mapping_open nm h' = mapping_open nm h"
proof -
  from crypt_run [OF assms(1,2)] obtain k' where d': "d' = d\<lparr>key := Some k'\<rparr>" "steady_key k'"
    and r: "e \<noteq> None \<and> cmdLog h' = cmdLog h \<or> (\<exists>c. cmdLog h' = cmdLog h @ [c] \<and> argv c = ''cryptsetup'' # args \<and> (e = None) = (\<not> failed c))"
    by blast
  have "\<not> is_luks (''cryptsetup'' # args)" using assms(3,4) by (cases args) (auto simp: is_luks_def)
  then have "\<not> opens nm c \<and> \<not> closes nm c" if "argv c = ''cryptsetup'' # args" for c using not_luks [of c nm] that by simp
  then have "mapping_open nm h' = mapping_open nm h" using r mapping_open_same [of h' h nm] mapping_open_snoc [of h' h _ nm]
    by metis
  moreover have "same_drive d d'" using d' by (simp add: same_drive_set_key)
  moreover have "log_grows h h'" using r by (auto intro: log_grows_snoc)
  ultimately show ?thesis by blast
qed

text \<open>The drive stays as it is, and its mapping does not become open but by a command that should close it and fails.\<close>

definition keeps_mapping :: "encrypted_drive \<Rightarrow> host \<Rightarrow> encrypted_drive \<Rightarrow> host \<Rightarrow> bool" where
  "keeps_mapping d h d' h' \<longleftrightarrow> same_drive d d' \<and> log_grows h h'
     \<and> (mapping_open (mapName d) h' \<longrightarrow> mapping_open (mapName d) h \<or> close_failed (mapName d) h h')"

lemma keeps_mapping_trans: "keeps_mapping d h d1 h1 \<Longrightarrow> keeps_mapping d1 h1 d2 h2 \<Longrightarrow> keeps_mapping d h d2 h2"
  using same_drive_trans same_drive_fields log_grows_trans close_failed_trans unfolding keeps_mapping_def by metis

lemma steady_same: "steady d \<Longrightarrow> same_drive d d' \<Longrightarrow> steady d'"
  by (simp add: same_drive_def)

lemma runCmd_keeps: "runCmd args h = (e, h') \<Longrightarrow> \<not> is_luks args \<Longrightarrow> keeps_mapping d h d h'"
  by (simp add: keeps_mapping_def runCmd_mapping runCmd_grows)

lemma on_fs_keeps_mapping: "on_fs f h = (r, h') \<Longrightarrow> keeps_mapping d h d h'"
  using mapping_open_same [of h' h] on_fs_keeps [of f h r h'] by (simp add: keeps_mapping_def)

text \<open>A sequence keeps what its first call keeps and what the rest keeps after it.\<close>

lemma and_then_keeps:
  assumes "and_then r msg f = Return (e, d', h')"
    and "\<And>e1 d1 h1. r = Return (e1, d1, h1) \<Longrightarrow> keeps_mapping d h d1 h1"
    and "\<And>d1 h1. keeps_mapping d h d1 h1 \<Longrightarrow> f d1 h1 = Return (e, d', h') \<Longrightarrow> keeps_mapping d h d' h'"
  shows "keeps_mapping d h d' h'"
  using assms by (auto simp: and_then_def split: outcome.splits option.splits)

lemma runCmd_step:
  "keeps_mapping d h d1 h1 \<Longrightarrow> \<not> is_luks args \<Longrightarrow> plain (runCmd args h1) d1 = Return (e, d2, h2) \<Longrightarrow> keeps_mapping d h d2 h2"
  using runCmd_keeps keeps_mapping_trans by (auto split: prod.splits)

lemma crypt_step:
  "steady d \<Longrightarrow> keeps_mapping d h d1 h1 \<Longrightarrow> args \<noteq> [] \<Longrightarrow> hd args = ''--batch-mode'' \<Longrightarrow>
   runCryptsetupWithKey args d1 h1 = Return (e, d2, h2) \<Longrightarrow> keeps_mapping d h d2 h2"
proof -
  assume a: "steady d" "keeps_mapping d h d1 h1" "args \<noteq> []" "hd args = ''--batch-mode''"
    and r: "runCryptsetupWithKey args d1 h1 = Return (e, d2, h2)"
  have "steady d1" using a(1,2) steady_same unfolding keeps_mapping_def by blast
  from crypt_mapping [OF r this a(3,4), of "mapName d1"] have "keeps_mapping d1 h1 d2 h2" by (simp add: keeps_mapping_def)
  with a(2) show ?thesis by (rule keeps_mapping_trans)
qed

text \<open>The last part of creating an image closes the mapping that it opened.\<close>

lemma mkfs_keeps:
  assumes st: "steady d" and k: "keeps_mapping d h d1 h1"
    and r: "and_then (luks_open d1 h1) msg
      (\<lambda>d h. (case runCmd (args d) h of
                (Some e, h1) \<Rightarrow> Return (Some (Wrap msg2 e), d, luks_close d h1)
              | (None, h1) \<Rightarrow> Return (None, d, luks_close d h1))) = Return (e, d', h')"
  shows "keeps_mapping d h d' h'"
proof -
  have s1: "steady d1" using st k steady_same unfolding keeps_mapping_def by blast
  from r obtain e2 d2 h2 where o: "luks_open d1 h1 = Return (e2, d2, h2)"
    by (auto simp: and_then_def split: outcome.splits)
  from luks_open_mapping [OF o s1] have m: "same_drive d1 d2" "mapping_open (mapName d1) h2 = (e2 = None \<or> mapping_open (mapName d1) h1)"
    "log_grows h1 h2" by blast+
  have "keeps_mapping d1 h1 d' h'"
  proof (cases e2)
    case (Some x)
    with r o m show ?thesis by (simp add: and_then_def keeps_mapping_def)
  next
    case None
    with r o obtain e3 h3 where c: "runCmd (args d2) h2 = (e3, h3)" "d' = d2" "h' = luks_close d2 h3"
      by (auto simp: and_then_def split: prod.splits option.splits)
    have "log_grows h1 h3" by (rule log_grows_trans [OF m(3) runCmd_grows [OF c(1)]])
    with c luks_close_mapping [of h3 d2] m(1) same_drive_fields [OF m(1)] show ?thesis
      by (auto simp: keeps_mapping_def intro: log_grows_trans close_failed_trans)
  qed
  with k show ?thesis by (rule keeps_mapping_trans)
qed

lemma createLUKSImage_keeps:
  assumes "createLUKSImage d p h = Return (e, d', h')" and st: "steady d"
  shows "keeps_mapping d h d' h'"
proof (cases "sint (sizeBytes p) \<le> 0")
  case True
  with assms show ?thesis by (simp add: createLUKSImage_def keeps_mapping_def)
next
  case False
  note run = assms(1) [unfolded createLUKSImage_def if_not_P [OF False]]
  show ?thesis
  proof (rule and_then_keeps [OF run])
    show "plain (on_fs (fs_MkdirAll (path_Dir (imagePath d))) h) d = Return (e1, d1, h1) \<Longrightarrow> keeps_mapping d h d1 h1" for e1 d1 h1
      using on_fs_keeps_mapping by (auto split: prod.splits)
    fix d1 h1
    assume k1: "keeps_mapping d h d1 h1"
    assume r: "and_then (plain (runCmd [''truncate'', ''-s'', itoa_int (sint (sizeBytes p)), imagePath d1] h1) d1) ''failed to create encrypted image''
          (\<lambda>d h. and_then (runCryptsetupWithKey
                (''--batch-mode'' # ''--type'' # ''luks2'' # ''luksFormat'' # [imagePath d, ''--key-file'', ''-'']) d h)
             ''failed to format encrypted image''
          (\<lambda>d h. and_then (luks_open d h) ''failed to open newly formatted encrypted image''
          (\<lambda>d h. (case runCmd [''mkfs.ext4'', ''-F'', mapperPath d] h of
                    (Some e, h1) \<Rightarrow> Return (Some (Wrap ''failed to format encrypted mapper filesystem'' e), d, luks_close d h1)
                  | (None, h1) \<Rightarrow> Return (None, d, luks_close d h1))))) = Return (e, d', h')"
    show "keeps_mapping d h d' h'"
    proof (rule and_then_keeps [OF r])
      fix e2 d2 h2
      assume "plain (runCmd [''truncate'', ''-s'', itoa_int (sint (sizeBytes p)), imagePath d1] h1) d1 = Return (e2, d2, h2)"
      then show "keeps_mapping d h d2 h2" by (rule runCmd_step [OF k1, rotated]) (simp add: is_luks_def)
    next
      fix d2 h2
      assume k2: "keeps_mapping d h d2 h2"
      assume r2: "and_then (runCryptsetupWithKey
                (''--batch-mode'' # ''--type'' # ''luks2'' # ''luksFormat'' # [imagePath d2, ''--key-file'', ''-'']) d2 h2)
             ''failed to format encrypted image''
          (\<lambda>d h. and_then (luks_open d h) ''failed to open newly formatted encrypted image''
          (\<lambda>d h. (case runCmd [''mkfs.ext4'', ''-F'', mapperPath d] h of
                    (Some e, h1) \<Rightarrow> Return (Some (Wrap ''failed to format encrypted mapper filesystem'' e), d, luks_close d h1)
                  | (None, h1) \<Rightarrow> Return (None, d, luks_close d h1)))) = Return (e, d', h')"
      show "keeps_mapping d h d' h'"
        by (rule and_then_keeps [OF r2], erule crypt_step [OF st k2, rotated -1]) (auto intro: mkfs_keeps [OF st])
    qed
  qed
qed

lemma MkdirTemp_facts:
  "mkdir_temp_try rs pre h = (r, h') \<Longrightarrow> cmdLog h' = cmdLog h \<and> (\<forall>mp. r = Inr mp \<longrightarrow> (\<exists>t. mp = pre @ t))"
proof (induction rs pre h rule: mkdir_temp_try.induct)
  case (2 x rs pre h)
  obtain e h1 where m: "on_fs (fs_Mkdir (pre @ itoa (unat x))) h = (e, h1)" by (cases "on_fs (fs_Mkdir (pre @ itoa (unat x))) h")
  have l: "cmdLog h1 = cmdLog h" using on_fs_keeps [OF m] by simp
  show ?case
  proof (cases "e = Some (LibE ErrFileExists)")
    case True
    with 2(2) m have "mkdir_temp_try rs pre h1 = (r, h')" by simp
    from 2(1) [OF m [symmetric] True refl this] l show ?thesis by simp
  next
    case False
    with 2(2) m l show ?thesis by (cases e) (auto split: if_splits)
  qed
qed auto

lemma ensureLUKSImage_keeps:
  assumes "ensureLUKSImage d h = Return (e, d', h')" and "steady d"
  shows "keeps_mapping d h d' h'"
proof -
  obtain x h1 where s: "on_fs (fs_Stat (imagePath d)) h = (x, h1)" by (cases "on_fs (fs_Stat (imagePath d)) h")
  note k1 = on_fs_keeps_mapping [OF s, of d]
  show ?thesis
  proof (cases x)
    case (Inr info)
    obtain e2 h2 where c: "runCmd [''cryptsetup'', ''isLuks'', imagePath d] h1 = (e2, h2)"
      by (cases "runCmd [''cryptsetup'', ''isLuks'', imagePath d] h1")
    have "d' = d" "h' = h2" using assms(1) s Inr c by (auto simp: ensureLUKSImage_def split: option.splits)
    with keeps_mapping_trans [OF k1 runCmd_keeps [OF c]] show ?thesis by (simp add: is_luks_def)
  next
    case (Inl er)
    with assms(1) s consider "d' = d" "h' = h1" | p where "createLUKSImage d p h1 = Return (e, d', h')"
      by (auto simp: ensureLUKSImage_def split: if_splits option.splits)
    then show ?thesis
    proof cases
      case 1
      with k1 show ?thesis by simp
    next
      case 2
      from createLUKSImage_keeps [OF this assms(2)] k1 show ?thesis using keeps_mapping_trans by blast
    qed
  qed
qed

lemma mount_luks_mapping:
  assumes r: "mount_luks mp d h = Return (e, d', h')" and st: "steady d" and o: "\<not> mapping_open (mapName d) h"
  shows "case e of Some x \<Rightarrow> same_drive d d' \<and> (mapping_open (mapName d) h' \<longrightarrow> close_failed (mapName d) h h')
    | None \<Rightarrow> (\<exists>d2. same_drive d d2 \<and> d' = enc_set_mounted mp d2) \<and> mapping_open (mapName d) h'"
proof -
  from r obtain e1 d1 h1 where en: "ensureLUKSImage d h = Return (e1, d1, h1)" by (auto simp: mount_luks_def split: outcome.splits)
  from ensureLUKSImage_keeps [OF en st] o have k1: "same_drive d d1" "log_grows h h1"
    "mapping_open (mapName d) h1 \<longrightarrow> close_failed (mapName d) h h1" by (auto simp: keeps_mapping_def)
  note f1 = same_drive_fields [OF k1(1)] and st1 = steady_same [OF st k1(1)]
  show ?thesis
  proof (cases e1)
    case (Some x)
    with r en k1 show ?thesis by (auto simp: mount_luks_def)
  next
    case None
    with r en obtain e2 d2 h2 where lo: "luks_open d1 h1 = Return (e2, d2, h2)"
      by (auto simp: mount_luks_def and_then_def split: outcome.splits)
    from luks_open_mapping [OF lo st1] have k2: "same_drive d1 d2" "log_grows h1 h2"
      "mapping_open (mapName d) h2 = (e2 = None \<or> mapping_open (mapName d) h1)" using f1 by auto
    note s2 = same_drive_trans [OF k1(1) k2(1)] and g2 = log_grows_trans [OF k1(2) k2(2)]
    show ?thesis
    proof (cases e2)
      case (Some x)
      then have "mapping_open (mapName d) h2 \<longrightarrow> close_failed (mapName d) h h2"
        using k2(3) k1(3) close_failed_trans [OF k1(2) k2(2)] by blast
      with r en None lo s2 Some show ?thesis by (auto simp: mount_luks_def and_then_def)
    next
      case e2: None
      with r en None lo obtain p args e3 h3 where m: "runCmd (''mount'' # args) h2 = (e3, h3)"
        and fin: "case e3 of Some x \<Rightarrow> d' = d2 \<and> h' = luks_close d2 h3 \<and> e \<noteq> None | None \<Rightarrow> d' = enc_set_mounted mp d2 \<and> h' = h3 \<and> e = None"
        by (auto simp: mount_luks_def and_then_def Let_def split: option.splits prod.splits)
      have m3: "mapping_open (mapName d) h3" using runCmd_mapping [OF m, of "mapName d"] k2 e2 by (simp add: is_luks_def)
      have "log_grows h h3" by (rule log_grows_trans [OF g2 runCmd_grows [OF m]])
      then have "mapping_open (mapName d) (luks_close d2 h3) \<longrightarrow> close_failed (mapName d) h (luks_close d2 h3)"
        using luks_close_mapping [of h3 d2] same_drive_fields [OF s2] close_failed_trans by metis
      with fin m3 s2 show ?thesis by (cases e3) auto
    qed
  qed
qed

text \<open>
  C25: A failed mount of an encrypted drive closes what it opened. With a key that is in memory or in a file (also when it may
  be used once only), whichever command or file operation fails, the drive is as before but for the state of its key, and the
  LUKS mapping of the drive, closed before, is open afterwards only if this call ran \<open>luksClose\<close> on it and that command
  failed, an error that the code drops; a successful mount has the mapping open, a mount point and the closure that unmounts
  and closes it.
\<close>

theorem encrypted_mount_balanced:
  assumes "Enc_Mount mp0 d h = Return (e, d', h')" and "\<not> mapping_open (mapName d) h" and "\<forall>k. key d = Some k \<longrightarrow> steady_key k"
  shows "case e of
      Some x \<Rightarrow> (mapping_open (mapName d) h' \<longrightarrow> close_failed (mapName d) h h') \<and> d' = d\<lparr>key := key d'\<rparr>
    | None \<Rightarrow> mapping_open (mapName d) h' \<and> mounted d' \<and> mountPoint d' \<noteq> ''''
        \<and> unmountFunc d' = Some (LuksUnmount (mountPoint d') (mapName d))"
proof -
  have early: "case e of Some x \<Rightarrow> (mapping_open (mapName d) h' \<longrightarrow> close_failed (mapName d) h h') \<and> d' = d\<lparr>key := key d'\<rparr> | None \<Rightarrow> P"
    if "\<exists>x. e = Some x" "d' = d" "cmdLog h' = cmdLog h" for P
    using that assms(2) mapping_open_same [of h' h] by auto
  let ?t = "if mp0 = '''' then os_MkdirTemp ''encrypted-drive-mount-'' h else (Inr mp0, h)"
  obtain r h1 where t: "?t = (r, h1)" by (cases ?t)
  have l1: "cmdLog h1 = cmdLog h" and ne: "\<And>mp. r = Inr mp \<Longrightarrow> mp \<noteq> ''''"
    using t MkdirTemp_facts [of "nextRoll h" "tempDir h @ ''/'' @ ''encrypted-drive-mount-''" h r h1]
    by (auto simp: os_MkdirTemp_def split: if_splits)
  have "(\<exists>x. e = Some x) \<and> d' = d \<and> cmdLog h' = cmdLog h \<or> (\<exists>mp. r = Inr mp \<and> mount_luks mp d h1 = Return (e, d', h'))"
  proof (cases "ensureEncryptionTooling h")
    case None
    with assms(1) t l1 show ?thesis by (auto simp: Enc_Mount_def split: if_splits sum.splits)
  next
    case (Some x)
    with assms(1) have "(\<exists>x. e = Some x) \<and> d' = d \<and> h' = h" unfolding Enc_Mount_def by (simp split: if_splits) (blast | (elim conjE, rule exI, erule sym))+
    then show ?thesis by blast
  qed
  then consider "\<exists>x. e = Some x" "d' = d" "cmdLog h' = cmdLog h" | mp where "r = Inr mp" "mount_luks mp d h1 = Return (e, d', h')"
    by blast
  then show ?thesis
  proof cases
    case 1
    then show ?thesis by (rule early)
  next
    case 2
    have "\<not> mapping_open (mapName d) h1" using assms(2) mapping_open_same [OF l1] by simp
    moreover have "close_failed (mapName d) h1 h' = close_failed (mapName d) h h'" by (simp add: close_failed_def l1)
    ultimately show ?thesis using mount_luks_mapping [OF 2(2) assms(3)] ne [OF 2(1)]
      by (cases e) (auto simp: enc_set_mounted_def mapName_def dest: same_drive_key same_drive_fields)
  qed
qed

definition secret_host :: "reply list \<Rightarrow> host" where
  "secret_host rs =
     \<lparr>files = \<lparr>tree = [[''mnt''] \<mapsto> Dir, [''x.img''] \<mapsto> File [0]], fsFaults = [], fsReadEnd = (\<lambda>p. LibE EOF)\<rparr>,
      getwd = Inr ''/'', tempDir = ''/tmp'', nextRoll = [], geteuid = 0, lookPath = (\<lambda>n. Inr (''/bin/'' @ n)), replies = rs, cmdLog = [],
      mem = (\<lambda>a. [1, 2, 3]), nextMem = 1, openers = (\<lambda>i. [])\<rparr>"

definition secret_drive :: "string \<Rightarrow> key \<Rightarrow> encrypted_drive" where
  "secret_drive img k = newEncryptedDrive (NewDriveOptions ''x'' False False '''' '''' False 4096 ''ext4'' MountMethodLoop) img k"

text \<open>The file operations of the example, and a command that exits with an error.\<close>

definition exits :: reply where
  "exits = silent\<lparr>exitErr := Some (External 1)\<rparr>"

lemma secret_stat:
  "on_fs (fs_Stat ''/x.img'') (secret_host rs) = (Inr (False, 1), secret_host rs)"
  "on_fs (fs_Stat ''/y.img'') (secret_host rs) = (Inl (LibE ErrNotExist), secret_host rs)"
proof -
  have "comps ''/x.img'' = [''x.img'']" "comps ''/y.img'' = [''y.img'']" by code_simp+
  then show "on_fs (fs_Stat ''/x.img'') (secret_host rs) = (Inr (False, 1), secret_host rs)"
    "on_fs (fs_Stat ''/y.img'') (secret_host rs) = (Inl (LibE ErrNotExist), secret_host rs)"
    by (simp_all add: on_fs_def fs_Stat_def fs_sys_def secret_host_def walk.simps node_at_def)
qed

lemma secret_tools: "ensureEncryptionTooling (secret_host rs) = None"
  by (simp add: ensureEncryptionTooling_def secret_host_def is_err_def)

lemmas secret_simps = Enc_Mount_def secret_tools mount_luks_def ensureLUKSImage_def secret_stat runCmd_def exec_def exec_input_def
  next_reply_def luks_open_def runCryptsetupWithKey_def InMemoryKey_WithReader_def runCmdWithStdin_def and_then_def luks_close_def
  secret_drive_def newEncryptedDrive_def NewDriveOptions_def silent_def exits_def Let_def

theorem encrypted_mount_balanced_witness:
  "\<exists>e d' h'. Enc_Mount ''/mnt'' (secret_drive ''/x.img'' (InMemoryKey (Some 0))) (secret_host [silent, silent, exits]) = Return (Some e, d', h')
     \<and> \<not> mapping_open (mapName (secret_drive ''/x.img'' (InMemoryKey (Some 0)))) h' \<and> length (cmdLog h') = 4"
proof -
  let ?d = "secret_drive ''/x.img'' (InMemoryKey (Some 0))" and ?h = "secret_host [silent, silent, exits]"
  have g: "geteuid ?h = 0" "mem ?h 0 = [1, 2, 3]" "replies ?h = [silent, silent, exits]" "cmdLog ?h = []"
    by (simp_all add: secret_host_def)
  obtain e d' h' where r: "Enc_Mount ''/mnt'' ?d ?h = Return (Some e, d', h')" and l: "length (cmdLog h') = 4"
    and c: "\<not> close_failed (mapName ?d) ?h h'"
    using g by (simp add: secret_simps close_failed_def)
  have "\<not> mapping_open (mapName ?d) ?h" "\<forall>k. key ?d = Some k \<longrightarrow> steady_key k"
    using g by (simp_all add: mapping_open_def secret_drive_def newEncryptedDrive_def)
  from encrypted_mount_balanced [OF r this] r l c show ?thesis by auto
qed

text \<open>
  C34: A key command that fails after it printed the key leaves the container open. On any machine and for any drive with a
  \<open>CommandKey\<close> that is ready to be mounted, when the key command prints the key and then exits with an error, and \<open>cryptsetup\<close>
  opens the container with what it printed, \<open>Mount\<close> returns an error and the mapping is open. The drive is as before, so that
  \<open>Unmount\<close> refuses it and \<open>Delete\<close> runs no command: nothing closes the decrypted device.
\<close>

theorem command_key_leaves_mapping_open:
  assumes "key d = Some (CommandKey name args)" and "name \<noteq> ''''" and "\<not> mounted d" and "\<not> unMounting d" and "mp \<noteq> ''''"
    and "geteuid h = 0" and "ensureEncryptionTooling h = None" and "on_fs (fs_Stat (imagePath d)) h = (Inr info, h1)"
    and "replies h = isLuks # printer # luksOpen # rs"
    and "startErr isLuks = None" and "exitErr isLuks = None" and "startErr printer = None" and "exitErr printer = Some x"
    and "startErr luksOpen = None" and "exitErr luksOpen = None"
  shows "\<exists>e h2. Enc_Mount mp d h = Return (Some e, d, h2) \<and> mapping_open (mapName d) h2
    \<and> cmdLog h2 = cmdLog h @
        [\<lparr>argv = [''cryptsetup'', ''isLuks'', imagePath d], stdin = [], failed = False\<rparr>,
         \<lparr>argv = name # args, stdin = [], failed = True\<rparr>,
         \<lparr>argv = [''cryptsetup'', ''luksOpen'', imagePath d, mapName d, ''--key-file'', ''-''], stdin = stdoutOf printer, failed = False\<rparr>]
    \<and> (\<forall>h3. Enc_Unmount d h3 = Return (Some (DriveE ErrDriveNotMounted), d, h3)
        \<and> (\<forall>e' d' h4. Enc_Delete d h3 = Return (e', d', h4) \<longrightarrow> cmdLog h4 = cmdLog h3))"
proof -
  have h1: "replies h1 = isLuks # printer # luksOpen # rs" "cmdLog h1 = cmdLog h" using on_fs_keeps [OF assms(8)] assms(9) by simp_all
  have d: "d\<lparr>key := Some (CommandKey name args)\<rparr> = d" using assms(1) by (cases d) simp
  obtain e h2 where m: "Enc_Mount mp d h = Return (Some e, d, h2)" and l: "cmdLog h2 = cmdLog h @
        [\<lparr>argv = [''cryptsetup'', ''isLuks'', imagePath d], stdin = [], failed = False\<rparr>,
         \<lparr>argv = name # args, stdin = [], failed = True\<rparr>,
         \<lparr>argv = [''cryptsetup'', ''luksOpen'', imagePath d, mapName d, ''--key-file'', ''-''], stdin = stdoutOf printer, failed = False\<rparr>]"
    using assms h1 d
    by (simp add: Enc_Mount_def mount_luks_def ensureLUKSImage_def runCmd_def exec_def exec_input_def next_reply_def luks_open_def
        runCryptsetupWithKey_def runCmdWithStdin_def CommandKey_WithReader_def and_then_def Let_def)
  have "mapping_open (mapName d) h2" by (simp add: mapping_open_def l opens_def closes_def)
  moreover have u: "Enc_Unmount d h3 = Return (Some (DriveE ErrDriveNotMounted), d, h3)" for h3
    using assms(3,4) by (simp add: Enc_Unmount_def unmount_begin_def)
  moreover have "cmdLog h4 = cmdLog h3" if "Enc_Delete d h3 = Return (e', d', h4)" for h3 e' d' h4
    using that u [of h3] Destroy_ran
    by (auto simp: Enc_Delete_def delete_work_def enc_delete_end_def split: prod.splits option.splits if_splits)
  ultimately show ?thesis using m l by blast
qed

text \<open>The key command prints two bytes, and \<open>cryptsetup\<close> reads them.\<close>

theorem command_key_leaves_mapping_open_witness:
  "\<exists>e h'. Enc_Mount ''/mnt'' (secret_drive ''/x.img'' (CommandKey ''getkey'' [])) (secret_host [silent, exits\<lparr>stdoutOf := [115, 51]\<rparr>, silent])
        = Return (Some e, secret_drive ''/x.img'' (CommandKey ''getkey'' []), h')
     \<and> mapping_open (mapName (secret_drive ''/x.img'' (CommandKey ''getkey'' []))) h' \<and> stdin (last (cmdLog h')) = [115, 51]"
proof -
  let ?d = "secret_drive ''/x.img'' (CommandKey ''getkey'' [])" and ?h = "secret_host [silent, exits\<lparr>stdoutOf := [115, 51]\<rparr>, silent]"
  have d: "key ?d = Some (CommandKey ''getkey'' [])" "\<not> mounted ?d" "\<not> unMounting ?d" "imagePath ?d = ''/x.img''"
    by (simp_all add: secret_drive_def newEncryptedDrive_def)
  have h: "geteuid ?h = 0" "replies ?h = silent # exits\<lparr>stdoutOf := [115, 51]\<rparr> # silent # []" by (simp_all add: secret_host_def)
  have st: "on_fs (fs_Stat (imagePath ?d)) ?h = (Inr (False, 1), ?h)" using secret_stat(1) d(4) by simp
  have r: "startErr silent = None" "exitErr silent = None" "startErr (exits\<lparr>stdoutOf := [115, 51]\<rparr>) = None"
    "exitErr (exits\<lparr>stdoutOf := [115, 51]\<rparr>) = Some (External 1)" by (simp_all add: silent_def exits_def)
  have "''getkey'' \<noteq> ''''" "''/mnt'' \<noteq> ''''" by simp_all
  from command_key_leaves_mapping_open [OF d(1) this(1) d(2,3) this(2) h(1) secret_tools st h(2) r(1-4) r(1,2)]
  show ?thesis by (elim exE conjE) (rule exI, rule exI, intro conjI, assumption, assumption, simp)
qed

section \<open>One-shot keys, deleting, and the plain drive\<close>

lemma and_then_None:
  "and_then r msg f = Return (None, d', h') \<Longrightarrow> \<exists>d1 h1. r = Return (None, d1, h1) \<and> f d1 h1 = Return (None, d', h')"
  by (auto simp: and_then_def split: outcome.splits option.splits)

lemma plain_None: "plain r d = Return (None, d1, h1) \<Longrightarrow> d1 = d"
  by (auto split: prod.splits)

lemma one_shot_run:
  assumes "runCryptsetupWithKey args d h = Return (e, d', h')" and "key d = Some (OneShotKey used k)"
  shows "(e = None \<longrightarrow> \<not> used \<and> key d' = Some (OneShotKey True None))"
  using assms by (auto simp: runCryptsetupWithKey_def split: prod.splits if_splits option.splits)

lemma one_shot_create_fails:
  assumes "key d = Some (OneShotKey used k)"
  shows "createLUKSImage d p h \<noteq> Return (None, d', h')"
proof
  assume a: "createLUKSImage d p h = Return (None, d', h')"
  then have pos: "\<not> sint (sizeBytes p) \<le> 0" by (auto simp: createLUKSImage_def)
  note a' = a [unfolded createLUKSImage_def if_not_P [OF pos]]
  from and_then_None [OF a'] obtain d1 h1 where s1: "plain (on_fs (fs_MkdirAll (path_Dir (imagePath d))) h) d = Return (None, d1, h1)"
    and a1: "and_then (plain (runCmd [''truncate'', ''-s'', itoa_int (sint (sizeBytes p)), imagePath d1] h1) d1)
             ''failed to create encrypted image''
          (\<lambda>d h. and_then (runCryptsetupWithKey
                (''--batch-mode'' # ''--type'' # ''luks2'' # ''luksFormat'' # [imagePath d, ''--key-file'', ''-'']) d h)
             ''failed to format encrypted image''
          (\<lambda>d h. and_then (luks_open d h) ''failed to open newly formatted encrypted image''
          (\<lambda>d h. (case runCmd [''mkfs.ext4'', ''-F'', mapperPath d] h of
                    (Some e, h1) \<Rightarrow> Return (Some (Wrap ''failed to format encrypted mapper filesystem'' e), d, luks_close d h1)
                  | (None, h1) \<Rightarrow> Return (None, d, luks_close d h1))))) = Return (None, d', h')" by blast
  from and_then_None [OF a1] obtain d2 h2 where s2: "plain (runCmd [''truncate'', ''-s'', itoa_int (sint (sizeBytes p)), imagePath d1] h1) d1 = Return (None, d2, h2)"
    and a2: "and_then (runCryptsetupWithKey
                (''--batch-mode'' # ''--type'' # ''luks2'' # ''luksFormat'' # [imagePath d2, ''--key-file'', ''-'']) d2 h2)
             ''failed to format encrypted image''
          (\<lambda>d h. and_then (luks_open d h) ''failed to open newly formatted encrypted image''
          (\<lambda>d h. (case runCmd [''mkfs.ext4'', ''-F'', mapperPath d] h of
                    (Some e, h1) \<Rightarrow> Return (Some (Wrap ''failed to format encrypted mapper filesystem'' e), d, luks_close d h1)
                  | (None, h1) \<Rightarrow> Return (None, d, luks_close d h1)))) = Return (None, d', h')" by blast
  have k2: "key d2 = Some (OneShotKey used k)" using plain_None [OF s1] plain_None [OF s2] assms by simp
  from and_then_None [OF a2] obtain d3 h3 where
    s3: "runCryptsetupWithKey (''--batch-mode'' # ''--type'' # ''luks2'' # ''luksFormat'' # [imagePath d2, ''--key-file'', ''-'']) d2 h2
        = Return (None, d3, h3)"
    and a3: "and_then (luks_open d3 h3) ''failed to open newly formatted encrypted image''
          (\<lambda>d h. (case runCmd [''mkfs.ext4'', ''-F'', mapperPath d] h of
                    (Some e, h1) \<Rightarrow> Return (Some (Wrap ''failed to format encrypted mapper filesystem'' e), d, luks_close d h1)
                  | (None, h1) \<Rightarrow> Return (None, d, luks_close d h1))) = Return (None, d', h')" by blast
  from one_shot_run [OF s3 k2] have k3: "key d3 = Some (OneShotKey True None)" by simp
  from and_then_None [OF a3] obtain d4 h4 where "luks_open d3 h3 = Return (None, d4, h4)" by blast
  with one_shot_run [OF this [unfolded luks_open_def] k3] show False by simp
qed

text \<open>
  An encrypted drive with a one-shot key can never create its image. Creating needs the key twice, to format the container
  and to open it for the filesystem, and mounting a third time: when the image does not exist, no mount of such a drive
  succeeds, whatever the commands do.
\<close>

theorem one_shot_key_cannot_create:
  assumes "key d = Some (OneShotKey used k)" and "on_fs (fs_Stat (imagePath d)) h = (Inl e, h1)" and "mp \<noteq> ''''"
  shows "Enc_Mount mp d h \<noteq> Return (None, d', h')"
proof
  assume m: "Enc_Mount mp d h = Return (None, d', h')"
  then have "mount_luks mp d h = Return (None, d', h')"
    using assms(3) by (auto simp: Enc_Mount_def split: if_splits option.splits)
  then obtain d1 h2 where "ensureLUKSImage d h = Return (None, d1, h2)"
    by (auto simp: mount_luks_def split: outcome.splits option.splits)
  with assms(2) obtain p where "createLUKSImage d p h1 = Return (None, d1, h2)"
    by (auto simp: ensureLUKSImage_def split: if_splits option.splits)
  with one_shot_create_fails [OF assms(1)] show False by blast
qed

theorem one_shot_key_cannot_create_witness:
  "(\<nexists>d h. Enc_Mount ''/mnt'' (secret_drive ''/y.img'' (OneShotKey False (Some (InMemoryKey (Some 0))))) (secret_host []) = Return (None, d, h))
     \<and> imagePath (secret_drive ''/y.img'' (OneShotKey False (Some (InMemoryKey (Some 0))))) = ''/y.img''"
proof -
  let ?d = "secret_drive ''/y.img'' (OneShotKey False (Some (InMemoryKey (Some 0))))"
  have k: "key ?d = Some (OneShotKey False (Some (InMemoryKey (Some 0))))" "imagePath ?d = ''/y.img''"
    by (simp_all add: secret_drive_def newEncryptedDrive_def)
  have "on_fs (fs_Stat (imagePath ?d)) (secret_host []) = (Inl (LibE ErrNotExist), secret_host [])" using k(2) secret_stat(2) by simp
  from one_shot_key_cannot_create [OF k(1) this] k(2) show ?thesis by simp
qed

lemma unmount_key:
  "Enc_Unmount d h = Return (e, d', h') \<Longrightarrow> key d' = key d"
proof -
  have b: "unmount_begin d = (x, d1) \<Longrightarrow> key d1 = key d" for x d1 by (auto simp: unmount_begin_def split: if_splits)
  have en: "unmount_end r d1 = (x, d2) \<Longrightarrow> key d2 = key d1" for r d1 x and d2 :: encrypted_drive by (cases r) auto
  show "Enc_Unmount d h = Return (e, d', h') \<Longrightarrow> key d' = key d"
    by (auto simp: Enc_Unmount_def split: prod.splits option.splits if_splits dest!: en b)
qed

text \<open>
  C28: Deleting an encrypted drive destroys its key: after a successful \<open>Delete\<close> every byte array that the key held is zero, the
  drive has no key, no options and no mount, and mounting it again dereferences its nil options.
\<close>

theorem delete_destroys_key:
  assumes "Enc_Delete d h = Return (None, d', h')" and "key d = Some k"
  shows "(\<forall>a \<in> key_arrays k. set (mem h' a) \<subseteq> {0}) \<and> key d' = None \<and> params d' = None \<and> \<not> mounted d'
    \<and> Enc_Mount '''' d' h1 = Panic"
proof -
  from assms(1) obtain e d1 h2 h3 where u: "Enc_Unmount d h = Return (e, d1, h2)" and r: "enc_delete_end d1 h3 = (d', h')"
    by (auto simp: Enc_Delete_def split: outcome.splits if_splits prod.splits option.splits)
  have k: "key d1 = Some k" using unmount_key [OF u] assms(2) by simp
  obtain k' h4 where ds: "Destroy k h3 = (k', h4)" by (cases "Destroy k h3")
  have d': "d' = (delete_end d1)\<lparr>key := None\<rparr>" "h' = h4" using r k ds by (simp_all add: enc_delete_end_def)
  then show ?thesis using Destroy_mem [OF ds] by (auto simp: delete_end_def Enc_Mount_def)
qed

theorem delete_destroys_key_witness:
  "\<exists>d' h'. Enc_Delete (secret_drive ''/x.img'' (InMemoryKey (Some 0))) (secret_host []) = Return (None, d', h')
     \<and> set (mem h' 0) \<subseteq> {0} \<and> key d' = None"
proof -
  obtain d' h' where r: "Enc_Delete (secret_drive ''/x.img'' (InMemoryKey (Some 0))) (secret_host []) = Return (None, d', h')"
    by (simp add: Enc_Delete_def Enc_Unmount_def unmount_begin_def delete_work_def delete_snapshot_def enc_delete_end_def
        secret_drive_def newEncryptedDrive_def NewDriveOptions_def)
  have "key (secret_drive ''/x.img'' (InMemoryKey (Some 0))) = Some (InMemoryKey (Some 0))"
    by (simp add: secret_drive_def newEncryptedDrive_def)
  from delete_destroys_key [OF r this] r show ?thesis by auto
qed

text \<open>The result of a call on the plain drive inside an encrypted one.\<close>

definition with_key :: "key option \<Rightarrow> drive \<Rightarrow> encrypted_drive" where
  "with_key k b =
     \<lparr>params = params b, imagePath = imagePath b, mounted = mounted b, mountPoint = mountPoint b, unmountFunc = unmountFunc b,
      ioWG = ioWG b, unMounting = unMounting b, key = k\<rparr>"

definition lift_plain :: "key option \<Rightarrow> (error option \<times> drive \<times> host) outcome \<Rightarrow> (error option \<times> encrypted_drive \<times> host) outcome" where
  "lift_plain k r = (case r of Return (e, b, h) \<Rightarrow> Return (e, with_key k b, h) | Panic \<Rightarrow> Panic | Blocked \<Rightarrow> Blocked)"

lemma with_key_truncate [simp]: "with_key (key d) (drive.truncate d) = d"
  by (cases d) (simp add: with_key_def drive.truncate_def)

lemma enc_write_plain:
  "Enc_Validate d \<Longrightarrow> Enc_WriteToDrive fp r d h = lift_plain (key d) (WriteToDrive fp r (drive.truncate d) h)"
  by (cases d)
    (auto simp: Enc_Validate_def Enc_WriteToDrive_def WriteToDrive_def Base_Validate_def enc_write_begin_def write_begin_def
      drive.truncate_def lift_plain_def with_key_def io_end_def FSType_def split: option.splits if_splits)

end
