(* ===== verification/Drive_Lifecycle.thy ===== *)
theory Drive_Lifecycle
  imports Encrypted_Drive
begin

text \<open>
  Several goroutines on one drive. A step is one critical section of a method, or the work of one goroutine between two of
  them; the program counter of each goroutine says which piece comes next, with what it read before. The relation is written
  once, for the operations in which the two kinds of drives differ (mounting, the start of a write, validation), and its
  invariant is proved once in the locale \<open>lifecycle\<close>, from what these operations promise; both drives interpret it.
  \<open>Delete\<close> has a relation of its own, \<open>delete_step\<close>, on top of the others: with it the invariant fails.
\<close>

section \<open>The goroutines\<close>

datatype pc =
    Idle
  | WriteChecked string conn
  | Writing string string conn
  | LoadChecked string
  | Loading string string
  | IOFinished
  | Waiting
  | Waited
  | Unmounting "unmount_fn option" string bool
  | UnmountDone unmount_result
  | Deleting bool string
  | DeleteReady

record 'z sys =
  dr :: "'z drive_scheme"
  hs :: host
  pcs :: "pc list"

text \<open>The goroutine \<open>i\<close> is at \<open>p\<close>, and its move to \<open>q\<close> with a new drive and machine.\<close>

definition at :: "'z sys \<Rightarrow> nat \<Rightarrow> pc \<Rightarrow> bool" where
  "at s i p \<longleftrightarrow> i < length (pcs s) \<and> pcs s ! i = p"

definition move :: "'z sys \<Rightarrow> nat \<Rightarrow> pc \<Rightarrow> 'z drive_scheme \<Rightarrow> host \<Rightarrow> 'z sys" where
  "move s i q d h = s\<lparr>dr := d, hs := h, pcs := (pcs s)[i := q]\<rparr>"

inductive lstep ::
  "(string \<Rightarrow> 'z drive_scheme \<Rightarrow> host \<Rightarrow> (error option \<times> 'z drive_scheme \<times> host) outcome)
   \<Rightarrow> ('z drive_scheme \<Rightarrow> (string result \<times> 'z drive_scheme) outcome)
   \<Rightarrow> ('z drive_scheme \<Rightarrow> bool) \<Rightarrow> 'z sys \<Rightarrow> 'z sys \<Rightarrow> bool" for M W V where
  mount: "at s i Idle \<Longrightarrow> M mp (dr s) (hs s) = Return (e, d', h') \<Longrightarrow> lstep M W V s (move s i Idle d' h')"
| write_check: "at s i Idle \<Longrightarrow> fp \<noteq> '''' \<Longrightarrow> V (dr s) \<Longrightarrow> lstep M W V s (move s i (WriteChecked fp r) (dr s) (hs s))"
| write_go: "at s i (WriteChecked fp r) \<Longrightarrow> W (dr s) = Return (Inr mp, d') \<Longrightarrow> lstep M W V s (move s i (Writing mp fp r) d' (hs s))"
| write_no: "at s i (WriteChecked fp r) \<Longrightarrow> W (dr s) = Return (Inl e, d') \<Longrightarrow> lstep M W V s (move s i Idle d' (hs s))"
| write_work: "at s i (Writing mp fp r) \<Longrightarrow> write_file (getwd (hs s)) mp fp r (files (hs s)) = Some (e, fs') \<Longrightarrow>
    lstep M W V s (move s i IOFinished (dr s) ((hs s)\<lparr>files := fs'\<rparr>))"
| load_check: "at s i Idle \<Longrightarrow> fp \<noteq> '''' \<Longrightarrow> V (dr s) \<Longrightarrow> lstep M W V s (move s i (LoadChecked fp) (dr s) (hs s))"
| load_go: "at s i (LoadChecked fp) \<Longrightarrow> load_begin (dr s) = (Inr mp, d') \<Longrightarrow> lstep M W V s (move s i (Loading mp fp) d' (hs s))"
| load_no: "at s i (LoadChecked fp) \<Longrightarrow> load_begin (dr s) = (Inl e, d') \<Longrightarrow> lstep M W V s (move s i Idle d' (hs s))"
| load_work: "at s i (Loading mp fp) \<Longrightarrow> on_fs (load_file (getwd (hs s)) mp fp) (hs s) = (x, h') \<Longrightarrow>
    lstep M W V s (move s i IOFinished (dr s) h')"
| io_finish: "at s i IOFinished \<Longrightarrow> lstep M W V s (move s i Idle (io_end (dr s)) (hs s))"
| unmount_start: "at s i Idle \<Longrightarrow> unmount_begin (dr s) = (None, d') \<Longrightarrow> lstep M W V s (move s i Waiting d' (hs s))"
| unmount_wait: "at s i Waiting \<Longrightarrow> ioWG (dr s) = 0 \<Longrightarrow> lstep M W V s (move s i Waited (dr s) (hs s))"
| unmount_read: "at s i Waited \<Longrightarrow> unmount_snapshot (dr s) = (f, mp, eph) \<Longrightarrow>
    lstep M W V s (move s i (Unmounting f mp eph) (dr s) (hs s))"
| unmount_run: "at s i (Unmounting (Some f) mp eph) \<Longrightarrow> unmount_work f mp eph (hs s) = (x, h') \<Longrightarrow>
    lstep M W V s (move s i (UnmountDone x) (dr s) h')"
| unmount_finish: "at s i (UnmountDone x) \<Longrightarrow> unmount_end x (dr s) = (e, d') \<Longrightarrow> lstep M W V s (move s i Idle d' (hs s))"

text \<open>\<open>Delete\<close> on a drive that is not mounted: it has seen that, removes the image and then clears the drive.\<close>

inductive delete_step :: "'z sys \<Rightarrow> 'z sys \<Rightarrow> bool" where
  delete_start: "at s i Idle \<Longrightarrow> unmount_begin (dr s) = (Some (DriveE ErrDriveNotMounted), d') \<Longrightarrow> delete_snapshot d' = (eph, img) \<Longrightarrow>
    delete_step s (move s i (Deleting eph img) d' (hs s))"
| delete_image: "at s i (Deleting eph img) \<Longrightarrow> delete_work eph img (hs s) = (None, h') \<Longrightarrow> delete_step s (move s i DeleteReady (dr s) h')"
| delete_clear: "at s i DeleteReady \<Longrightarrow> delete_step s (move s i Idle (delete_end (dr s)) (hs s))"

section \<open>The invariant\<close>

fun is_io :: "pc \<Rightarrow> bool" where
  "is_io (Writing mp fp r) = True"
| "is_io (Loading mp fp) = True"
| "is_io IOFinished = True"
| "is_io _ = False"

fun is_unmount :: "pc \<Rightarrow> bool" where
  "is_unmount Waiting = True"
| "is_unmount Waited = True"
| "is_unmount (Unmounting f mp eph) = True"
| "is_unmount (UnmountDone x) = True"
| "is_unmount _ = False"

definition past_wait :: "pc \<Rightarrow> bool" where
  "past_wait p \<longleftrightarrow> is_unmount p \<and> p \<noteq> Waiting"

definition how_many :: "(pc \<Rightarrow> bool) \<Rightarrow> 'z sys \<Rightarrow> nat" where
  "how_many P s = length (filter P (pcs s))"

text \<open>
  The wait group counts the goroutines that do I/O; at most one goroutine unmounts, and only on a mounted drive that says
  so; after its wait nobody does I/O; what it read is what the drive still holds.
\<close>

definition lifecycle_inv :: "'z sys \<Rightarrow> bool" where
  "lifecycle_inv s \<longleftrightarrow>
     ioWG (dr s) = how_many is_io s
     \<and> how_many is_unmount s \<le> 1
     \<and> (0 < how_many is_unmount s \<longrightarrow> unMounting (dr s) \<and> mounted (dr s))
     \<and> (0 < how_many past_wait s \<longrightarrow> how_many is_io s = 0)
     \<and> (mounted (dr s) \<longrightarrow> unmountFunc (dr s) \<noteq> None \<and> params (dr s) \<noteq> None)
     \<and> (unMounting (dr s) \<longrightarrow> mounted (dr s))
     \<and> (\<forall>i f mp eph. at s i (Unmounting f mp eph) \<longrightarrow> f = unmountFunc (dr s) \<and> mp = mountPoint (dr s))"

lemma filter_update:
  "i < length xs \<Longrightarrow>
   length (filter P (xs[i := x])) + (if P (xs ! i) then 1 else 0) = length (filter P xs) + (if P x then 1 else 0)"
proof (induction xs arbitrary: i)
  case (Cons y ys)
  then show ?case by (cases i) auto
qed simp

lemma how_many_move:
  "at s i p \<Longrightarrow> how_many P (move s i q d h) + (if P p then 1 else 0) = how_many P s + (if P q then 1 else 0)"
  using filter_update [of i "pcs s" P q] by (auto simp: how_many_def move_def at_def)

lemma at_move: "at (move s i q d h) j p \<longleftrightarrow> (if j = i then i < length (pcs s) \<and> p = q else at s j p)"
  by (auto simp: at_def move_def)

lemma at_how_many: "at s i p \<Longrightarrow> P p \<Longrightarrow> 0 < how_many P s"
proof -
  assume "at s i p" "P p"
  then have "p \<in> set (pcs s)" by (auto simp: at_def)
  with \<open>P p\<close> have "filter P (pcs s) \<noteq> []" by (auto simp: filter_empty_conv)
  then show ?thesis by (simp add: how_many_def)
qed

lemma how_many_none: "how_many P s = 0 \<Longrightarrow> at s i p \<Longrightarrow> \<not> P p"
  using at_how_many [of s i p P] by auto

lemma how_many_past: "how_many past_wait s \<le> how_many is_unmount s"
proof -
  have "length (filter past_wait ps) \<le> length (filter is_unmount ps)" for ps
    by (induction ps) (auto simp: past_wait_def)
  then show ?thesis by (simp add: how_many_def)
qed

lemma move_fields [simp]: "dr (move s i q d h) = d" "hs (move s i q d h) = h"
  by (simp_all add: move_def)

text \<open>
  A move that changes neither the counted state of the drive nor the kind of the goroutine keeps the invariant.
\<close>

definition same_life :: "'z drive_scheme \<Rightarrow> 'z drive_scheme \<Rightarrow> bool" where
  "same_life d d' \<longleftrightarrow> ioWG d' = ioWG d \<and> mounted d' = mounted d \<and> unMounting d' = unMounting d \<and> unmountFunc d' = unmountFunc d
     \<and> mountPoint d' = mountPoint d \<and> params d' = params d"

lemma same_life_refl [simp]: "same_life d d"
  by (simp add: same_life_def)

lemma inv_unmounting:
  "lifecycle_inv s \<Longrightarrow> at s j (Unmounting f mp eph) \<Longrightarrow> f = unmountFunc (dr s) \<and> mp = mountPoint (dr s)"
  unfolding lifecycle_inv_def by blast

lemma inv_move:
  assumes "lifecycle_inv s" and "at s i p" and "is_io q = is_io p" and "is_unmount q = is_unmount p" and "past_wait q = past_wait p"
    and "same_life (dr s) d'" and "\<And>f mp eph. q = Unmounting f mp eph \<Longrightarrow> f = unmountFunc d' \<and> mp = mountPoint d'"
  shows "lifecycle_inv (move s i q d' h')"
proof -
  have n: "how_many is_io (move s i q d' h') = how_many is_io s" "how_many is_unmount (move s i q d' h') = how_many is_unmount s"
    "how_many past_wait (move s i q d' h') = how_many past_wait s"
    using how_many_move [OF assms(2), of is_io q d' h'] how_many_move [OF assms(2), of is_unmount q d' h']
      how_many_move [OF assms(2), of past_wait q d' h'] assms(3-5) by auto
  have a: "f = unmountFunc d' \<and> mp = mountPoint d'" if "at (move s i q d' h') j (Unmounting f mp eph)" for j f mp eph
  proof (cases "j = i")
    case True
    with that assms(7) [of f mp eph] show ?thesis by (simp add: at_move)
  next
    case False
    with that have "at s j (Unmounting f mp eph)" by (simp add: at_move)
    then have "f = unmountFunc (dr s) \<and> mp = mountPoint (dr s)" by (rule inv_unmounting [OF assms(1)])
    with assms(6) show ?thesis by (simp add: same_life_def)
  qed
  show ?thesis
    unfolding lifecycle_inv_def n move_fields
    by (intro conjI allI impI a) (use assms(1,6) in \<open>simp_all add: lifecycle_inv_def same_life_def\<close>)
qed

section \<open>What the operations promise, and the invariant of every run\<close>

locale lifecycle =
  fixes M :: "string \<Rightarrow> 'z drive_scheme \<Rightarrow> host \<Rightarrow> (error option \<times> 'z drive_scheme \<times> host) outcome"
    and W :: "'z drive_scheme \<Rightarrow> (string result \<times> 'z drive_scheme) outcome"
    and V :: "'z drive_scheme \<Rightarrow> bool"
  assumes mount_fails: "M mp d h = Return (Some x, d', h') \<Longrightarrow> same_life d d'"
    and mount_succeeds: "M mp d h = Return (None, d', h') \<Longrightarrow>
      \<not> mounted d \<and> \<not> unMounting d \<and> params d \<noteq> None \<and> mounted d' \<and> unmountFunc d' \<noteq> None
        \<and> ioWG d' = ioWG d \<and> unMounting d' = unMounting d \<and> params d' = params d"
    and write_counts: "W d = Return (Inr mp, d') \<Longrightarrow> mounted d \<and> \<not> unMounting d \<and> mp = mountPoint d \<and> d' = d\<lparr>ioWG := Suc (ioWG d)\<rparr>"
    and write_refuses: "W d = Return (Inl x, d') \<Longrightarrow> d' = d"
    and write_panics: "W d = Panic \<Longrightarrow> mounted d \<and> params d = None"
begin

lemma inv_mount:
  assumes inv: "lifecycle_inv s" and at: "at s i Idle" and m: "M mp (dr s) (hs s) = Return (e, d', h')"
  shows "lifecycle_inv (move s i Idle d' h')"
proof (cases e)
  case (Some x)
  show ?thesis by (rule inv_move [OF inv at _ _ _ mount_fails]) (use m Some in auto)
next
  case None
  note ok = mount_succeeds [OF m [unfolded None]]
  have u: "how_many is_unmount s = 0" using inv ok unfolding lifecycle_inv_def by auto
  have n: "how_many P (move s i Idle d' h') = how_many P s" for P using how_many_move [OF at, of P Idle d' h'] by simp
  have "\<not> at s j (Unmounting f mp' eph)" for j f mp' eph using how_many_none [OF u] by fastforce
  then show ?thesis using inv ok u unfolding lifecycle_inv_def n move_fields at_move by (auto split: if_splits)
qed

lemma inv_io_start:
  assumes inv: "lifecycle_inv s" and at: "at s i p" and p: "\<not> is_io p" "\<not> is_unmount p" and q: "is_io q" "\<not> is_unmount q"
    and m: "mounted (dr s)" "\<not> unMounting (dr s)"
  shows "lifecycle_inv (move s i q ((dr s)\<lparr>ioWG := Suc (ioWG (dr s))\<rparr>) h')"
proof -
  let ?s = "move s i q ((dr s)\<lparr>ioWG := Suc (ioWG (dr s))\<rparr>) h'"
  have u: "how_many is_unmount s = 0" using inv m unfolding lifecycle_inv_def by auto
  have n: "how_many is_io ?s = Suc (how_many is_io s)" "how_many is_unmount ?s = 0" "how_many past_wait ?s = 0"
    using how_many_move [OF at, of is_io q "(dr s)\<lparr>ioWG := Suc (ioWG (dr s))\<rparr>" h'] how_many_past [of ?s]
      how_many_move [OF at, of is_unmount q "(dr s)\<lparr>ioWG := Suc (ioWG (dr s))\<rparr>" h'] p q u by auto
  have "\<not> at ?s j (Unmounting f mp' eph)" for j f mp' eph using how_many_none [OF n(2)] by fastforce
  then show ?thesis using inv m n(1,2,3) unfolding lifecycle_inv_def move_fields by auto
qed

lemma inv_io_finish:
  assumes inv: "lifecycle_inv s" and at: "at s i IOFinished"
  shows "lifecycle_inv (move s i Idle (io_end (dr s)) h')"
proof -
  obtain d' where d': "d' = io_end (dr s)" by simp
  then have f: "ioWG d' = ioWG (dr s) - 1" "mounted d' = mounted (dr s)" "unMounting d' = unMounting (dr s)"
    "unmountFunc d' = unmountFunc (dr s)" "params d' = params (dr s)" "mountPoint d' = mountPoint (dr s)" by (simp_all add: io_end_def)
  let ?s = "move s i Idle d' h'"
  have n: "Suc (how_many is_io ?s) = how_many is_io s" "how_many is_unmount ?s = how_many is_unmount s"
      "how_many past_wait ?s = how_many past_wait s"
    using how_many_move [OF at, of is_io Idle d' h'] how_many_move [OF at, of is_unmount Idle d' h']
      how_many_move [OF at, of past_wait Idle d' h'] by (auto simp: past_wait_def)
  have a: "g = unmountFunc d' \<and> mp = mountPoint d'" if "at ?s j (Unmounting g mp eph)" for j g mp eph
    unfolding f by (rule inv_unmounting [OF inv, of j]) (use that in \<open>auto simp: at_move split: if_splits\<close>)
  have "lifecycle_inv ?s"
    unfolding lifecycle_inv_def n(2,3) move_fields
    by (intro conjI allI impI a) (use inv n(1) in \<open>auto simp: lifecycle_inv_def f\<close>)
  with d' show ?thesis by simp
qed

lemma inv_unmount_start:
  assumes inv: "lifecycle_inv s" and at: "at s i Idle" and b: "unmount_begin (dr s) = (None, d')"
  shows "lifecycle_inv (move s i Waiting d' h')"
proof -
  let ?s = "move s i Waiting d' h'"
  have d: "mounted (dr s)" "\<not> unMounting (dr s)" "d' = (dr s)\<lparr>unMounting := True\<rparr>"
    using b by (auto simp: unmount_begin_def split: if_splits)
  have u: "how_many is_unmount s = 0" using inv d unfolding lifecycle_inv_def by auto
  have n: "how_many is_io ?s = how_many is_io s" "how_many is_unmount ?s = 1" "how_many past_wait ?s = 0"
    using how_many_move [OF at, of is_io Waiting d' h'] how_many_move [OF at, of is_unmount Waiting d' h'] u how_many_past [of s]
      how_many_move [OF at, of past_wait Waiting d' h'] by (auto simp: past_wait_def)
  have "\<not> at s j (Unmounting f mp' eph)" for j f mp' eph using how_many_none [OF u] by fastforce
  then show ?thesis using inv d n unfolding lifecycle_inv_def move_fields at_move by (auto split: if_splits)
qed

lemma inv_unmount_wait:
  assumes inv: "lifecycle_inv s" and at: "at s i Waiting" and w: "ioWG (dr s) = 0"
  shows "lifecycle_inv (move s i Waited (dr s) h')"
proof -
  let ?s = "move s i Waited (dr s) h'"
  have n: "how_many is_io ?s = 0" "how_many is_unmount ?s = how_many is_unmount s"
    using how_many_move [OF at, of is_io Waited "dr s" h'] how_many_move [OF at, of is_unmount Waited "dr s" h'] inv w
    by (auto simp: lifecycle_inv_def)
  have a: "g = unmountFunc (dr s) \<and> mp = mountPoint (dr s)" if "at ?s j (Unmounting g mp eph)" for j g mp eph
    by (rule inv_unmounting [OF inv, of j]) (use that in \<open>auto simp: at_move split: if_splits\<close>)
  show ?thesis
    unfolding lifecycle_inv_def n move_fields
    by (intro conjI allI impI a) (use inv w in \<open>auto simp: lifecycle_inv_def\<close>)
qed

lemma inv_unmount_finish:
  assumes inv: "lifecycle_inv s" and at: "at s i (UnmountDone x)" and f: "unmount_end x (dr s) = (e, d')"
  shows "lifecycle_inv (move s i Idle d' h')"
proof -
  let ?s = "move s i Idle d' h'"
  have u: "how_many is_unmount s = 1" using inv at_how_many [OF at, of is_unmount] unfolding lifecycle_inv_def by auto
  have io: "how_many is_io s = 0" using inv at_how_many [OF at, of past_wait] unfolding lifecycle_inv_def by (auto simp: past_wait_def)
  have n: "how_many is_io ?s = 0" "how_many is_unmount ?s = 0" "how_many past_wait ?s = 0"
    using how_many_move [OF at, of is_io Idle d' h'] how_many_move [OF at, of is_unmount Idle d' h'] u io how_many_past [of ?s] by auto
  have "\<not> at ?s j (Unmounting g mp' eph)" for j g mp' eph using how_many_none [OF n(2)] by fastforce
  then show ?thesis using inv u io n f unfolding lifecycle_inv_def move_fields by (cases x) auto
qed

lemma inv_step:
  assumes "lstep M W V s s'" and "lifecycle_inv s"
  shows "lifecycle_inv s'"
  using assms
proof (cases rule: lstep.cases)
  case (mount i mp e d' h')
  with inv_mount assms(2) show ?thesis by blast
next
  case (write_check i fp r)
  show ?thesis unfolding write_check(1) by (rule inv_move [OF assms(2) write_check(2)]) (auto simp: past_wait_def)
next
  case (write_go i fp r mp d')
  note w = write_counts [OF write_go(3)]
  show ?thesis unfolding write_go(1) using w inv_io_start [OF assms(2) write_go(2), of "Writing mp fp r" "hs s"] by simp
next
  case (write_no i fp r e d')
  show ?thesis unfolding write_no(1) write_refuses [OF write_no(3)]
    by (rule inv_move [OF assms(2) write_no(2)]) (auto simp: past_wait_def)
next
  case (write_work i mp fp r e fs')
  show ?thesis unfolding write_work(1) by (rule inv_move [OF assms(2) write_work(2)]) (auto simp: past_wait_def)
next
  case (load_check i fp)
  show ?thesis unfolding load_check(1) by (rule inv_move [OF assms(2) load_check(2)]) (auto simp: past_wait_def)
next
  case (load_go i fp mp d')
  then have w: "mounted (dr s)" "\<not> unMounting (dr s)" "d' = (dr s)\<lparr>ioWG := Suc (ioWG (dr s))\<rparr>"
    by (auto simp: load_begin_def split: if_splits)
  show ?thesis unfolding load_go(1) using w inv_io_start [OF assms(2) load_go(2), of "Loading mp fp" "hs s"] by simp
next
  case (load_no i fp e d')
  then have "d' = dr s" by (auto simp: load_begin_def split: if_splits)
  then show ?thesis unfolding load_no(1) using inv_move [OF assms(2) load_no(2), of Idle d' "hs s"] by (simp add: past_wait_def)
next
  case (load_work i mp fp x h')
  show ?thesis unfolding load_work(1) by (rule inv_move [OF assms(2) load_work(2)]) (auto simp: past_wait_def)
next
  case (io_finish i)
  with inv_io_finish assms(2) show ?thesis by blast
next
  case (unmount_start i d')
  with inv_unmount_start assms(2) show ?thesis by blast
next
  case (unmount_wait i)
  with inv_unmount_wait assms(2) show ?thesis by blast
next
  case (unmount_read i f mp eph)
  show ?thesis unfolding unmount_read(1)
    by (rule inv_move [OF assms(2) unmount_read(2)]) (use unmount_read(3) in \<open>auto simp: past_wait_def unmount_snapshot_def\<close>)
next
  case (unmount_run i f mp eph x h')
  show ?thesis unfolding unmount_run(1) by (rule inv_move [OF assms(2) unmount_run(2)]) (auto simp: past_wait_def)
next
  case (unmount_finish i x e d')
  with inv_unmount_finish assms(2) show ?thesis by blast
qed

lemma inv_run: "(lstep M W V)\<^sup>*\<^sup>* s s' \<Longrightarrow> lifecycle_inv s \<Longrightarrow> lifecycle_inv s'"
  by (induction rule: rtranclp_induct) (auto intro: inv_step)

text \<open>What the invariant says of a goroutine that is about to run the unmount closure, and of one that starts a write.\<close>

lemma unmount_exclusive:
  assumes "(lstep M W V)\<^sup>*\<^sup>* s s'" and "lifecycle_inv s"
  shows "at s' i (Unmounting f mp eph) \<Longrightarrow>
      f \<noteq> None \<and> f = unmountFunc (dr s') \<and> mounted (dr s') \<and> (\<forall>j p. at s' j p \<longrightarrow> \<not> is_io p) \<and> how_many is_unmount s' = 1"
    and "W (dr s') \<noteq> Panic" and "ioWG (dr s') = how_many is_io s'"
proof -
  note inv = inv_run [OF assms]
  show "ioWG (dr s') = how_many is_io s'" using inv unfolding lifecycle_inv_def by blast
  have "mounted (dr s') \<Longrightarrow> params (dr s') \<noteq> None" using inv unfolding lifecycle_inv_def by blast
  then show "W (dr s') \<noteq> Panic" using write_panics [of "dr s'"] by (cases "W (dr s') = Panic") auto
  assume a: "at s' i (Unmounting f mp eph)"
  have u: "0 < how_many is_unmount s'" "0 < how_many past_wait s'" using at_how_many [OF a] by (auto simp: past_wait_def)
  then have "how_many is_io s' = 0" "how_many is_unmount s' = 1" "mounted (dr s')" "f = unmountFunc (dr s')"
    using inv a unfolding lifecycle_inv_def by auto
  moreover have "unmountFunc (dr s') \<noteq> None" using inv \<open>mounted (dr s')\<close> unfolding lifecycle_inv_def by blast
  ultimately show "f \<noteq> None \<and> f = unmountFunc (dr s') \<and> mounted (dr s') \<and> (\<forall>j p. at s' j p \<longrightarrow> \<not> is_io p) \<and> how_many is_unmount s' = 1"
    using how_many_none by blast
qed

end

section \<open>The two kinds of drives\<close>

lemma Mount_result:
  assumes "Mount mp d h = Return (e, d', h')"
  shows "case e of Some x \<Rightarrow> d' = d
    | None \<Rightarrow> \<not> mounted d \<and> \<not> unMounting d \<and> params d \<noteq> None \<and> (\<exists>mp' f. d' = set_mounted mp' f d)"
proof -
  have g: "mountWithGuestMount img mp' ro d h1 = (Some x, d', h') \<Longrightarrow> d' = d"
    "mountWithGuestMount img mp' ro d h1 = (None, d', h') \<Longrightarrow> \<exists>f. d' = set_mounted mp' f d" for img mp' ro h1 x
    by (auto simp: mountWithGuestMount_def Let_def split: if_splits prod.splits option.splits)
  have l: "mountWithLoopDevice img mp' t opts d h1 = (Some x, d', h') \<Longrightarrow> d' = d"
    "mountWithLoopDevice img mp' t opts d h1 = (None, d', h') \<Longrightarrow> \<exists>f. d' = set_mounted mp' f d" for img mp' t opts h1 x
    by (auto simp: mountWithLoopDevice_def Let_def split: if_splits prod.splits option.splits)
  show ?thesis using assms
    by (cases e) (auto simp: Mount_def Let_def split: if_splits option.splits sum.splits prod.splits dest: g(1) l(1) dest!: g(2) l(2))
qed

interpretation plain_drive: lifecycle Mount write_begin Base_Validate
proof
  fix mp d h x d' h'
  assume "Mount mp d h = Return (Some x, d', h')"
  from Mount_result [OF this] show "same_life d d'" by simp
next
  fix mp d h d' h'
  assume "Mount mp d h = Return (None, d', h')"
  from Mount_result [OF this] show "\<not> mounted d \<and> \<not> unMounting d \<and> params d \<noteq> None \<and> mounted d' \<and> unmountFunc d' \<noteq> None
        \<and> ioWG d' = ioWG d \<and> unMounting d' = unMounting d \<and> params d' = params d" by (auto simp: set_mounted_def)
qed (auto simp: write_begin_def split: if_splits option.splits)

text \<open>Mounting an encrypted drive changes nothing but the key until it sets the mount.\<close>

lemma and_then_truncate:
  assumes "and_then r msg f = Return (e, d', h')"
    and "\<And>e1 d1 h1. r = Return (e1, d1, h1) \<Longrightarrow> drive.truncate d1 = t"
    and "\<And>d1 h1. drive.truncate d1 = t \<Longrightarrow> f d1 h1 = Return (e, d', h') \<Longrightarrow> drive.truncate d' = t"
  shows "drive.truncate d' = t"
  using assms by (auto simp: and_then_def split: outcome.splits option.splits)

lemma crypt_truncate: "runCryptsetupWithKey args d h = Return (e, d', h') \<Longrightarrow> drive.truncate d' = drive.truncate d"
  by (auto simp: runCryptsetupWithKey_def drive.truncate_def split: option.splits prod.splits)

lemma createLUKSImage_truncate:
  "createLUKSImage d p h = Return (e, d', h') \<Longrightarrow> drive.truncate d' = drive.truncate d"
  unfolding createLUKSImage_def
  by (split if_split_asm, simp, erule and_then_truncate, fastforce split: prod.splits, erule and_then_truncate,
      fastforce split: prod.splits, erule and_then_truncate, metis crypt_truncate, erule and_then_truncate,
      metis crypt_truncate luks_open_def, fastforce split: prod.splits option.splits)

lemma ensureLUKSImage_truncate: "ensureLUKSImage d h = Return (e, d', h') \<Longrightarrow> drive.truncate d' = drive.truncate d"
  by (auto simp: ensureLUKSImage_def split: prod.splits sum.splits option.splits if_splits dest: createLUKSImage_truncate)

lemma mount_luks_result:
  assumes "mount_luks mp d h = Return (e, d', h')"
  shows "case e of Some x \<Rightarrow> drive.truncate d' = drive.truncate d
    | None \<Rightarrow> params d \<noteq> None \<and> (\<exists>d2. drive.truncate d2 = drive.truncate d \<and> d' = enc_set_mounted mp d2)"
proof -
  from assms obtain e1 d1 h1 where en: "ensureLUKSImage d h = Return (e1, d1, h1)" by (auto simp: mount_luks_def split: outcome.splits)
  note t1 = ensureLUKSImage_truncate [OF en]
  show ?thesis
  proof (cases e1)
    case (Some x)
    with assms en t1 show ?thesis by (auto simp: mount_luks_def)
  next
    case None
    with assms en obtain e2 d2 h2 where lo: "luks_open d1 h1 = Return (e2, d2, h2)"
      by (auto simp: mount_luks_def and_then_def split: outcome.splits)
    have t2: "drive.truncate d2 = drive.truncate d" using crypt_truncate lo t1 by (metis luks_open_def)
    then have "params d2 = params d" by (simp add: drive.truncate_def)
    with t2 assms en None lo show ?thesis
      by (cases e2) (auto simp: mount_luks_def and_then_def Let_def split: option.splits prod.splits)
  qed
qed

lemma Enc_Mount_result:
  assumes "Enc_Mount mp d h = Return (e, d', h')"
  shows "case e of Some x \<Rightarrow> drive.truncate d' = drive.truncate d
    | None \<Rightarrow> \<not> mounted d \<and> \<not> unMounting d \<and> params d \<noteq> None \<and> (\<exists>mp' d2. drive.truncate d2 = drive.truncate d \<and> d' = enc_set_mounted mp' d2)"
proof (cases "ensureEncryptionTooling h")
  case (Some x)
  from assms have "(\<exists>x. e = Some x) \<and> d' = d" by (auto simp: Enc_Mount_def Some split: if_splits)
  then show ?thesis by auto
next
  case None
  have m: "mount_luks mp' d h1 = Return (Some x, d', h') \<Longrightarrow> drive.truncate d' = drive.truncate d"
    "mount_luks mp' d h1 = Return (None, d', h') \<Longrightarrow>
       params d \<noteq> None \<and> (\<exists>d2. drive.truncate d2 = drive.truncate d \<and> d' = enc_set_mounted mp' d2)" for mp' h1 x
    using mount_luks_result [of mp' d h1 "Some x" d' h'] mount_luks_result [of mp' d h1 None d' h'] by simp_all
  show ?thesis
  proof (cases e)
    case (Some x)
    with assms None show ?thesis by (auto simp: Enc_Mount_def split: if_splits sum.splits prod.splits dest: m(1))
  next
    case e: None
    with assms None obtain mp' h1 where r: "mount_luks mp' d h1 = Return (None, d', h')" and "\<not> mounted d" "\<not> unMounting d"
      by (auto simp: Enc_Mount_def split: if_splits sum.splits prod.splits)
    with m(2) [OF r] e show ?thesis by auto
  qed
qed

interpretation encrypted: lifecycle Enc_Mount enc_write_begin Enc_Validate
proof
  fix mp d h x d' h'
  assume "Enc_Mount mp d h = Return (Some x, d', h')"
  from Enc_Mount_result [OF this] show "same_life d d'" by (simp add: same_life_def drive.truncate_def)
next
  fix mp d h d' h'
  assume "Enc_Mount mp d h = Return (None, d', h')"
  from Enc_Mount_result [OF this] show "\<not> mounted d \<and> \<not> unMounting d \<and> params d \<noteq> None \<and> mounted d' \<and> unmountFunc d' \<noteq> None
        \<and> ioWG d' = ioWG d \<and> unMounting d' = unMounting d \<and> params d' = params d"
    by (auto simp: enc_set_mounted_def drive.truncate_def)
qed (auto simp: enc_write_begin_def split: if_splits option.splits)

text \<open>The start: a drive that is not mounted and has its options, and goroutines that do nothing yet.\<close>

definition idle_sys :: "'z drive_scheme \<Rightarrow> host \<Rightarrow> nat \<Rightarrow> 'z sys" where
  "idle_sys d h n = \<lparr>dr = d, hs = h, pcs = replicate n Idle\<rparr>"

lemma idle_inv:
  "\<not> mounted d \<Longrightarrow> \<not> unMounting d \<Longrightarrow> ioWG d = 0 \<Longrightarrow> lifecycle_inv (idle_sys d h n)"
  by (auto simp: lifecycle_inv_def idle_sys_def how_many_def at_def past_wait_def)

section \<open>Properties\<close>

text \<open>
  C22: No file operation is under way when a drive is unmounted. However the calls of any number of goroutines interleave
  (mounting, reading, writing, unmounting), the wait group counts exactly the file operations under way, at most one goroutine
  unmounts, and when one is about to run the unmount closure the drive is still mounted, the closure is the one that the mount
  stored, and no goroutine reads or writes. The start of a write never dereferences nil options.
\<close>

theorem unmount_waits_for_io:
  assumes "(lstep Mount write_begin Base_Validate)\<^sup>*\<^sup>* (idle_sys d h n) s" and "\<not> mounted d" and "\<not> unMounting d" and "ioWG d = 0"
  shows "ioWG (dr s) = how_many is_io s \<and> write_begin (dr s) \<noteq> Panic
    \<and> (\<forall>i f mp eph. at s i (Unmounting f mp eph) \<longrightarrow>
          f \<noteq> None \<and> f = unmountFunc (dr s) \<and> mounted (dr s) \<and> (\<forall>j p. at s j p \<longrightarrow> \<not> is_io p) \<and> how_many is_unmount s = 1)"
  using plain_drive.unmount_exclusive [OF assms(1) idle_inv [OF assms(2-4)]] by blast

text \<open>The same of encrypted drives, by the same lemma of the locale.\<close>

lemma encrypted_unmount_waits_for_io:
  assumes "(lstep Enc_Mount enc_write_begin Enc_Validate)\<^sup>*\<^sup>* (idle_sys d h n) s" and "\<not> mounted d" and "\<not> unMounting d" and "ioWG d = 0"
  shows "ioWG (dr s) = how_many is_io s \<and> enc_write_begin (dr s) \<noteq> Panic
    \<and> (\<forall>i f mp eph. at s i (Unmounting f mp eph) \<longrightarrow>
          f \<noteq> None \<and> f = unmountFunc (dr s) \<and> mounted (dr s) \<and> (\<forall>j p. at s j p \<longrightarrow> \<not> is_io p) \<and> how_many is_unmount s = 1)"
  using encrypted.unmount_exclusive [OF assms(1) idle_inv [OF assms(2-4)]] by blast

definition fresh_drive :: drive where
  "fresh_drive = newDrive sample_options ''/d.img''"

lemma fresh_mounts:
  "\<exists>h'. Mount ''/mnt'' fresh_drive drive_host = Return (None, set_mounted ''/mnt'' (LoopUnmount ''/mnt'' '''') fresh_drive, h')
     \<and> map argv (cmdLog h') = [[''losetup'', ''--find'', ''--show'', ''/d.img''],
           [''mount'', ''-t'', ''ext4'', ''-o'', ''nosuid,nodev,noexec'', '''', ''/mnt'']]"
  by (simp add: Mount_def mountWithLoopDevice_def fresh_drive_def newDrive_def sample_options_def NewDriveOptions_def FSType_def Let_def
      drive_host_def exec_def exec_input_def next_reply_def silent_def string_of_def TrimSpace_def trim_def)

lemma mounted_fresh [simp]:
  "mounted (set_mounted mp f fresh_drive)" "\<not> unMounting (set_mounted mp f fresh_drive)" "ioWG (set_mounted mp f fresh_drive) = 0"
  "unmountFunc (set_mounted mp f fresh_drive) = Some f" "params (set_mounted mp f fresh_drive) = Some sample_options"
  "mountPoint (set_mounted mp f fresh_drive) = mp"
  by (simp_all add: fresh_drive_def newDrive_def set_mounted_def)

theorem unmount_waits_for_io_witness:
  "\<exists>s f mp eph. (lstep Mount write_begin Base_Validate)\<^sup>*\<^sup>* (idle_sys fresh_drive drive_host 2) s \<and> at s 0 (Unmounting f mp eph)
     \<and> f = Some (LoopUnmount ''/mnt'' '''') \<and> ioWG (dr s) = 0 \<and> how_many is_unmount s = 1"
proof -
  let ?d = "set_mounted ''/mnt'' (LoopUnmount ''/mnt'' '''') fresh_drive"
  let ?L = "lstep Mount write_begin Base_Validate"
  obtain h where m: "Mount ''/mnt'' fresh_drive drive_host = Return (None, ?d, h)" using fresh_mounts by blast
  let ?s0 = "idle_sys fresh_drive drive_host 2"
  let ?s1 = "move ?s0 0 Idle ?d h"
  let ?s2 = "move ?s1 0 Waiting (?d\<lparr>unMounting := True\<rparr>) h"
  let ?s3 = "move ?s2 0 Waited (?d\<lparr>unMounting := True\<rparr>) h"
  let ?s4 = "move ?s3 0 (Unmounting (Some (LoopUnmount ''/mnt'' '''')) ''/mnt'' False) (?d\<lparr>unMounting := True\<rparr>) h"
  have l: "0 < length (pcs ?s0)" by (simp add: idle_sys_def)
  have a1: "?L ?s0 ?s1" by (rule lstep.mount [where mp = "''/mnt''"]) (use m in \<open>simp_all add: idle_sys_def at_def\<close>)
  have a2: "?L ?s1 ?s2" using lstep.unmount_start [of ?s1 0 "?d\<lparr>unMounting := True\<rparr>" Mount write_begin Base_Validate] l
    by (simp add: unmount_begin_def at_def move_def)
  have a3: "?L ?s2 ?s3" using lstep.unmount_wait [of ?s2 0 Mount write_begin Base_Validate] l by (simp add: at_move at_def move_def)
  have a4: "?L ?s3 ?s4" using lstep.unmount_read [of ?s3 0 "Some (LoopUnmount ''/mnt'' '''')" "''/mnt''" False Mount write_begin Base_Validate] l
    by (simp add: at_move at_def move_def unmount_snapshot_def sample_options_def NewDriveOptions_def)
  have r: "?L\<^sup>*\<^sup>* ?s0 ?s4"
    by (rule rtranclp.rtrancl_into_rtrancl [where r = ?L, OF _ a4], rule rtranclp.rtrancl_into_rtrancl [where r = ?L, OF _ a3],
        rule rtranclp.rtrancl_into_rtrancl [where r = ?L, OF _ a2], rule r_into_rtranclp [where r = ?L, OF a1])
  have a: "at ?s4 0 (Unmounting (Some (LoopUnmount ''/mnt'' '''')) ''/mnt'' False)" using l by (simp add: at_def move_def)
  have "\<not> mounted fresh_drive" "\<not> unMounting fresh_drive" "ioWG fresh_drive = 0" by (simp_all add: fresh_drive_def newDrive_def)
  from unmount_waits_for_io [OF r this] a have "how_many is_unmount ?s4 = 1" by blast
  with r a show ?thesis by (intro exI [of _ ?s4]) auto
qed

text \<open>
  C32: \<open>Delete\<close> can forget a mount. A \<open>Delete\<close> that found the drive not mounted clears its state without looking
  again: when another goroutine mounts the drive in between and a third one starts a write, the drive ends up not mounted,
  without closure and options, while the filesystem is mounted (it was mounted and never unmounted) and the write is under way.
\<close>

theorem delete_forgets_mount:
  "\<exists>s. (\<lambda>a b. lstep Mount write_begin Base_Validate a b \<or> delete_step a b)\<^sup>*\<^sup>* (idle_sys fresh_drive drive_host 3) s
     \<and> \<not> mounted (dr s) \<and> unmountFunc (dr s) = None \<and> params (dr s) = None
     \<and> (\<exists>fp r. at s 2 (Writing ''/mnt'' fp r))
     \<and> map (hd \<circ> argv) (cmdLog (hs s)) = [''losetup'', ''mount''] \<and> unmount_begin (dr s) = (Some (DriveE ErrDriveNotMounted), dr s)"
proof -
  let ?d = "set_mounted ''/mnt'' (LoopUnmount ''/mnt'' '''') fresh_drive"
  let ?d1 = "?d\<lparr>ioWG := Suc 0\<rparr>"
  let ?L = "\<lambda>a b. lstep Mount write_begin Base_Validate a b \<or> delete_step a b"
  obtain h where m: "Mount ''/mnt'' fresh_drive drive_host = Return (None, ?d, h)"
    and c: "map argv (cmdLog h) = [[''losetup'', ''--find'', ''--show'', ''/d.img''],
           [''mount'', ''-t'', ''ext4'', ''-o'', ''nosuid,nodev,noexec'', '''', ''/mnt'']]" using fresh_mounts by (elim exE conjE)
  let ?r = "([], LibE EOF) :: conn"
  let ?s0 = "idle_sys fresh_drive drive_host 3"
  let ?s1 = "move ?s0 0 (Deleting False ''/d.img'') fresh_drive drive_host"
  let ?s2 = "move ?s1 0 DeleteReady fresh_drive drive_host"
  let ?s3 = "move ?s2 1 Idle ?d h"
  let ?s4 = "move ?s3 2 (WriteChecked ''f'' ?r) ?d h"
  let ?s5 = "move ?s4 2 (Writing ''/mnt'' ''f'' ?r) ?d1 h"
  let ?s6 = "move ?s5 0 Idle (delete_end ?d1) h"
  have l: "length (pcs ?s0) = 3" "\<And>i. i < 3 \<Longrightarrow> pcs ?s0 ! i = Idle" by (simp_all add: idle_sys_def)
  have f: "dr ?s0 = fresh_drive" "hs ?s0 = drive_host" by (simp_all add: idle_sys_def)
  have b: "unmount_begin fresh_drive = (Some (DriveE ErrDriveNotMounted), fresh_drive)" "delete_snapshot fresh_drive = (False, ''/d.img'')"
    by (simp_all add: unmount_begin_def delete_snapshot_def fresh_drive_def newDrive_def sample_options_def NewDriveOptions_def)
  have "at ?s0 0 Idle" by (simp add: idle_sys_def at_def)
  from delete_step.delete_start [OF this, unfolded f, OF b] have a1: "?L ?s0 ?s1" by blast
  have a2: "?L ?s1 ?s2" using delete_step.delete_image [of ?s1 0 False "''/d.img''" drive_host] l
    by (simp add: at_move delete_work_def)
  have a3: "?L ?s2 ?s3" using lstep.mount [of ?s2 1 Mount "''/mnt''" None ?d h write_begin Base_Validate] l m
    by (simp add: at_def move_def)
  have a4: "?L ?s3 ?s4" using lstep.write_check [of ?s3 2 "''f''" Base_Validate Mount write_begin ?r] l
    by (simp add: at_move at_def move_def Base_Validate_def Options_Validate_def sample_options_def NewDriveOptions_def)
  have a5: "?L ?s4 ?s5" using lstep.write_go [of ?s4 2 "''f''" ?r write_begin "''/mnt''" ?d1 Mount Base_Validate] l
    by (simp add: at_move at_def move_def write_begin_def sample_options_def NewDriveOptions_def FSType_def)
  have a6: "?L ?s5 ?s6" using delete_step.delete_clear [of ?s5 0] l by (simp add: at_move at_def move_def)
  have "?L\<^sup>*\<^sup>* ?s0 ?s6"
    by (rule rtranclp.rtrancl_into_rtrancl [where r = ?L, OF _ a6], rule rtranclp.rtrancl_into_rtrancl [where r = ?L, OF _ a5],
        rule rtranclp.rtrancl_into_rtrancl [where r = ?L, OF _ a4], rule rtranclp.rtrancl_into_rtrancl [where r = ?L, OF _ a3],
        rule rtranclp.rtrancl_into_rtrancl [where r = ?L, OF _ a2], rule r_into_rtranclp [where r = ?L, OF a1])
  moreover have "at ?s6 2 (Writing ''/mnt'' ''f'' ?r)" using l by (simp add: at_move at_def move_def)
  moreover have "map (hd \<circ> argv) (cmdLog h) = [''losetup'', ''mount'']"
  proof -
    have "map (hd \<circ> argv) (cmdLog h) = map hd (map argv (cmdLog h))" by simp
    then show ?thesis unfolding c by simp
  qed
  ultimately show ?thesis by (intro exI [of _ ?s6]) (auto simp: delete_end_def unmount_begin_def)
qed

text \<open>
  C33: A drive whose temporary mount directory cannot be removed is wedged for ever. When \<open>Unmount\<close> returns with its
  flag still set, which is what it does when \<open>RemoveAll\<close> fails after a successful unmount, every later call of \<open>Unmount\<close>,
  \<open>Delete\<close>, \<open>Mount\<close> and \<open>WriteToDrive\<close> fails and changes nothing, on any state of the machine.
\<close>

theorem failed_removal_wedges_drive:
  assumes "Unmount d h = Return (Some e, d', h')" and "\<not> unMounting d" and "unMounting d'"
  shows "Unmount d' h1 = Return (Some (Msg ''drive is currently unmounting''), d', h1)
    \<and> Delete d' h1 = Return (Some (Msg ''drive is currently unmounting''), d', h1)
    \<and> Mount mp d' h1 = Return (Some (DriveE ErrDriveAlreadyMounted), d', h1)
    \<and> (\<exists>x. WriteToDrive fp r d' h1 = Return (Some x, d', h1))
    \<and> (\<exists>x. e = Wrap ''failed to remove ephemeral drive'' x)"
proof -
  have u: "unmount_begin d = (None, d\<lparr>unMounting := True\<rparr>)" and m: "mounted d"
    using assms by (auto simp: Unmount_def unmount_begin_def split: if_splits)
  obtain f mp0 eph where sn: "unmount_snapshot (d\<lparr>unMounting := True\<rparr>) = (f, mp0, eph)" by (cases "unmount_snapshot (d\<lparr>unMounting := True\<rparr>)")
  from assms(1) u sn obtain x g h2 where w: "f = Some g" "unmount_work g mp0 eph h = (x, h2)"
      "unmount_end x (d\<lparr>unMounting := True\<rparr>) = (Some e, d')"
    by (auto simp: Unmount_def split: option.splits if_splits prod.splits)
  then have d: "d' = d\<lparr>unMounting := True\<rparr>" "\<exists>y. e = Wrap ''failed to remove ephemeral drive'' y"
    using assms(3) by (cases x; auto)+
  have U: "Unmount d' h1 = Return (Some (Msg ''drive is currently unmounting''), d', h1)" for h1
    using d m by (simp add: Unmount_def unmount_begin_def)
  have "\<exists>x. WriteToDrive fp r d' h1 = Return (Some x, d', h1)"
    using d by (auto simp: WriteToDrive_def write_begin_def)
  with U d m show ?thesis by (simp add: Delete_def Mount_def)
qed

theorem failed_removal_wedges_drive_witness:
  "\<exists>d d' h' e. Unmount d (drive_host\<lparr>files := (files drive_host)\<lparr>fsFaults := [Some (External 3)]\<rparr>\<rparr>) = Return (Some e, d', h')
     \<and> Mount ''/mnt'' d' h' = Return (Some (DriveE ErrDriveAlreadyMounted), d', h')
     \<and> Delete d' drive_host = Return (Some (Msg ''drive is currently unmounting''), d', drive_host)"
proof -
  let ?d = "(set_mounted ''/mnt'' (GuestUnmount ''gu'' ''/mnt'') fresh_drive)\<lparr>params := Some (sample_options\<lparr>ephemeral := True\<rparr>)\<rparr>"
  let ?h = "drive_host\<lparr>files := (files drive_host)\<lparr>fsFaults := [Some (External 3)]\<rparr>\<rparr>"
  obtain e d' h' where r: "Unmount ?d ?h = Return (Some e, d', h')" and u: "unMounting d'"
    by (simp add: Unmount_def unmount_begin_def unmount_snapshot_def unmount_work_def guest_unmount_def exec_def exec_input_def
        next_reply_def silent_def on_fs_def fs_RemoveAll_def fs_sys_def drive_host_def abs_path_def IsAbs_def)
  have n: "\<not> unMounting ?d" by simp
  from failed_removal_wedges_drive [OF r n u, of h' "''/mnt''"] failed_removal_wedges_drive [OF r n u, of drive_host] r
  show ?thesis by blast
qed

end
