(* ===== verification/Drive_Scenarios.thy ===== *)
theory Drive_Scenarios
  imports Encrypted_Drive
begin

text \<open>
  \<^verbatim>\<open>drive/test_runner/main.go\<close>: the program that runs one scenario on the drives, chosen by a variable of its
  environment, and exits with status 1 and a text when the scenario fails. Its scenarios compose the operations of the two
  kinds of drives as a client does. The fixture and its copy are different files. A text with formatted values
  is kept without them. A deferred call whose result the program ignores is run for its effect.
\<close>

section \<open>Sequencing\<close>

text \<open>\<^verbatim>\<open>defer\<close>: the call \<open>f\<close> runs after the rest \<open>r\<close>, whose error is the one returned.\<close>

definition deferred ::
  "('d \<Rightarrow> host \<Rightarrow> (error option \<times> 'd \<times> host) outcome) \<Rightarrow> (error option \<times> 'd \<times> host) outcome
     \<Rightarrow> (error option \<times> 'd \<times> host) outcome" where
  "deferred f r =
     (case r of
        Panic \<Rightarrow> Panic
      | Blocked \<Rightarrow> Blocked
      | Return (err, d, h) \<Rightarrow>
          (case f d h of Panic \<Rightarrow> Panic | Blocked \<Rightarrow> Blocked | Return (ignored, d1, h1) \<Rightarrow> Return (err, d1, h1)))"

text \<open>The rest of a scenario after a call with a value, which fails with the error \<open>f e\<close> when the call fails with \<open>e\<close>.\<close>

definition or_fail ::
  "('a result \<times> host) outcome \<Rightarrow> (error \<Rightarrow> error) \<Rightarrow> ('a \<Rightarrow> host \<Rightarrow> (error option \<times> host) outcome) \<Rightarrow> (error option \<times> host) outcome" where
  "or_fail r f k =
     (case r of
        Panic \<Rightarrow> Panic
      | Blocked \<Rightarrow> Blocked
      | Return (Inl e, h) \<Rightarrow> Return (Some (f e), h)
      | Return (Inr x, h) \<Rightarrow> k x h)"

text \<open>The drive is a local variable of the scenario.\<close>

definition drop_drive :: "(error option \<times> 'd \<times> host) outcome \<Rightarrow> (error option \<times> host) outcome" where
  "drop_drive r = (case r of Panic \<Rightarrow> Panic | Blocked \<Rightarrow> Blocked | Return (e, d, h) \<Rightarrow> Return (e, h))"

definition done_with :: "'d \<Rightarrow> host \<Rightarrow> (error option \<times> 'd \<times> host) outcome" where
  "done_with d h = Return (None, d, h)"

section \<open>The steps that scenarios share\<close>

definition copyFixture :: "string \<Rightarrow> host \<Rightarrow> (string result \<times> host) outcome" where
  "copyFixture src h =
     (case on_fs (fs_Open (abs_path h src)) h of
        (Inl e, h1) \<Rightarrow> Return (Inl e, h1)
      | (Inr inp, h1) \<Rightarrow>
          (let dst = path_Join [tempDir h1, path_Base src @ ''-copy.img'']
           in case on_fs (fs_OpenTrunc (abs_path h1 dst)) h1 of
                (Inl e, h2) \<Rightarrow> Return (Inl e, h2)
              | (Inr out, h2) \<Rightarrow>
                  (case io_Copy conn_read (fs_Write out) inp (files h2) of
                     None \<Rightarrow> Blocked
                   | Some (n, err, inp', s) \<Rightarrow>
                       (let h3 = h2\<lparr>files := snd (fs_Close s)\<rparr>
                        in case err of Some e \<Rightarrow> Return (Inl e, h3) | None \<Rightarrow> Return (Inr dst, h3)))))"

text \<open>A new directory, the drive mounted on it, the rest of the scenario, then the deferred unmounting and removal.\<close>

definition in_mount_dir ::
  "string \<Rightarrow> string \<Rightarrow> (string \<Rightarrow> 'd \<Rightarrow> host \<Rightarrow> (error option \<times> 'd \<times> host) outcome)
     \<Rightarrow> ('d \<Rightarrow> host \<Rightarrow> (error option \<times> 'd \<times> host) outcome) \<Rightarrow> ('d \<Rightarrow> host \<Rightarrow> (error option \<times> 'd \<times> host) outcome)
     \<Rightarrow> 'd \<Rightarrow> host \<Rightarrow> (error option \<times> 'd \<times> host) outcome" where
  "in_mount_dir pattern msg mount unmount rest d h =
     (case os_MkdirTemp pattern h of
        (Inl e, h1) \<Rightarrow> Return (Some e, d, h1)
      | (Inr mountDir, h1) \<Rightarrow>
          deferred (\<lambda>d h. plain (on_fs (fs_RemoveAll (abs_path h mountDir)) h) d)
            (and_then (mount mountDir d h1) msg (\<lambda>d h. deferred unmount (rest d h))))"

text \<open>A file is written and read back; \<open>msgs\<close> are the texts for a failed write, a failed read and a difference.\<close>

definition write_and_check ::
  "(string \<Rightarrow> conn \<Rightarrow> 'd \<Rightarrow> host \<Rightarrow> (error option \<times> 'd \<times> host) outcome)
     \<Rightarrow> (string \<Rightarrow> 'd \<Rightarrow> host \<Rightarrow> byte list result \<times> 'd \<times> host) \<Rightarrow> string \<times> string \<times> string \<Rightarrow> string \<Rightarrow> string
     \<Rightarrow> ('d \<Rightarrow> host \<Rightarrow> (error option \<times> 'd \<times> host) outcome) \<Rightarrow> 'd \<Rightarrow> host \<Rightarrow> (error option \<times> 'd \<times> host) outcome" where
  "write_and_check write load msgs path want rest d h =
     and_then (write path ([bytes_of want], LibE EOF) d h) (fst msgs)
       (\<lambda>d h. case load path d h of
                (Inl e, d1, h1) \<Rightarrow> Return (Some (Wrap (fst (snd msgs)) e), d1, h1)
              | (Inr got, d1, h1) \<Rightarrow>
                  if string_of got \<noteq> want then Return (Some (Msg (snd (snd msgs))), d1, h1) else rest d1 h1)"

text \<open>\<^verbatim>\<open>os.IsNotExist\<close> on the error of \<^verbatim>\<open>os.Stat\<close>.\<close>

definition is_gone :: "(bool \<times> nat) result \<Rightarrow> bool" where
  "is_gone r \<longleftrightarrow> r = Inl (LibE ErrNotExist)"

definition Contains :: "string \<Rightarrow> string \<Rightarrow> bool" where
  "Contains s t \<longleftrightarrow> list_ex (\<lambda>i. HasPrefix (drop i s) t) [0..<Suc (length s)]"

section \<open>The scenarios\<close>

text \<open>The options that a scenario passes: \<open>NewDriveOptionsPtr\<close> with the size of the image.\<close>

definition scenario_options :: "string \<Rightarrow> bool \<Rightarrow> bool \<Rightarrow> nat \<Rightarrow> string \<Rightarrow> MountMethod \<Rightarrow> DriveOptions option" where
  "scenario_options i ro eph len fs m = Some (NewDriveOptions i ro False '''' '''' eph (of_nat len) fs m)"

definition runRWScenario :: "string \<Rightarrow> MountMethod \<Rightarrow> host \<Rightarrow> (error option \<times> host) outcome" where
  "runRWScenario srcImage meth h =
     or_fail (copyFixture srcImage h) (\<lambda>e. e) (\<lambda>imgPath h1.
     or_fail (Return (on_fs (fs_Stat (abs_path h1 imgPath)) h1)) (\<lambda>e. e) (\<lambda>info h2.
     or_fail (BaseDriveFromImage imgPath (scenario_options ''scenario-rw'' False False (snd info) ''ext4'' meth) h2)
       (Wrap ''load image failed'') (\<lambda>d h3.
     drop_drive (in_mount_dir ''drive-mnt-'' ''mount failed'' Mount Unmount
       (write_and_check WriteToDrive LoadFromDrive (''write failed'', ''read failed'', ''payload mismatch'')
         ''/scenario/file.txt'' ''scenario payload''
         (\<lambda>d h. and_then (Unmount d h) ''unmount failed'' done_with)) d h3))))"

definition runAutoRWScenario :: "string \<Rightarrow> host \<Rightarrow> (error option \<times> host) outcome" where
  "runAutoRWScenario srcImage h =
     or_fail (copyFixture srcImage h) (\<lambda>e. e) (\<lambda>imgPath h1.
     or_fail (BaseDriveFromImage imgPath None h1) (Wrap ''auto load image failed'') (\<lambda>d h2.
     (case Base_Parameters d of
        None \<Rightarrow> Panic
      | Some p \<Rightarrow>
          if mountMethod p \<noteq> MountMethodGuestMount \<and> mountMethod p \<noteq> MountMethodLoop
          then Return (Some (Msg ''unexpected detected mount method''), h2)
          else drop_drive (in_mount_dir ''drive-auto-mnt-'' ''auto mount failed'' Mount Unmount
                 (write_and_check WriteToDrive LoadFromDrive (''auto write failed'', ''auto read failed'', ''auto payload mismatch'')
                   ''/scenario/auto.txt'' ''auto scenario payload'' done_with) d h2))))"

text \<open>
  The environment variable \<^verbatim>\<open>PATH\<close> decides what \<^verbatim>\<open>exec.LookPath\<close> finds: \<open>look v\<close> is its answer when the
  variable has the value \<open>v\<close>. The deferred call puts the old value back.
\<close>

definition set_PATH :: "(string \<Rightarrow> string result) \<Rightarrow> host \<Rightarrow> host" where
  "set_PATH f h = h\<lparr>lookPath := f\<rparr>"

definition runAutoDetectNoBackendScenario ::
  "(string \<Rightarrow> string \<Rightarrow> string result) \<Rightarrow> string \<Rightarrow> host \<Rightarrow> (error option \<times> host) outcome" where
  "runAutoDetectNoBackendScenario look srcImage h =
     or_fail (copyFixture srcImage h) (\<lambda>e. e) (\<lambda>imgPath h1.
     (case BaseDriveFromImage imgPath None (set_PATH (look ''/nonexistent'') h1) of
        Panic \<Rightarrow> Panic
      | Blocked \<Rightarrow> Blocked
      | Return (r, h2) \<Rightarrow>
          Return
            ((case r of
                Inr d \<Rightarrow> Some (Msg ''expected mount autodetection failure with empty PATH'')
              | Inl e \<Rightarrow>
                  if \<not> Contains (error_text e) ''no usable mount method available''
                  then Some (Msg (''unexpected autodetect error: '' @ error_text e))
                  else None),
             set_PATH (lookPath h1) h2)))"

definition runSquashfsReadonlyScenario :: "string \<Rightarrow> host \<Rightarrow> (error option \<times> host) outcome" where
  "runSquashfsReadonlyScenario srcImage h =
     or_fail (Return (on_fs (fs_Stat (abs_path h srcImage)) h)) (\<lambda>e. e) (\<lambda>info h1.
     or_fail (BaseDriveFromImage srcImage
         (scenario_options ''scenario-squash'' True False (snd info) ''squashfs'' MountMethodLoop) h1)
       (Wrap ''load squashfs failed'') (\<lambda>d h2.
     (case Base_Parameters d of
        None \<Rightarrow> Panic
      | Some p \<Rightarrow>
          if \<not> readonly p then Return (Some (Msg ''expected squashfs to be readonly''), h2)
          else drop_drive (in_mount_dir ''drive-sq-mnt-'' ''mount squashfs failed'' Mount Unmount
            (\<lambda>d h.
               case LoadFromDrive ''/data/hello.txt'' d h of
                 (Inl e, d1, h1) \<Rightarrow> Return (Some (Wrap ''read squashfs file failed'' e), d1, h1)
               | (Inr got, d1, h1) \<Rightarrow>
                   if \<not> Contains (string_of got) ''hello from squashfs fixture''
                   then Return (Some (Msg ''unexpected squashfs content''), d1, h1)
                   else (case WriteToDrive ''/data/new.txt'' ([bytes_of ''x''], LibE EOF) d1 h1 of
                           Panic \<Rightarrow> Panic
                         | Blocked \<Rightarrow> Blocked
                         | Return (None, d2, h2) \<Rightarrow> Return (Some (Msg ''expected write to squashfs to fail''), d2, h2)
                         | Return (Some e, d2, h2) \<Rightarrow> Return (None, d2, h2))) d h2))))"

text \<open>The check at the end of a scenario that the image is gone.\<close>

definition expect_gone :: "string \<Rightarrow> string \<Rightarrow> 'd \<Rightarrow> host \<Rightarrow> (error option \<times> 'd \<times> host) outcome" where
  "expect_gone msg imgPath d h =
     (case on_fs (fs_Stat (abs_path h imgPath)) h of
        (r, h1) \<Rightarrow> Return (if \<not> is_gone r then Some (Msg msg) else None, d, h1))"

definition runDeleteEphemeralScenario :: "string \<Rightarrow> host \<Rightarrow> (error option \<times> host) outcome" where
  "runDeleteEphemeralScenario srcImage h =
     or_fail (copyFixture srcImage h) (\<lambda>e. e) (\<lambda>imgPath h1.
     or_fail (Return (on_fs (fs_Stat (abs_path h1 imgPath)) h1)) (\<lambda>e. e) (\<lambda>info h2.
     or_fail (BaseDriveFromImage imgPath (scenario_options ''ephemeral'' False True (snd info) ''ext4'' MountMethodLoop) h2)
       (\<lambda>e. e) (\<lambda>d h3.
     drop_drive (and_then (Delete d h3) ''delete failed''
       (expect_gone ''expected ephemeral image removed'' imgPath)))))"

text \<open>The passphrase is a new array of the memory.\<close>

definition runLUKSRWScenario :: "host \<Rightarrow> (error option \<times> host) outcome" where
  "runLUKSRWScenario h =
     (let imgPath = path_Join [tempDir h, ''drive-luks-scenario.img''];
          h1 = snd (on_fs (fs_Remove (abs_path h imgPath)) h);
          passphrase = nextMem h1;
          h2 = h1\<lparr>mem := (mem h1)(passphrase := bytes_of ''scenario-passphrase''), nextMem := Suc passphrase\<rparr>
      in or_fail (Return (NewSHA256PassphraseKey passphrase h2)) (Wrap ''create key failed'') (\<lambda>k h3.
         or_fail (Return (EncryptedDriveFromImage imgPath (Some k)
             (scenario_options ''scenario-luks'' False True (32 * 1024 * 1024) ''ext4'' MountMethodLoop) h3))
           (Wrap ''create encrypted drive failed'') (\<lambda>d h4.
         drop_drive (in_mount_dir ''drive-luks-mnt-'' ''mount encrypted drive failed'' Enc_Mount Enc_Unmount
           (write_and_check Enc_WriteToDrive Enc_LoadFromDrive
             (''write encrypted drive failed'', ''read encrypted drive failed'', ''encrypted payload mismatch'')
             ''/secure/data.txt'' ''luks scenario payload''
             (\<lambda>d h. and_then (Enc_Unmount d h) ''unmount encrypted drive failed''
               (\<lambda>d h. and_then (Enc_Delete d h) ''delete encrypted drive failed''
                 (expect_gone ''expected encrypted ephemeral image removed'' imgPath)))) d h4))))"

section \<open>The program\<close>

text \<open>The program ends with status 0, or with status 1 after printing a text.\<close>

datatype exit = Exit0 | Exit1 string

definition fail :: "string \<Rightarrow> host \<Rightarrow> (exit \<times> host) outcome" where
  "fail text h = Return (Exit1 text, h)"

definition must :: "(error option \<times> host) outcome \<Rightarrow> (exit \<times> host) outcome" where
  "must r =
     (case r of
        Panic \<Rightarrow> Panic
      | Blocked \<Rightarrow> Blocked
      | Return (Some err, h) \<Rightarrow> fail (error_text err) h
      | Return (None, h) \<Rightarrow> Return (Exit0, h))"

text \<open>\<open>scenario\<close> and \<open>fixtures\<close> are the values of \<^verbatim>\<open>SCENARIO\<close> and \<^verbatim>\<open>FIXTURE_DIR\<close>.\<close>

definition main :: "(string \<Rightarrow> string \<Rightarrow> string result) \<Rightarrow> string \<Rightarrow> string \<Rightarrow> host \<Rightarrow> (exit \<times> host) outcome" where
  "main look scenario fixtures h =
     (let fixtureDir = (if fixtures = '''' then ''/fixtures'' else fixtures);
          ext4 = path_Join [fixtureDir, ''ext4.img'']
      in if scenario = ''guestmount_nonroot_ext4_rw'' then must (runRWScenario ext4 MountMethodGuestMount h)
         else if scenario = ''guestmount_auto_ext4_rw'' then must (runAutoRWScenario ext4 h)
         else if scenario = ''auto_detect_none_available'' then must (runAutoDetectNoBackendScenario look ext4 h)
         else if scenario = ''root_loop_ext4_rw'' then must (runRWScenario ext4 MountMethodLoop h)
         else if scenario = ''squashfs_readonly''
         then must (runSquashfsReadonlyScenario (path_Join [fixtureDir, ''squashfs.img'']) h)
         else if scenario = ''delete_ephemeral'' then must (runDeleteEphemeralScenario ext4 h)
         else if scenario = ''luks_dmcrypt_ext4_rw'' then must (runLUKSRWScenario h)
         else fail (''unknown scenario: '' @ scenario) h)"

section \<open>Every scenario ends\<close>

text \<open>The call returns, with a result of which \<open>P\<close> holds.\<close>

definition ends :: "('a \<Rightarrow> bool) \<Rightarrow> 'a outcome \<Rightarrow> bool" where
  "ends P r \<longleftrightarrow> (case r of Panic \<Rightarrow> False | Blocked \<Rightarrow> False | Return x \<Rightarrow> P x)"

lemma ends_Return [simp]: "ends P (Return x) = P x"
  by (simp add: ends_def)

lemma ends_mono: "ends P r \<Longrightarrow> (\<And>x. P x \<Longrightarrow> Q x) \<Longrightarrow> ends Q r"
  by (auto simp: ends_def split: outcome.splits)

lemma ends_or_fail:
  "ends (\<lambda>(x, h). case x of Inl e \<Rightarrow> True | Inr y \<Rightarrow> ends (\<lambda>_. True) (k y h)) r \<Longrightarrow> ends (\<lambda>_. True) (or_fail r f k)"
  by (auto simp: ends_def or_fail_def split: outcome.splits sum.splits)

lemma ends_and_then:
  "ends (\<lambda>(e, d, h). C d \<and> (e = None \<longrightarrow> ends (\<lambda>(e, d, h). C d) (k d h))) r \<Longrightarrow> ends (\<lambda>(e, d, h). C d) (and_then r msg k)"
  by (cases r) (auto simp: ends_def and_then_def split: option.split)

lemma ends_seq:
  "ends (\<lambda>(e, d, h). C d) r \<Longrightarrow> (\<And>d h. C d \<Longrightarrow> ends (\<lambda>(e, d, h). C d) (k d h)) \<Longrightarrow> ends (\<lambda>(e, d, h). C d) (and_then r msg k)"
  by (rule ends_and_then, erule ends_mono) auto

lemma ends_deferred:
  "ends (\<lambda>(e, d, h). ends (\<lambda>(e, d, h). C d) (f d h)) r \<Longrightarrow> ends (\<lambda>(e, d, h). C d) (deferred f r)"
  by (auto simp: ends_def deferred_def split: outcome.splits)

lemma ends_drop_drive: "ends (\<lambda>(e, d, h). C d) r \<Longrightarrow> ends (\<lambda>_. True) (drop_drive r)"
  by (auto simp: ends_def drop_drive_def split: outcome.splits)

text \<open>
  What a drive promises to a client that calls it from one goroutine: no call panics or waits for ever. A \<open>calm\<close> drive has
  no file operation under way, a \<open>ready\<close> one can be mounted.
\<close>

locale sequential_drive =
  fixes mount :: "string \<Rightarrow> 'd \<Rightarrow> host \<Rightarrow> (error option \<times> 'd \<times> host) outcome"
    and unmount :: "'d \<Rightarrow> host \<Rightarrow> (error option \<times> 'd \<times> host) outcome"
    and save :: "string \<Rightarrow> conn \<Rightarrow> 'd \<Rightarrow> host \<Rightarrow> (error option \<times> 'd \<times> host) outcome"
    and load :: "string \<Rightarrow> 'd \<Rightarrow> host \<Rightarrow> byte list result \<times> 'd \<times> host"
    and delete :: "'d \<Rightarrow> host \<Rightarrow> (error option \<times> 'd \<times> host) outcome"
    and ready calm :: "'d \<Rightarrow> bool"
  assumes mount_ends: "ready d \<Longrightarrow> ends (\<lambda>(e, d, h). calm d) (mount mp d h)"
    and ready_calm: "ready d \<Longrightarrow> calm d"
    and unmount_ends: "calm d \<Longrightarrow> ends (\<lambda>(e, d, h). calm d) (unmount d h)"
    and save_ends: "calm d \<Longrightarrow> ends (\<lambda>(e, d, h). calm d) (save fp r d h)"
    and load_calm: "calm d \<Longrightarrow> calm (fst (snd (load fp d h)))"
    and delete_ends: "calm d \<Longrightarrow> ends (\<lambda>(e, d, h). calm d) (delete d h)"
begin

lemma in_mount_dir_ends:
  assumes "ready d" and "\<And>d h. calm d \<Longrightarrow> ends (\<lambda>(e, d, h). calm d) (rest d h)"
  shows "ends (\<lambda>(e, d, h). calm d) (in_mount_dir pattern msg mount unmount rest d h)"
proof -
  have u: "calm d1 \<Longrightarrow> ends (\<lambda>(e, d, h). calm d) (deferred unmount (rest d1 h1))" for d1 h1
    by (rule ends_deferred, rule ends_mono [OF assms(2)]) (auto intro: unmount_ends)
  have m: "ends (\<lambda>(e, d, h). calm d) (and_then (mount mp d h1) msg (\<lambda>d h. deferred unmount (rest d h)))" for mp h1
    by (rule ends_seq [OF mount_ends [OF assms(1)] u])
  have "ends (\<lambda>(e, d, h). calm d) (deferred (\<lambda>d h. plain (on_fs (fs_RemoveAll (abs_path h mp)) h) d)
      (and_then (mount mp d h1) msg (\<lambda>d h. deferred unmount (rest d h))))" for mp h1
    by (rule ends_deferred, rule ends_mono [OF m]) (auto split: prod.splits)
  then show ?thesis using ready_calm [OF assms(1)] by (auto simp: in_mount_dir_def split: prod.splits sum.splits)
qed

lemma write_and_check_ends:
  assumes "\<And>d h. calm d \<Longrightarrow> ends (\<lambda>(e, d, h). calm d) (rest d h)" and "calm d"
  shows "ends (\<lambda>(e, d, h). calm d) (write_and_check save load msgs path want rest d h)"
proof -
  have "ends (\<lambda>(e, d, h). calm d)
      (case load path d h of
         (Inl e, d1, h1) \<Rightarrow> Return (Some (Wrap (fst (snd msgs)) e), d1, h1)
       | (Inr got, d1, h1) \<Rightarrow>
           if string_of got \<noteq> want then Return (Some (Msg (snd (snd msgs))), d1, h1) else rest d1 h1)" if "calm d" for d h
    using load_calm [OF that, of path h] assms(1) by (auto split: prod.splits sum.splits)
  then show ?thesis unfolding write_and_check_def
    by (rule ends_seq [OF save_ends [OF assms(2)]])
qed

lemma unmount_then:
  assumes "\<And>d h. calm d \<Longrightarrow> ends (\<lambda>(e, d, h). calm d) (rest d h)" and "calm d"
  shows "ends (\<lambda>(e, d, h). calm d) (and_then (unmount d h) msg rest)"
  by (rule ends_seq [OF unmount_ends [OF assms(2)] assms(1)])

lemma delete_then:
  assumes "\<And>d h. calm d \<Longrightarrow> ends (\<lambda>(e, d, h). calm d) (rest d h)" and "calm d"
  shows "ends (\<lambda>(e, d, h). calm d) (and_then (delete d h) msg rest)"
  by (rule ends_seq [OF delete_ends [OF assms(2)] assms(1)])

lemma done_ends: "calm d \<Longrightarrow> ends (\<lambda>(e, d, h). calm d) (done_with d h)"
  by (simp add: done_with_def)

lemma expect_gone_ends: "calm d \<Longrightarrow> ends (\<lambda>(e, d, h). calm d) (expect_gone msg path d h)"
  by (auto simp: expect_gone_def split: prod.splits)

end

text \<open>Both kinds of drives keep the promise.\<close>

lemma write_file_returns: "\<exists>e s'. write_file wd mp fp r s = Some (e, s')"
proof -
  have "\<exists>e s'. copy_to_file f r s = Some (e, s')" for f s
  proof -
    obtain n err r' s1 where "io_Copy conn_read (fs_Write f) r s = Some (n, err, r', s1)"
      using conn.Copy_writer [where P = "\<lambda>_. True" and wr = "fs_Write f" and s = r and w = s] by simp blast
    then show ?thesis by (simp add: copy_to_file_def split: prod.splits)
  qed
  then show ?thesis by (auto simp: write_file_def split: prod.splits sum.splits option.splits)
qed

lemma Unmount_ends: "ioWG d = 0 \<Longrightarrow> ends (\<lambda>(e, d', h). ioWG d' = 0 \<and> params d' = params d) (Unmount d h)"
proof -
  have "unmount_end r d1 = (e, d2) \<Longrightarrow> ioWG d2 = ioWG d1 \<and> params d2 = params d1" for r d1 e and d2 :: drive by (cases r) auto
  then show "ioWG d = 0 \<Longrightarrow> ends (\<lambda>(e, d', h). ioWG d' = 0 \<and> params d' = params d) (Unmount d h)"
    by (auto simp: Unmount_def unmount_begin_def unmount_snapshot_def split: prod.splits option.splits)
qed

lemma Mount_ends:
  assumes "params d \<noteq> None" and "ioWG d = 0"
  shows "ends (\<lambda>(e, d, h). ioWG d = 0) (Mount mp d h)"
proof -
  have g: "case mountWithGuestMount img mp ro d h of (e, d, h) \<Rightarrow> ioWG d = 0" for img mp ro h
    using assms(2) by (auto simp: mountWithGuestMount_def set_mounted_def Let_def split: prod.splits option.splits)
  have l: "case mountWithLoopDevice img mp fs opts d h of (e, d, h) \<Rightarrow> ioWG d = 0" for img mp fs opts h
    using assms(2) by (auto simp: mountWithLoopDevice_def set_mounted_def Let_def split: prod.splits option.splits)
  obtain p where p: "params d = Some p" using assms(1) by auto
  obtain r h1 where r: "(if mp = '''' then os_MkdirTemp ''drive-mount-'' h else (Inr mp, h)) = (r, h1)"
    by (cases "if mp = '''' then os_MkdirTemp ''drive-mount-'' h else (Inr mp, h)")
  show ?thesis using assms(2) p by (cases r) (simp_all add: Mount_def Let_def r g l)
qed

lemma Delete_ends: "ioWG d = 0 \<Longrightarrow> ends (\<lambda>(e, d, h). ioWG d = 0) (Delete d h)"
proof -
  assume "ioWG d = 0"
  then have "ends (\<lambda>(e, d', h). ioWG d' = 0) (Unmount d h)" by (rule ends_mono [OF Unmount_ends]) auto
  then show ?thesis by (auto simp: Delete_def ends_def delete_end_def split: outcome.splits prod.splits option.splits)
qed

lemma WriteToDrive_ends: "ends (\<lambda>(e, d', h'). d' = d) (WriteToDrive fp r d h)"
proof (cases "Base_Validate d")
  case True
  obtain e s' where "write_file (getwd h) (mountPoint d) fp r (files h) = Some (e, s')" using write_file_returns by metis
  with WriteToDrive_cases [OF refl True, of fp r h] show ?thesis by auto
next
  case False
  then show ?thesis by (simp add: WriteToDrive_def)
qed

lemma LoadFromDrive_keeps: "fst (snd (LoadFromDrive fp d h)) = d"
  by (auto simp: LoadFromDrive_def load_begin_def split: prod.splits)

interpretation plain_client: sequential_drive Mount Unmount WriteToDrive LoadFromDrive Delete
  "\<lambda>d. params d \<noteq> None \<and> ioWG d = 0" "\<lambda>d. ioWG d = 0"
proof
  fix d :: drive and fp r h
  show "ioWG d = 0 \<Longrightarrow> ends (\<lambda>(e, d, h). ioWG d = 0) (Unmount d h)" by (rule ends_mono [OF Unmount_ends]) auto
  show "ioWG d = 0 \<Longrightarrow> ends (\<lambda>(e, d, h). ioWG d = 0) (WriteToDrive fp r d h)"
    by (rule ends_mono [OF WriteToDrive_ends]) auto
qed (auto simp: Mount_ends Delete_ends LoadFromDrive_keeps)

text \<open>The encrypted drive.\<close>

lemma crypt_ends: "key d \<noteq> None \<Longrightarrow> ends (\<lambda>(e, d', h). drive.truncate d' = drive.truncate d \<and> key d' \<noteq> None) (runCryptsetupWithKey args d h)"
  by (cases d) (auto simp: runCryptsetupWithKey_def drive.truncate_def split: option.splits prod.splits)

lemma createLUKSImage_ends:
  assumes "key d \<noteq> None"
  shows "ends (\<lambda>(e, d', h). drive.truncate d' = drive.truncate d \<and> key d' \<noteq> None) (createLUKSImage d p h)"
proof -
  let ?C = "\<lambda>d'. drive.truncate d' = drive.truncate d \<and> key d' \<noteq> None"
  have p: "?C d1 \<Longrightarrow> ends (\<lambda>(e, d, h). ?C d) (plain x d1)" for x :: "error option \<times> host" and d1 by (cases x) simp
  have c: "?C d1 \<Longrightarrow> ends (\<lambda>(e, d, h). ?C d) (runCryptsetupWithKey args d1 h1)" for args d1 h1
    by (rule ends_mono [OF crypt_ends]) auto
  have m: "?C d1 \<Longrightarrow> ends (\<lambda>(e, d, h). ?C d) (case runCmd [''mkfs.ext4'', ''-F'', mapperPath d1] h1 of
                    (Some e, h1) \<Rightarrow> Return (Some (Wrap ''failed to format encrypted mapper filesystem'' e), d1, luks_close d1 h1)
                  | (None, h1) \<Rightarrow> Return (None, d1, luks_close d1 h1))" for d1 h1
    by (auto split: prod.splits option.splits)
  show ?thesis
  proof (cases "sint (sizeBytes p) \<le> 0")
    case False
    then show ?thesis unfolding createLUKSImage_def luks_open_def
      by (simp only: if_False) (intro ends_seq [where C = ?C] p c m; use assms in simp)
  qed (use assms in \<open>simp add: createLUKSImage_def\<close>)
qed

lemma ensureLUKSImage_ends:
  assumes "key d \<noteq> None" and "params d \<noteq> None"
  shows "ends (\<lambda>(e, d', h). drive.truncate d' = drive.truncate d \<and> key d' \<noteq> None) (ensureLUKSImage d h)"
  using assms createLUKSImage_ends [OF assms(1)]
  by (auto simp: ensureLUKSImage_def split: prod.splits sum.splits option.splits)

lemma truncate_fields:
  "drive.truncate d' = drive.truncate d \<Longrightarrow> params d' = params d \<and> ioWG d' = ioWG d"
  by (simp add: drive.truncate_def)

lemma Enc_Mount_ends:
  assumes "key d \<noteq> None" and "params d \<noteq> None" and "ioWG d = 0"
  shows "ends (\<lambda>(e, d, h). ioWG d = 0) (Enc_Mount mp d h)"
proof -
  have m: "ends (\<lambda>(e, d, h). ioWG d = 0) (mount_luks mp d h)" for mp h
  proof -
    from ensureLUKSImage_ends [OF assms(1,2), of h] obtain e d1 h1 where en: "ensureLUKSImage d h = Return (e, d1, h1)"
      and d1: "drive.truncate d1 = drive.truncate d" "key d1 \<noteq> None" by (auto simp: ends_def split: outcome.splits)
    note f1 = truncate_fields [OF d1(1)]
    have "ends (\<lambda>(e, d, h). ioWG d = 0) (and_then (luks_open d1 h1) ''failed to open encrypted drive''
            (\<lambda>d2 h2.
               (case params d2 of
                  None \<Rightarrow> Panic
                | Some p \<Rightarrow>
                    let mountOpts = ''nosuid,nodev,noexec'' @ (if readonly p then '',ro'' else '''')
                    in (case runCmd [''mount'', ''-t'', FSType p, ''-o'', mountOpts, mapperPath d2, mp] h2 of
                          (Some e, h3) \<Rightarrow> Return (Some (Wrap ''failed to mount encrypted mapper'' e), d2, luks_close d2 h3)
                        | (None, h3) \<Rightarrow> Return (None, enc_set_mounted mp d2, h3)))))"
      by (rule ends_and_then, unfold luks_open_def, rule ends_mono [OF crypt_ends [OF d1(2)]])
        (use f1 assms(2,3) in \<open>auto simp: Let_def enc_set_mounted_def dest!: truncate_fields split: prod.splits option.splits\<close>)
    with en f1 assms(3) show ?thesis by (cases e) (simp_all add: mount_luks_def)
  qed
  obtain r h1 where r: "(if mp = '''' then os_MkdirTemp ''encrypted-drive-mount-'' h else (Inr mp, h)) = (r, h1)"
    by (cases "if mp = '''' then os_MkdirTemp ''encrypted-drive-mount-'' h else (Inr mp, h)")
  have t: "ends (\<lambda>(e, d, h). ioWG d = 0) (case (if mp = '''' then os_MkdirTemp ''encrypted-drive-mount-'' h else (Inr mp, h)) of
      (Inl e, h1) \<Rightarrow> Return (Some (Wrap ''failed to create mount point'' e), d, h1) | (Inr mp, h1) \<Rightarrow> mount_luks mp d h1)"
    unfolding r using assms(3) m by (cases r) simp_all
  obtain p where p: "params d = Some p" using assms(2) by auto
  show ?thesis unfolding Enc_Mount_def using t p assms(3) by (auto simp del: split_paired_All split: option.split)
qed

lemma Enc_Unmount_ends: "ioWG d = 0 \<Longrightarrow> ends (\<lambda>(e, d, h). ioWG d = 0) (Enc_Unmount d h)"
proof -
  have "unmount_end r d1 = (e, d2) \<Longrightarrow> ioWG d2 = ioWG d1" for r d1 e and d2 :: encrypted_drive by (cases r) auto
  then show "ioWG d = 0 \<Longrightarrow> ends (\<lambda>(e, d, h). ioWG d = 0) (Enc_Unmount d h)"
    by (auto simp: Enc_Unmount_def unmount_begin_def unmount_snapshot_def split: prod.splits option.splits)
qed

lemma Enc_Delete_ends: "ioWG d = 0 \<Longrightarrow> ends (\<lambda>(e, d, h). ioWG d = 0) (Enc_Delete d h)"
  by (drule Enc_Unmount_ends [of d h])
    (auto simp: Enc_Delete_def ends_def enc_delete_end_def delete_end_def split: outcome.splits prod.splits option.splits)

lemma Enc_WriteToDrive_ends: "ends (\<lambda>(e, d', h'). d' = d) (Enc_WriteToDrive fp r d h)"
proof (cases "Enc_Validate d")
  case True
  have "ends (\<lambda>(e, b, h'). b = drive.truncate d) (WriteToDrive fp r (drive.truncate d) h)" by (rule WriteToDrive_ends)
  with enc_write_plain [OF True, of fp r h] show ?thesis by (auto simp: ends_def lift_plain_def split: outcome.splits)
next
  case False
  then show ?thesis by (simp add: Enc_WriteToDrive_def)
qed

lemma Enc_LoadFromDrive_keeps: "fst (snd (Enc_LoadFromDrive fp d h)) = d"
  by (auto simp: Enc_LoadFromDrive_def load_begin_def split: prod.splits)

interpretation encrypted_client: sequential_drive Enc_Mount Enc_Unmount Enc_WriteToDrive Enc_LoadFromDrive Enc_Delete
  "\<lambda>d. key d \<noteq> None \<and> params d \<noteq> None \<and> ioWG d = 0" "\<lambda>d. ioWG d = 0"
proof
  fix d :: encrypted_drive and fp r h
  show "ioWG d = 0 \<Longrightarrow> ends (\<lambda>(e, d, h). ioWG d = 0) (Enc_WriteToDrive fp r d h)"
    by (rule ends_mono [OF Enc_WriteToDrive_ends]) auto
qed (auto simp: Enc_Mount_ends Enc_Unmount_ends Enc_Delete_ends Enc_LoadFromDrive_keeps)

text \<open>The constructors.\<close>

lemma copyFixture_ends: "ends (\<lambda>_. True) (copyFixture src h)"
proof -
  have "\<exists>n err r' s1. io_Copy conn_read (fs_Write f) r s = Some (n, err, r', s1)" for f r s
    using conn.Copy_writer [where P = "\<lambda>_. True" and wr = "fs_Write f" and s = r and w = s] by simp
  then show ?thesis
    by (auto simp: copyFixture_def Let_def split: prod.splits sum.splits option.splits) (metis option.distinct(1))
qed

lemma detect_returns: "\<exists>r h'. detectImageFilesystem p h = Return (r, h')"
proof -
  obtain x h1 where x: "on_fs (fs_Open p) h = (x, h1)" by (cases "on_fs (fs_Open p) h")
  show ?thesis
  proof (cases x)
    case (Inr f)
    obtain bs err f' where r: "io_ReadFull conn_read 4096 f = Some (bs, err, f')" using conn.ReadFull_total by blast
    obtain out e h2 where "exec [projr (lookPath h1 ''blkid''), ''-o'', ''value'', ''-s'', ''TYPE'', p] h1 = ((out, e), h2)"
      by (metis prod.collapse)
    then show ?thesis unfolding detectImageFilesystem_def x Inr prod.case sum.case r option.case Let_def by simp
  qed (simp add: detectImageFilesystem_def x)
qed

lemma BaseDriveFromImage_ends:
  "ends (\<lambda>(x, h'). case x of Inl e \<Rightarrow> True | Inr d \<Rightarrow> params d \<noteq> None \<and> ioWG d = 0) (BaseDriveFromImage path opts h)"
proof -
  have "\<exists>x. BaseDriveFromImage path opts h = Return x"
  proof (cases "path_Abs (getwd h) path")
    case (Inr a)
    obtain x h1 where x: "on_fs (fs_Stat a) h = (x, h1)" by (cases "on_fs (fs_Stat a) h")
    obtain y h2 where y: "detectImageFilesystem a h1 = Return (y, h2)" using detect_returns by blast
    show ?thesis unfolding BaseDriveFromImage_def Inr sum.case x prod.case y outcome.case
      by (cases x; cases y) (simp_all split: prod.split sum.split)
  qed (simp add: BaseDriveFromImage_def)
  then obtain x h' where x: "BaseDriveFromImage path opts h = Return (x, h')" by auto
  show ?thesis
  proof (cases x)
    case (Inr d)
    from BaseDriveFromImage_ok [OF x [unfolded Inr]] obtain p b where "d = newDrive p b" by blast
    with x Inr show ?thesis by (simp add: newDrive_def)
  qed (use x in simp)
qed

lemma EncryptedDriveFromImage_ready:
  "EncryptedDriveFromImage path ko opts h = (Inr d, h') \<Longrightarrow> key d \<noteq> None \<and> params d \<noteq> None \<and> ioWG d = 0"
  by (auto simp: EncryptedDriveFromImage_def if_ok_def newEncryptedDrive_def split: option.splits sum.splits prod.splits if_splits)

lemma ends_Stat: "(\<And>x h. ends (\<lambda>_. True) (k x h)) \<Longrightarrow> ends (\<lambda>_. True) (or_fail (Return r) f k)"
  by (rule ends_or_fail) (auto split: prod.splits sum.splits)

lemma ends_copy: "(\<And>x h. ends (\<lambda>_. True) (k x h)) \<Longrightarrow> ends (\<lambda>_. True) (or_fail (copyFixture src h) f k)"
  by (rule ends_or_fail, rule ends_mono [OF copyFixture_ends]) (auto split: sum.splits)

lemma ends_image:
  "(\<And>d h. params d \<noteq> None \<Longrightarrow> ioWG d = 0 \<Longrightarrow> ends (\<lambda>_. True) (k d h)) \<Longrightarrow>
     ends (\<lambda>_. True) (or_fail (BaseDriveFromImage path opts h) f k)"
  by (rule ends_or_fail, rule ends_mono [OF BaseDriveFromImage_ends]) (auto split: sum.splits)

lemma ends_must: "ends (\<lambda>_. True) r \<Longrightarrow> ends (\<lambda>_. True) (must r)"
  by (auto simp: ends_def must_def fail_def split: outcome.splits option.splits)

lemma RW_ends: "ends (\<lambda>_. True) (runRWScenario src m h)"
  unfolding runRWScenario_def
  by (intro ends_copy ends_Stat ends_image ends_drop_drive [where C = "\<lambda>d. ioWG d = 0"] plain_client.in_mount_dir_ends
      plain_client.write_and_check_ends plain_client.unmount_then plain_client.done_ends conjI)

lemma AutoRW_ends: "ends (\<lambda>_. True) (runAutoRWScenario src h)"
proof -
  have "ends (\<lambda>_. True) (drop_drive (in_mount_dir ''drive-auto-mnt-'' ''auto mount failed'' Mount Unmount
                 (write_and_check WriteToDrive LoadFromDrive (''auto write failed'', ''auto read failed'', ''auto payload mismatch'')
                   ''/scenario/auto.txt'' ''auto scenario payload'' done_with) d h2))" if "params d \<noteq> None" "ioWG d = 0" for d h2
    by (intro ends_drop_drive [where C = "\<lambda>d. ioWG d = 0"] plain_client.in_mount_dir_ends plain_client.write_and_check_ends
        plain_client.done_ends conjI that)
  then show ?thesis unfolding runAutoRWScenario_def
    by (intro ends_copy ends_image) (auto simp: Base_Parameters_def Clone_def split: option.split)
qed

lemma AutoDetect_ends: "ends (\<lambda>_. True) (runAutoDetectNoBackendScenario look src h)"
  unfolding runAutoDetectNoBackendScenario_def
proof (intro ends_copy)
  fix imgPath h1
  show "ends (\<lambda>_. True)
     (case BaseDriveFromImage imgPath None (set_PATH (look ''/nonexistent'') h1) of
        Panic \<Rightarrow> Panic
      | Blocked \<Rightarrow> Blocked
      | Return (r, h2) \<Rightarrow>
          Return
            ((case r of
                Inr d \<Rightarrow> Some (Msg ''expected mount autodetection failure with empty PATH'')
              | Inl e \<Rightarrow>
                  if \<not> Contains (error_text e) ''no usable mount method available''
                  then Some (Msg (''unexpected autodetect error: '' @ error_text e))
                  else None),
             set_PATH (lookPath h1) h2))"
    using BaseDriveFromImage_ends [of imgPath None "set_PATH (look ''/nonexistent'') h1"]
    by (auto simp: ends_def split: outcome.splits)
qed

lemma Squashfs_ends: "ends (\<lambda>_. True) (runSquashfsReadonlyScenario src h)"
proof -
  have w: "ends (\<lambda>(e, d, h). ioWG d = 0)
      (case LoadFromDrive ''/data/hello.txt'' d h of
         (Inl e, d1, h1) \<Rightarrow> Return (Some (Wrap ''read squashfs file failed'' e), d1, h1)
       | (Inr got, d1, h1) \<Rightarrow>
           if \<not> Contains (string_of got) ''hello from squashfs fixture''
           then Return (Some (Msg ''unexpected squashfs content''), d1, h1)
           else (case WriteToDrive ''/data/new.txt'' ([bytes_of ''x''], LibE EOF) d1 h1 of
                   Panic \<Rightarrow> Panic
                 | Blocked \<Rightarrow> Blocked
                 | Return (None, d2, h2) \<Rightarrow> Return (Some (Msg ''expected write to squashfs to fail''), d2, h2)
                 | Return (Some e, d2, h2) \<Rightarrow> Return (None, d2, h2)))" if "ioWG d = 0" for d h
  proof -
    obtain x h1 where l: "LoadFromDrive ''/data/hello.txt'' d h = (x, d, h1)"
      using LoadFromDrive_keeps [of "''/data/hello.txt''" d h] by (metis prod.collapse)
    from WriteToDrive_ends [of d "''/data/new.txt''" "([bytes_of ''x''], LibE EOF)" h1] that
    show ?thesis unfolding l by (cases x) (auto simp: ends_def split: outcome.splits option.splits)
  qed
  show ?thesis unfolding runSquashfsReadonlyScenario_def
    by (intro ends_Stat ends_image) (auto simp: Base_Parameters_def Clone_def split: option.split
        intro!: ends_drop_drive [where C = "\<lambda>d. ioWG d = 0"] plain_client.in_mount_dir_ends w)
qed

lemma DeleteEphemeral_ends: "ends (\<lambda>_. True) (runDeleteEphemeralScenario src h)"
  unfolding runDeleteEphemeralScenario_def
  by (intro ends_copy ends_Stat ends_image ends_drop_drive [where C = "\<lambda>d. ioWG d = 0"] plain_client.delete_then
      plain_client.expect_gone_ends)

lemma LUKSRW_ends: "ends (\<lambda>_. True) (runLUKSRWScenario h)"
proof -
  have s: "ends (\<lambda>_. True) (drop_drive (in_mount_dir ''drive-luks-mnt-'' ''mount encrypted drive failed'' Enc_Mount Enc_Unmount
           (write_and_check Enc_WriteToDrive Enc_LoadFromDrive
             (''write encrypted drive failed'', ''read encrypted drive failed'', ''encrypted payload mismatch'')
             ''/secure/data.txt'' ''luks scenario payload''
             (\<lambda>d h. and_then (Enc_Unmount d h) ''unmount encrypted drive failed''
               (\<lambda>d h. and_then (Enc_Delete d h) ''delete encrypted drive failed''
                 (expect_gone ''expected encrypted ephemeral image removed'' imgPath)))) d h4))"
    if "key d \<noteq> None \<and> params d \<noteq> None \<and> ioWG d = 0" for d imgPath h4
    by (intro ends_drop_drive [where C = "\<lambda>d. ioWG d = 0"] encrypted_client.in_mount_dir_ends encrypted_client.write_and_check_ends
        encrypted_client.unmount_then encrypted_client.delete_then encrypted_client.expect_gone_ends that)
  show ?thesis unfolding runLUKSRWScenario_def Let_def
    by (intro ends_Stat ends_or_fail) (auto split: sum.split prod.split dest!: EncryptedDriveFromImage_ready intro!: s)
qed

text \<open>
  C31: The test program never gets stuck by itself: on a host where every command and file operation that is run returns,
  and whatever the scenario, the files, and the failures of these operations and commands, no call of a drive dereferences
  nil or waits for I/O of the program that never ends, and the program exits with a status. (A command that hangs would hold the
  call that runs it; the code sets no timeout.) The scenarios call the drives from one goroutine, and none uses a drive after
  deleting it but for the deferred unmounting, which finds it not mounted.
\<close>

theorem scenarios_never_stuck: "\<exists>x h'. main look scenario fixtures h = Return (x, h')"
proof -
  have "ends (\<lambda>_. True) (main look scenario fixtures h)"
    unfolding main_def Let_def
    by (simp add: fail_def ends_must RW_ends AutoRW_ends AutoDetect_ends Squashfs_ends DeleteEphemeral_ends LUKSRW_ends)
  then show ?thesis by (auto simp: ends_def split: outcome.splits)
qed

end
