(* ===== verification/Drive_Verdicts.thy ===== *)
theory Drive_Verdicts
  imports Drive_Scenarios
begin

text \<open>
  The scenarios of \<^verbatim>\<open>drive/test_runner/main.go\<close> on a machine whose disk works: what their steps do there, and which
  of them the program passes. Together these are end-to-end statements on the drives: from the fixture through construction,
  mounting, writing, reading, unmounting and deleting to the exit status of the program and the state of the disk.
\<close>

section \<open>A machine whose disk works\<close>

definition healthy :: "host \<Rightarrow> bool" where
  "healthy h \<longleftrightarrow> fsFaults (files h) = [] \<and> fsReadEnd (files h) = (\<lambda>p. LibE EOF)"

text \<open>The path with the names \<open>D\<close> leads to the directory at \<open>d\<close>.\<close>

definition dir_at :: "tree \<Rightarrow> string list \<Rightarrow> string list \<Rightarrow> bool" where
  "dir_at t D d \<longleftrightarrow> names D \<and> resolve t D = Inr d \<and> node_at t d = Some Dir"

text \<open>The first bytes of a filesystem image that the detection takes for ext4.\<close>

definition ext4_image :: "byte list \<Rightarrow> bool" where
  "ext4_image b \<longleftrightarrow> 1082 \<le> length b \<and> length b < 2 ^ 63 \<and> take 4 b \<noteq> bytes_of ''hsqs'' \<and> take 4 b \<noteq> bytes_of ''sqsh''
     \<and> b ! 1080 = 0x53 \<and> b ! 1081 = 0xEF"

lemma abs_path_render [simp]: "names cs \<Longrightarrow> abs_path h (render True cs) = render True cs"
  by (simp add: abs_path_def render_facts)

lemma Base_render: "names (cs @ [n]) \<Longrightarrow> path_Base (render True (cs @ [n])) = n"
proof -
  assume a: "names (cs @ [n])"
  then have n: "n \<noteq> ''''" "CHR ''/'' \<notin> set n" by (auto simp: names_def name_ok_def)
  then have l: "last n \<noteq> CHR ''/''" by (metis last_in_set)
  have r: "render True (cs @ [n]) = CHR ''/'' # join_slash (cs @ [n])" by (simp add: render_def)
  have e: "\<exists>q. join_slash (cs @ [n]) = q @ n" by (cases "cs = []") (auto simp: join_slash_snoc)
  then have "last (join_slash (cs @ [n])) = last n \<and> join_slash (cs @ [n]) \<noteq> []" using n by auto
  then have "strip_trailing (render True (cs @ [n])) = render True (cs @ [n])"
    using l r by (cases "rev (join_slash (cs @ [n]))") (auto simp: strip_trailing_def last_rev)
  moreover have "split_slash (render True (cs @ [n])) = [] # cs @ [n]"
    using split_join_names [OF a] r by simp
  ultimately show ?thesis using r by (simp add: path_Base_def)
qed

text \<open>What is at the place of a path below a directory that holds no link there.\<close>

lemma below_dir:
  assumes "dir_at t D d" and "names (D @ [n])" and "\<forall>l. t (d @ [n]) \<noteq> Some (Link l)"
  shows "resolve t (D @ [n]) = Inr (d @ [n])"
  using resolve_plain [of t D d "[]" n] assms by (simp add: dir_at_def)

lemma healthy_Open:
  "healthy h \<Longrightarrow> names cs \<Longrightarrow> resolve (tree (files h)) cs = Inr f \<Longrightarrow> tree (files h) f = Some (File b) \<Longrightarrow> f \<noteq> [] \<Longrightarrow>
     on_fs (fs_Open (render True cs)) h = (Inr (if b = [] then [] else [b], LibE EOF), h)"
  by (simp add: healthy_def on_fs_def fs_Open_def fs_sys_healthy render_facts node_at_def)

lemma healthy_Stat:
  "healthy h \<Longrightarrow> names cs \<Longrightarrow> resolve (tree (files h)) cs = Inr f \<Longrightarrow> tree (files h) f = Some (File b) \<Longrightarrow> f \<noteq> [] \<Longrightarrow>
     on_fs (fs_Stat (render True cs)) h = (Inr (False, length b), h)"
  by (simp add: healthy_def on_fs_def fs_Stat_def fs_sys_healthy render_facts node_at_def)

text \<open>Copying into an open file.\<close>

lemma healthy_copy_to:
  assumes "fsFaults s = []" and "tree s f = Some (File a)" and "conn_fin r = LibE EOF"
  shows "\<exists>n r'. io_Copy conn_read (fs_Write f) r s = Some (n, None, r', s\<lparr>tree := (tree s)(f \<mapsto> File (a @ conn_avail r))\<rparr>)"
proof -
  let ?Q = "\<lambda>w. \<exists>b. w = s\<lparr>tree := (tree s)(f \<mapsto> File b)\<rparr>"
  have wr: "fst (fs_Write f w bs) = None \<and> ?Q (snd (fs_Write f w bs)) \<and> file_bytes f (snd (fs_Write f w bs)) = file_bytes f w @ bs"
    if "?Q w" for w bs using that assms(1) by (auto simp: fs_Write_def fs_sys_def file_bytes_def)
  have "s = s\<lparr>tree := (tree s)(f \<mapsto> File a)\<rparr>" using assms(2) by (cases s) auto
  then have Q: "?Q s" by blast
  from conn.copy_loop_willing_writer [where Q = ?Q and out = "file_bytes f" and k = 32768 and written = 0, OF wr _ Q, of r]
  obtain r' w where c: "io_Copy conn_read (fs_Write f) r s = Some (length (conn_avail r), None, r', w)"
    and w: "?Q w" "file_bytes f w = file_bytes f s @ conn_avail r" using assms(3) by (auto simp: io_Copy_def)
  from w assms(2) have "w = s\<lparr>tree := (tree s)(f \<mapsto> File (a @ conn_avail r))\<rparr>" by (auto simp: file_bytes_def)
  with c show ?thesis by blast
qed

lemma healthy_OpenTrunc:
  assumes "fsFaults s = []" and "names cs" and "resolve (tree s) cs = Inr f" and "node_at (tree s) f \<noteq> Some Dir"
  shows "fs_OpenTrunc (render True cs) s = (Inr f, s\<lparr>tree := (tree s)(f \<mapsto> File [])\<rparr>)"
  using assms by (auto simp: fs_OpenTrunc_def fs_sys_healthy render_facts split: option.splits node.splits)

section \<open>The steps of the scenarios\<close>

abbreviation copy_name :: string where "copy_name \<equiv> ''ext4.img-copy.img''"

text \<open>
  The fixture \<^verbatim>\<open>ext4.img\<close> in the directory with the names \<open>F\<close> holds the image \<open>b\<close>, and its copy can be made
  in the temporary directory, which is the directory \<open>t\<close>.
\<close>

definition test_host :: "host \<Rightarrow> string list \<Rightarrow> string list \<Rightarrow> string list \<Rightarrow> byte list \<Rightarrow> bool" where
  "test_host h F T t b \<longleftrightarrow> healthy h \<and> tempDir h = render True T \<and> dir_at (tree (files h)) T t \<and> names F
     \<and> (\<exists>f. resolve (tree (files h)) (F @ [''ext4.img'']) = Inr f \<and> f \<noteq> [] \<and> tree (files h) f = Some (File b) \<and> f \<noteq> t @ [copy_name])
     \<and> ext4_image b \<and> (tree (files h) (t @ [copy_name]) = None \<or> (\<exists>c. tree (files h) (t @ [copy_name]) = Some (File c)))"

definition put_file :: "string list \<Rightarrow> byte list \<Rightarrow> host \<Rightarrow> host" where
  "put_file p b h = h\<lparr>files := (files h)\<lparr>tree := (tree (files h))(p \<mapsto> File b)\<rparr>\<rparr>"

lemma put_file_fields [simp]:
  "tree (files (put_file p b h)) = (tree (files h))(p \<mapsto> File b)" "tempDir (put_file p b h) = tempDir h"
  "healthy (put_file p b h) = healthy h" "cmdLog (put_file p b h) = cmdLog h" "replies (put_file p b h) = replies h"
  "geteuid (put_file p b h) = geteuid h" "nextRoll (put_file p b h) = nextRoll h" "lookPath (put_file p b h) = lookPath h"
  by (simp_all add: put_file_def healthy_def)

lemma test_names: "names [''ext4.img'']" "names [copy_name]"
  by (simp_all add: names_def name_ok_def)

text \<open>Directories and links that stay keep a directory at its place.\<close>

lemma dir_at_grows:
  assumes "dir_at t D d" and "\<And>p x. t p = Some x \<Longrightarrow> \<forall>b. x \<noteq> File b \<Longrightarrow> t' p = Some x"
  shows "dir_at t' D d"
proof -
  have "resolve t' D = Inr d" by (rule walk_extends [of 40 t "[]" D d]) (use assms in \<open>auto simp: dir_at_def\<close>)
  moreover have "node_at t' d = Some Dir" using assms(1) assms(2) [of d Dir] by (auto simp: dir_at_def node_at_def split: if_splits)
  ultimately show ?thesis using assms(1) by (simp add: dir_at_def)
qed

lemma copyFixture_healthy:
  assumes "test_host h F T t b"
  shows "copyFixture (render True (F @ [''ext4.img''])) h = Return (Inr (render True (T @ [copy_name])), put_file (t @ [copy_name]) b h)"
proof -
  from assms obtain f where f: "resolve (tree (files h)) (F @ [''ext4.img'']) = Inr f" "f \<noteq> []" "tree (files h) f = Some (File b)"
    and h: "healthy h" "tempDir h = render True T" "dir_at (tree (files h)) T t" "names F" "ext4_image b"
      "tree (files h) (t @ [copy_name]) = None \<or> (\<exists>c. tree (files h) (t @ [copy_name]) = Some (File c))"
    unfolding test_host_def by (elim conjE exE)
  have n: "names (F @ [''ext4.img''])" "names (T @ [copy_name])" using h(3,4) test_names by (simp_all add: dir_at_def)
  have b: "b \<noteq> []" using h(5) by (auto simp: ext4_image_def)
  have j: "path_Join [tempDir h, path_Base (render True (F @ [''ext4.img''])) @ ''-copy.img''] = render True (T @ [copy_name])"
    using Base_render [OF n(1)] Join_render [OF n(2)] h(2) by simp
  have "resolve (tree (files h)) (T @ [copy_name]) = Inr (t @ [copy_name])" using below_dir [OF h(3) n(2)] h(6) by auto
  then have o: "fs_OpenTrunc (render True (T @ [copy_name])) (files h)
      = (Inr (t @ [copy_name]), (files h)\<lparr>tree := (tree (files h))(t @ [copy_name] \<mapsto> File [])\<rparr>)"
    by (rule healthy_OpenTrunc [rotated 2]) (use h n in \<open>auto simp: healthy_def\<close>)
  let ?s = "(files h)\<lparr>tree := (tree (files h))(t @ [copy_name] \<mapsto> File [])\<rparr>"
  have "fsFaults ?s = []" "tree ?s (t @ [copy_name]) = Some (File [])" using h(1) by (simp_all add: healthy_def)
  from healthy_copy_to [OF this, of "([b], LibE EOF)"]
  obtain m r' where c: "io_Copy conn_read (fs_Write (t @ [copy_name])) ([b], LibE EOF) ?s
      = Some (m, None, r', (files h)\<lparr>tree := (tree (files h))(t @ [copy_name] \<mapsto> File b)\<rparr>)" by auto
  have "fs_Close ((files h)\<lparr>tree := (tree (files h))(t @ [copy_name] \<mapsto> File b)\<rparr>)
      = (None, (files h)\<lparr>tree := (tree (files h))(t @ [copy_name] \<mapsto> File b)\<rparr>)"
    using h(1) by (simp add: fs_Close_def fs_sys_def healthy_def)
  with healthy_Open [OF h(1) n(1) f(1,3,2)] b j o c n show ?thesis
    by (simp add: copyFixture_def Let_def on_fs_def [of "fs_OpenTrunc _"] put_file_def)
qed

lemma detect_ext4:
  assumes "ext4_image b" and "on_fs (fs_Open p) h = (Inr ([b], LibE EOF), h)"
  shows "detectImageFilesystem p h = Return (Inr (''ext4'', False), h)"
proof -
  note b = assms(1) [unfolded ext4_image_def]
  have "\<exists>e s'. io_ReadFull conn_read 4096 ([b], LibE EOF) = Some (take 4096 b, e, s') \<and> (e = None \<or> e = Some (LibE ErrUnexpectedEOF))"
  proof (cases "4096 \<le> length b")
    case True
    with conn.ReadFull_ok [of 4096 "([b], LibE EOF)"] show ?thesis by auto
  next
    case False
    moreover have "b \<noteq> []" using b by auto
    ultimately show ?thesis using conn.ReadFull_short [of "([b], LibE EOF)" 4096] by auto
  qed
  then obtain e s' where "io_ReadFull conn_read 4096 ([b], LibE EOF) = Some (take 4096 b, e, s')" "e = None \<or> e = Some (LibE ErrUnexpectedEOF)"
    by blast
  with assms(2) b show ?thesis by (auto simp: detectImageFilesystem_def min_def)
qed

text \<open>A drive made from the copy with options that name a mount method.\<close>

lemma image_healthy:
  assumes "healthy h" and "names (T @ [n])" and "resolve (tree (files h)) (T @ [n]) = Inr p" and "p \<noteq> []"
    and "tree (files h) p = Some (File b)" and "ext4_image b" and "Options_Validate q" and "FSType q = ''ext4''" and "mountMethod q \<noteq> ''''"
  shows "BaseDriveFromImage (render True (T @ [n])) (Some q) h = Return (Inr (newDrive q (render True (T @ [n]))), h)"
proof -
  have b: "b \<noteq> []" using assms(6) by (auto simp: ext4_image_def)
  have d: "detectImageFilesystem (render True (T @ [n])) h = Return (Inr (''ext4'', False), h)"
    by (rule detect_ext4 [OF assms(6)]) (use healthy_Open [OF assms(1-3,5,4)] b in simp)
  have i: "image_params (Some q) (render True (T @ [n])) (length b) ''ext4'' False h = Inr q"
    using assms(9) by (simp add: image_params_def Clone_def)
  have v: "Base_Validate (newDrive q (render True (T @ [n])))" using assms(7) by (simp add: Base_Validate_def newDrive_def)
  show ?thesis
    unfolding BaseDriveFromImage_def path_Abs_render [OF assms(2)] sum.case healthy_Stat [OF assms(1-3,5,4)] prod.case d outcome.case i
    using b v assms(8) by simp
qed

lemma scenario_options_valid:
  assumes "ext4_image b" and "i \<noteq> ''''" and "m \<in> {MountMethodGuestMount, MountMethodLoop}"
  shows "\<exists>q. scenario_options i False eph (length b) ''ext4'' m = Some q \<and> Options_Validate q \<and> FSType q = ''ext4''
    \<and> mountMethod q = m \<and> ephemeral q = eph \<and> \<not> readonly q"
proof -
  have "sint (of_nat (length b) :: 64 word) = int (length b)"
    using assms(1) by (simp add: ext4_image_def signed_of_nat signed_take_bit_int_eq_self)
  moreover have "0 < length b" using assms(1) by (auto simp: ext4_image_def)
  ultimately show ?thesis using assms(2,3)
    by (auto simp: scenario_options_def NewDriveOptions_def Options_Validate_def FSType_def)
qed

text \<open>The copy is in place, and a drive has been made from it.\<close>

lemma copied:
  assumes "test_host h F T t b"
  shows "names (T @ [copy_name])" and "healthy (put_file (t @ [copy_name]) b h)"
    and "dir_at (tree (files (put_file (t @ [copy_name]) b h))) T t"
    and "resolve (tree (files (put_file (t @ [copy_name]) b h))) (T @ [copy_name]) = Inr (t @ [copy_name])"
proof -
  note h = assms [unfolded test_host_def]
  show n: "names (T @ [copy_name])" using h test_names by (simp add: dir_at_def)
  show "healthy (put_file (t @ [copy_name]) b h)" using h by simp
  have "dir_at ((tree (files h))(t @ [copy_name] \<mapsto> File b)) T t" by (rule dir_at_grows [of "tree (files h)"]) (use h in auto)
  then show d: "dir_at (tree (files (put_file (t @ [copy_name]) b h))) T t" by simp
  show "resolve (tree (files (put_file (t @ [copy_name]) b h))) (T @ [copy_name]) = Inr (t @ [copy_name])"
    by (rule below_dir [OF d n]) simp
qed

lemma drive_from_copy:
  assumes "test_host h F T t b" and "i \<noteq> ''''" and "m \<in> {MountMethodGuestMount, MountMethodLoop}"
  shows "\<exists>q. let p = render True (T @ [copy_name]); h1 = put_file (t @ [copy_name]) b h in
    on_fs (fs_Stat (abs_path h1 p)) h1 = (Inr (False, length b), h1)
    \<and> BaseDriveFromImage p (scenario_options i False eph (length b) ''ext4'' m) h1 = Return (Inr (newDrive q p), h1)
    \<and> Options_Validate q \<and> FSType q = ''ext4'' \<and> mountMethod q = m \<and> ephemeral q = eph \<and> \<not> readonly q"
proof -
  have x: "ext4_image b" using assms(1) by (simp add: test_host_def)
  from scenario_options_valid [OF x assms(2,3), of eph] obtain q where
    q: "scenario_options i False eph (length b) ''ext4'' m = Some q" "Options_Validate q" "FSType q = ''ext4''" "mountMethod q = m"
      "ephemeral q = eph" "\<not> readonly q" by blast
  note c = copied [OF assms(1)]
  let ?h = "put_file (t @ [copy_name]) b h"
  have f: "tree (files ?h) (t @ [copy_name]) = Some (File b)" by simp
  have s: "on_fs (fs_Stat (render True (T @ [copy_name]))) ?h = (Inr (False, length b), ?h)"
    by (rule healthy_Stat [OF c(2,1,4) f]) simp
  have d: "BaseDriveFromImage (render True (T @ [copy_name])) (Some q) ?h = Return (Inr (newDrive q (render True (T @ [copy_name]))), ?h)"
    by (rule image_healthy [OF c(2,1,4) _ f x q(2,3)]) (use q(4) assms(3) in auto)
  show ?thesis using s d q c(1) by (intro exI [of _ q]) (simp add: Let_def)
qed

lemma healthy_Remove:
  assumes "healthy h" and "dir_at (tree (files h)) T t" and "names (T @ [n])" and "tree (files h) (t @ [n]) = Some (File b)"
  shows "on_fs (fs_Remove (render True (T @ [n]))) h = (None, h\<lparr>files := (files h)\<lparr>tree := (tree (files h))(t @ [n] := None)\<rparr>\<rparr>)"
  using assms
  by (simp add: on_fs_def fs_Remove_def fs_sys_healthy healthy_def render_facts parent_place_def dir_at_def)

lemma gone_Stat:
  assumes "healthy h" and "dir_at (tree (files h)) T t" and "names (T @ [n])" and "tree (files h) (t @ [n]) = None"
  shows "on_fs (fs_Stat (render True (T @ [n]))) h = (Inl (LibE ErrNotExist), h)"
proof -
  have "resolve (tree (files h)) (T @ [n]) = Inr (t @ [n])" by (rule below_dir [OF assms(2,3)]) (use assms(4) in simp)
  with assms show ?thesis by (simp add: on_fs_def fs_Stat_def fs_sys_healthy healthy_def render_facts)
qed

text \<open>
  The scenario for ephemeral drives passes. On a machine whose disk works, whose fixture is an ext4 image and whose
  temporary directory can take the copy, the program exits with status 0 after making a drive from the copy and deleting it;
  the copy is gone, every other file is as before, and no command was run.
\<close>

theorem delete_scenario_passes:
  assumes "test_host h F T t b"
  shows "\<exists>h'. main look ''delete_ephemeral'' (render True F) h = Return (Exit0, h')
    \<and> tree (files h') = (tree (files h))(t @ [copy_name] := None) \<and> cmdLog h' = cmdLog h"
proof -
  note c = copied [OF assms]
  let ?p = "render True (T @ [copy_name])" and ?h1 = "put_file (t @ [copy_name]) b h"
  have n: "names (F @ [''ext4.img''])" using assms test_names by (simp add: test_host_def)
  obtain q where q: "on_fs (fs_Stat ?p) ?h1 = (Inr (False, length b), ?h1)"
    "BaseDriveFromImage ?p (scenario_options ''ephemeral'' False True (length b) ''ext4'' MountMethodLoop) ?h1 = Return (Inr (newDrive q ?p), ?h1)"
    "ephemeral q" using drive_from_copy [OF assms, of "''ephemeral''" MountMethodLoop True] c(1) by (auto simp: Let_def)
  let ?h2 = "?h1\<lparr>files := (files ?h1)\<lparr>tree := (tree (files ?h1))(t @ [copy_name] := None)\<rparr>\<rparr>"
  have rm: "on_fs (fs_Remove ?p) ?h1 = (None, ?h2)" by (rule healthy_Remove [OF c(2,3,1)]) simp
  have dl: "Delete (newDrive q ?p) ?h1 = Return (None, delete_end (newDrive q ?p), ?h2)"
    using q(3) rm c(1) by (simp add: Delete_def Unmount_def unmount_begin_def newDrive_def delete_snapshot_def delete_work_def)
  have d2: "dir_at (tree (files ?h2)) T t" by (rule dir_at_grows [OF c(3)]) (auto split: if_splits)
  have "healthy ?h2" using c(2) by (simp add: healthy_def)
  from gone_Stat [OF this d2 c(1)] have g: "on_fs (fs_Stat ?p) ?h2 = (Inl (LibE ErrNotExist), ?h2)" by simp
  have "runDeleteEphemeralScenario (render True (F @ [''ext4.img''])) h = Return (None, ?h2)"
    using q(1) c(1) g
    by (simp add: runDeleteEphemeralScenario_def copyFixture_healthy [OF assms] or_fail_def q(2) dl and_then_def drop_drive_def
        expect_gone_def is_gone_def)
  then show ?thesis using Join_render [OF n]
    by (intro exI [of _ ?h2]) (simp add: main_def Let_def must_def)
qed
text \<open>A machine with a fixture.\<close>

definition ext4_bytes :: "byte list" where
  "ext4_bytes = replicate 1080 0 @ [0x53, 0xEF]"

definition runner_host :: "reply list \<Rightarrow> host" where
  "runner_host rs =
     \<lparr>files = \<lparr>tree = [[''tmp''] \<mapsto> Dir, [''fixtures''] \<mapsto> Dir, [''fixtures'', ''ext4.img''] \<mapsto> File ext4_bytes],
        fsFaults = [], fsReadEnd = (\<lambda>p. LibE EOF)\<rparr>,
      getwd = Inr ''/'', tempDir = ''/tmp'', nextRoll = [5], geteuid = 0, lookPath = (\<lambda>n. Inr (''/bin/'' @ n)), replies = rs,
      cmdLog = [], mem = (\<lambda>a. []), nextMem = 1, openers = (\<lambda>i. [])\<rparr>"

lemma ext4_bytes_ok: "ext4_image ext4_bytes"
proof -
  have "take 4 ext4_bytes = replicate 4 0" by (simp add: ext4_bytes_def)
  moreover have "replicate 4 0 \<noteq> bytes_of ''hsqs''" "replicate 4 0 \<noteq> bytes_of ''sqsh''" by code_simp+
  ultimately show ?thesis by (simp add: ext4_image_def ext4_bytes_def nth_append)
qed

lemma runner_host_ok: "test_host (runner_host rs) [''fixtures''] [''tmp''] [''tmp''] ext4_bytes"
proof -
  have r: "resolve (tree (files (runner_host rs))) ([''fixtures''] @ [''ext4.img'']) = Inr [''fixtures'', ''ext4.img'']"
    "resolve (tree (files (runner_host rs))) [''tmp''] = Inr [''tmp'']"
    by (simp_all add: runner_host_def walk.simps)
  show ?thesis unfolding test_host_def
    by (intro conjI exI [of _ "[''fixtures'', ''ext4.img'']"] r(1) ext4_bytes_ok)
      (use r(2) in \<open>simp_all add: runner_host_def healthy_def dir_at_def names_def name_ok_def node_at_def render_def\<close>)
qed

theorem delete_scenario_passes_witness:
  "\<exists>h'. main (\<lambda>p. lookPath (runner_host [])) ''delete_ephemeral'' ''/fixtures'' (runner_host []) = Return (Exit0, h')
     \<and> tree (files h') [''tmp'', copy_name] = None"
proof -
  have "render True [''fixtures''] = ''/fixtures''" by (simp add: render_def)
  with delete_scenario_passes [OF runner_host_ok, of "\<lambda>p. lookPath (runner_host [])" "[]"] show ?thesis by auto
qed

section \<open>Mounting, writing and reading on a healthy machine\<close>

definition succeeds :: "reply \<Rightarrow> bool" where
  "succeeds r \<longleftrightarrow> startErr r = None \<and> exitErr r = None"

text \<open>The machine after the command \<open>args\<close> that got the reply \<open>r\<close>; \<open>rs\<close> are the replies left.\<close>

definition ran :: "string list \<Rightarrow> reply \<Rightarrow> reply list \<Rightarrow> host \<Rightarrow> host" where
  "ran args r rs h = h\<lparr>replies := rs, cmdLog := cmdLog h @ [\<lparr>argv = args, stdin = [], failed = False\<rparr>],
     files := (files h)\<lparr>tree := effect r (tree (files h))\<rparr>\<rparr>"

lemma ran_fields [simp]:
  "replies (ran args r rs h) = rs" "tree (files (ran args r rs h)) = effect r (tree (files h))"
  "map argv (cmdLog (ran args r rs h)) = map argv (cmdLog h) @ [args]" "healthy (ran args r rs h) = healthy h"
  "geteuid (ran args r rs h) = geteuid h" "getwd (ran args r rs h) = getwd h"
  by (simp_all add: ran_def healthy_def)

lemma exec_ran: "replies h = r # rs \<Longrightarrow> succeeds r \<Longrightarrow> exec args h = ((stdoutOf r, None), ran args r rs h)"
  by (simp add: exec_def exec_input_def next_reply_def succeeds_def ran_def)

text \<open>The commands of a loop mount and of its unmounting.\<close>

lemma loop_Mount:
  assumes "geteuid h = 0" and "replies h = r1 # r2 # rs" and "succeeds r1" and "succeeds r2" and "mp \<noteq> ''''"
    and "FSType q = ''ext4''" and "mountMethod q = MountMethodLoop" and "\<not> readonly q"
  shows "Mount mp (newDrive q img) h = Return (None, set_mounted mp (LoopUnmount mp (TrimSpace (string_of (stdoutOf r1)))) (newDrive q img),
    ran [''mount'', ''-t'', ''ext4'', ''-o'', ''nosuid,nodev,noexec'', TrimSpace (string_of (stdoutOf r1)), mp] r2 rs
      (ran [''losetup'', ''--find'', ''--show'', img] r1 (r2 # rs) h))"
  using assms by (simp add: Mount_def newDrive_def mountWithLoopDevice_def exec_ran Let_def)

lemma loop_Unmount:
  assumes "replies h = r3 # r4 # rs" and "succeeds r3" and "succeeds r4" and "\<not> ephemeral q"
  shows "Unmount (set_mounted mp (LoopUnmount mp dev) (newDrive q img)) h
    = Return (None, newDrive q img, ran [''losetup'', ''-d'', dev] r4 rs (ran [''umount'', mp] r3 (r4 # rs) h))"
  using assms
  by (simp add: Unmount_def unmount_begin_def unmount_snapshot_def unmount_work_def set_mounted_def newDrive_def loop_unmount_def exec_ran)

text \<open>A file in a directory that does not exist yet.\<close>

lemma new_segments:
  assumes "dir_at (tree s) M m" and "names (M @ [a, n])" and "fsFaults s = []" and "tree s (m @ [a]) = None"
  shows "check_segments True mp (render True M) [a, n] s = (None, s)"
proof -
  have a: "names (M @ [a])" "a \<noteq> ''''" "a \<noteq> ''.''" using assms(2) by (auto simp: names_def name_ok_def)
  have "lstat_node (tree s) (M @ [a]) = Inl (LibE ErrNotExist)"
    using lstat_node_dirs [of "tree s" M m "[]" a] assms(1,4) by (simp add: dir_at_def names_def)
  then have "fs_Lstat (render True (M @ [a])) s = (Inl (LibE ErrNotExist), s)"
    using a(1) assms(3) by (simp add: fs_Lstat_def fs_sys_healthy render_facts del: names_append)
  with Join_render [OF a(1)] a show ?thesis by simp
qed

lemma healthy_write_file:
  assumes "dir_at (tree s) M m" and "tree_ok (tree s)" and "names (M @ [a, n])" and "fsFaults s = []" and "tree s (m @ [a]) = None"
    and "conn_fin r = LibE EOF"
  shows "write_file wd (render True M) (''/'' @ join_slash [a, n]) r s
    = Some (None, s\<lparr>tree := (tree s)(m @ [a] \<mapsto> Dir, m @ [a, n] \<mapsto> File (conn_avail r))\<rparr>)"
proof -
  note d = assms(1) [unfolded dir_at_def]
  have nm: "names M" "names [a, n]" "names (M @ [a])" "names [a]" "a \<noteq> ''..''" "names ((M @ [a]) @ [n])"
    using assms(3) by (auto simp: names_def)
  let ?p = "render True (M @ [a, n])"
  have sp: "safeDrivePath wd (render True M) (''/'' @ join_slash [a, n]) = Inr ?p"
    by (rule safeDrivePath_plain) (use nm in auto)
  have pc: "pathCheck wd (render True M) (''/'' @ join_slash [a, n]) True s = (Inr ?p, s)"
    using sp new_segments [OF assms(1,3,4,5)] join_slash_dot [OF nm(2)] split_join_names [OF nm(2)]
    by (simp add: pathCheck_def noSymLinks_def path_Abs_render [OF nm(1)] path_Abs_render [OF assms(3)] Rel_render [OF nm(1) assms(3)]
        del: join_slash.simps)
  have dir: "path_Dir ?p = render True (M @ [a])" using Dir_render [OF nm(6)] by simp
  let ?s2 = "s\<lparr>tree := (tree s)(m @ [a] \<mapsto> Dir)\<rparr>"
  obtain k where k: "\<And>ys. mkdirs 40 [] [] (M @ ys) s = mkdirs k m [] ys s"
    using mkdirs_walk [of 40 s "[]" "[]" M m] d by auto
  have mk: "fs_MkdirAll (render True (M @ [a])) s = (None, ?s2)"
    using k [of "[a]"] nm(5) assms(4,5) render_facts(3) [OF nm(3)]
    by (simp add: fs_MkdirAll_def mkdirs.simps fs_sys_healthy del: names_append)
  have "dir_at (tree ?s2) M m" by (rule dir_at_grows [OF assms(1)]) (use assms(5) in auto)
  then have r2: "resolve (tree ?s2) M = Inr m" "node_at (tree ?s2) m = Some Dir" by (simp_all add: dir_at_def)
  have cs: "check_segments False (render True M) (render True (M @ [])) [a] ?s2 = (None, ?s2)"
    by (rule check_segments_pass [OF r2]) (use assms(4) nm(3) in auto)
  have ns: "noSymLinks wd (render True M) (render True (M @ [a])) False ?s2 = (None, ?s2)"
    using cs join_slash_dot [OF nm(4)] split_join_names [OF nm(4)]
    by (simp add: noSymLinks_def path_Abs_render [OF nm(1)] path_Abs_render [OF nm(3)] Rel_render [OF nm(1,3)])
  have none: "tree ?s2 (m @ [a] @ [n]) = None" using tree_ok_below [OF assms(2,5)] by simp
  have df: "dirs_from (tree ?s2) m [a]" by simp
  have ls: "fs_Lstat ?p ?s2 = (Inl (LibE ErrNotExist), ?s2)"
    using lstat_node_dirs [OF r2 df nm(4), of n] none assms(4) render_facts(3) [OF assms(3)]
    by (simp add: fs_Lstat_def fs_sys_healthy)
  have rs: "resolve (tree ?s2) (M @ [a, n]) = Inr (m @ [a, n])"
    using resolve_plain [OF r2 df, of n] none nm(2) by simp
  have ot: "fs_OpenTrunc ?p ?s2 = (Inr (m @ [a, n]), ?s2\<lparr>tree := (tree ?s2)(m @ [a, n] \<mapsto> File [])\<rparr>)"
    by (rule healthy_OpenTrunc [OF _ assms(3) rs]) (use assms(4) none in \<open>simp_all add: node_at_def\<close>)
  let ?s3 = "?s2\<lparr>tree := (tree ?s2)(m @ [a, n] \<mapsto> File [])\<rparr>"
  have "fsFaults ?s3 = []" "tree ?s3 (m @ [a, n]) = Some (File [])" using assms(4) by simp_all
  from healthy_copy_to [OF this assms(6)] obtain c r' where cp: "io_Copy conn_read (fs_Write (m @ [a, n])) r ?s3
      = Some (c, None, r', ?s3\<lparr>tree := (tree ?s3)(m @ [a, n] \<mapsto> File ([] @ conn_avail r))\<rparr>)" by blast
  have op: "open_target (''/'' @ join_slash [a, n]) ?p ?s2 = (Inr (m @ [a, n]), ?s3)"
    unfolding open_target_def ls prod.case sum.case ot by simp
  have "copy_to_file (m @ [a, n]) r ?s3 = Some (None, s\<lparr>tree := (tree s)(m @ [a] \<mapsto> Dir, m @ [a, n] \<mapsto> File (conn_avail r))\<rparr>)"
    unfolding copy_to_file_def cp option.case prod.case using assms(4) by (simp add: fs_Close_def fs_sys_healthy)
  then show ?thesis
    unfolding write_file_def pc prod.case sum.case dir mk option.case ns op .
qed

lemma healthy_load_file:
  assumes "dir_at (tree s) M m" and "names (M @ [a, n])" and "fsFaults s = []" and "fsReadEnd s = (\<lambda>p. LibE EOF)"
    and "tree s (m @ [a]) = Some Dir" and "tree s (m @ [a, n]) = Some (File b)"
  shows "load_file wd (render True M) (''/'' @ join_slash [a, n]) s = (Inr b, s)"
proof -
  note d = assms(1) [unfolded dir_at_def]
  have nm: "names M" "names [a, n]" using assms(2) by auto
  have sp: "safeDrivePath wd (render True M) (''/'' @ join_slash [a, n]) = Inr (render True (M @ [a, n]))"
    by (rule safeDrivePath_plain) (use nm in auto)
  have pc: "pathCheck wd (render True M) (''/'' @ join_slash [a, n]) False s = (Inr (render True (M @ [a, n])), s)"
    by (rule pathCheck_pass [OF sp path_Abs_render [OF nm(1)] assms(2)]) (use d assms(3,5,6) in auto)
  have "resolve (tree s) (M @ [a] @ [n]) = Inr (m @ [a] @ [n])"
    by (rule resolve_plain) (use d assms(5,6) nm in auto)
  then have "fs_ReadFile (render True (M @ [a, n])) s = (Inr b, s)"
    using assms(3,4,6) render_facts(3) [OF assms(2)] by (simp add: fs_ReadFile_def fs_Open_def fs_sys_healthy node_at_def)
  then show ?thesis unfolding load_file_def pc prod.case sum.case by simp
qed

section \<open>The read-write scenario\<close>

text \<open>
  The four commands of a loop mount and of its unmounting succeed. Mounting shows, at the directory \<open>m\<close>, the root of
  some filesystem that has no entry \<^verbatim>\<open>scenario\<close>; mounting and unmounting change nothing elsewhere.
\<close>

definition changes_below :: "string list \<Rightarrow> reply \<Rightarrow> bool" where
  "changes_below m r \<longleftrightarrow> (\<forall>t p. take (length m) p \<noteq> m \<longrightarrow> effect r t p = t p)"

definition loop_replies :: "string list \<Rightarrow> reply \<Rightarrow> reply \<Rightarrow> reply \<Rightarrow> reply \<Rightarrow> bool" where
  "loop_replies m r1 r2 r3 r4 \<longleftrightarrow> succeeds r1 \<and> succeeds r2 \<and> succeeds r3 \<and> succeeds r4
     \<and> (\<forall>t. effect r1 t = t \<and> effect r4 t = t) \<and> changes_below m r2 \<and> changes_below m r3
     \<and> (\<forall>t. tree_ok t \<and> t m = Some Dir \<longrightarrow>
          tree_ok (effect r2 t) \<and> effect r2 t m = Some Dir \<and> effect r2 t (m @ [''scenario'']) = None)"

lemma tree_ok_put:
  assumes "tree_ok t" and "node_at t d = Some Dir" and "t (d @ [n]) = None \<or> (\<exists>c. t (d @ [n]) = Some (File c))"
  shows "tree_ok (t(d @ [n] \<mapsto> x))"
  unfolding tree_ok_def
proof (intro allI impI)
  fix p c
  assume a: "(t(d @ [n] \<mapsto> x)) (p @ [c]) \<noteq> None"
  show "node_at (t(d @ [n] \<mapsto> x)) p = Some Dir"
  proof (cases "p @ [c] = d @ [n]")
    case True
    with assms(2) show ?thesis by (auto simp: node_at_def)
  next
    case False
    with a have "t (p @ [c]) \<noteq> None" by (auto split: if_splits)
    then have "node_at t p = Some Dir" using assms(1) unfolding tree_ok_def by blast
    moreover from this have "p \<noteq> d @ [n]" using assms(3) by auto
    ultimately show ?thesis by (simp add: node_at_def split: if_splits)
  qed
qed

lemma names_temp: "names [''drive-mnt-'' @ itoa n]"
  using itoa_no_slash [of n] by (simp add: names_def name_ok_def)

lemma render_snoc: "T \<noteq> [] \<Longrightarrow> render True (T @ [n]) = render True T @ ''/'' @ n"
  by (simp add: render_def join_slash_snoc)

lemma healthy_MkdirTemp:
  assumes "healthy h" and "tempDir h = render True T" and "T \<noteq> []" and "dir_at (tree (files h)) T t" and "nextRoll h = roll # more_rolls"
    and "names [pattern @ itoa (unat roll)]" and "tree (files h) (t @ [pattern @ itoa (unat roll)]) = None"
  shows "os_MkdirTemp pattern h = (Inr (render True (T @ [pattern @ itoa (unat roll)])),
    h\<lparr>files := (files h)\<lparr>tree := (tree (files h))(t @ [pattern @ itoa (unat roll)] \<mapsto> Dir)\<rparr>, nextRoll := more_rolls\<rparr>)"
proof -
  let ?n = "pattern @ itoa (unat roll)"
  have n: "names (T @ [?n])" using assms(4,6) by (simp add: dir_at_def)
  have "fs_Mkdir (render True (T @ [?n])) (files h) = (None, (files h)\<lparr>tree := (tree (files h))(t @ [?n] \<mapsto> Dir)\<rparr>)"
    using assms(1,4,7) render_facts(3) [OF n] by (simp add: fs_Mkdir_def fs_sys_healthy healthy_def parent_place_def dir_at_def)
  then show ?thesis using assms(2,3,5) by (simp add: os_MkdirTemp_def on_fs_def render_snoc)
qed

text \<open>A mounted plain drive that can be written, on a machine whose disk works.\<close>

lemma healthy_write_and_load:
  assumes "healthy h" and "dir_at (tree (files h)) M m" and "tree_ok (tree (files h))" and "names (M @ [a, n])"
    and "tree (files h) (m @ [a]) = None" and "Options_Validate q" and "FSType q = ''ext4''" and "\<not> readonly q"
  shows "\<exists>h'. WriteToDrive (''/'' @ join_slash [a, n]) ([bs], LibE EOF) (set_mounted (render True M) f (newDrive q img)) h
      = Return (None, set_mounted (render True M) f (newDrive q img), h')
    \<and> LoadFromDrive (''/'' @ join_slash [a, n]) (set_mounted (render True M) f (newDrive q img)) h'
      = (Inr bs, set_mounted (render True M) f (newDrive q img), h')
    \<and> h' = h\<lparr>files := (files h)\<lparr>tree := (tree (files h))(m @ [a] \<mapsto> Dir, m @ [a, n] \<mapsto> File bs)\<rparr>\<rparr>"
proof -
  let ?d = "set_mounted (render True M) f (newDrive q img)" and ?fp = "''/'' @ join_slash [a, n]"
  let ?s = "(files h)\<lparr>tree := (tree (files h))(m @ [a] \<mapsto> Dir, m @ [a, n] \<mapsto> File bs)\<rparr>"
  have hf: "fsFaults (files h) = []" "fsReadEnd (files h) = (\<lambda>p. LibE EOF)" using assms(1) by (simp_all add: healthy_def)
  have v: "Base_Validate ?d" "mountPoint ?d = render True M" "mounted ?d" "\<not> unMounting ?d" "params ?d = Some q"
    using assms(6) by (simp_all add: Base_Validate_def set_mounted_def newDrive_def)
  have "write_file (getwd h) (render True M) ?fp ([bs], LibE EOF) (files h) = Some (None, ?s)"
    using healthy_write_file [OF assms(2,3,4) hf(1) assms(5), of "([bs], LibE EOF)"] by simp
  then have w: "WriteToDrive ?fp ([bs], LibE EOF) ?d h = Return (None, ?d, h\<lparr>files := ?s\<rparr>)"
    using v assms(7,8) by (simp add: WriteToDrive_def write_begin_def del: join_slash.simps)
  have d: "dir_at (tree ?s) M m"
    by (rule dir_at_grows [OF assms(2)])
      (use assms(5) tree_ok_below [OF assms(3,5)] in \<open>auto split: if_splits\<close>)
  have "load_file (getwd h) (render True M) ?fp ?s = (Inr bs, ?s)"
    by (rule healthy_load_file [OF d assms(4)]) (use hf in simp_all)
  then have "LoadFromDrive ?fp ?d (h\<lparr>files := ?s\<rparr>) = (Inr bs, ?d, h\<lparr>files := ?s\<rparr>)"
    using v by (simp add: LoadFromDrive_def load_begin_def on_fs_def del: join_slash.simps)
  with w show ?thesis by blast
qed

text \<open>What is below a fresh directory is what was mounted there; elsewhere the tree stays.\<close>

definition same_outside :: "string list \<Rightarrow> tree \<Rightarrow> tree \<Rightarrow> bool" where
  "same_outside m t t' \<longleftrightarrow> (\<forall>p. take (length m) p \<noteq> m \<longrightarrow> t' p = t p)"

lemma same_outside_trans: "same_outside m t1 t2 \<Longrightarrow> same_outside m t2 t3 \<Longrightarrow> same_outside m t1 t3"
  by (simp add: same_outside_def)

lemma same_outside_dir:
  assumes "same_outside m t t'" and "tree_ok t" and "t m = None" and "m \<noteq> []"
  shows "t p = Some x \<Longrightarrow> t' p = Some x"
proof -
  assume x: "t p = Some x"
  have "take (length m) p \<noteq> m"
  proof
    assume "take (length m) p = m"
    then obtain q where "p = m @ q" by (metis append_take_drop_id)
    with x tree_ok_below_any [OF assms(2,3,4), of q] show False by simp
  qed
  with x assms(1) show ?thesis by (simp add: same_outside_def)
qed

lemma healthy_RemoveAll:
  assumes "healthy h" and "dir_at (tree (files h)) T t" and "names (T @ [n])"
  shows "on_fs (fs_RemoveAll (render True (T @ [n]))) h = (None, h\<lparr>files := (files h)\<lparr>tree :=
    (\<lambda>q. if take (length (t @ [n])) q = t @ [n] then None else tree (files h) q)\<rparr>\<rparr>)"
  using assms by (simp add: on_fs_def fs_RemoveAll_def fs_sys_healthy healthy_def render_facts parent_place_def dir_at_def)

text \<open>The whole of a scenario between the making of the directory and its removal, for a loop mount.\<close>

lemma loop_scenario:
  fixes h :: host
  assumes h: "healthy h" "geteuid h = 0" "replies h = r1 # r2 # r3 # r4 # rs" "loop_replies m r1 r2 r3 r4"
    and t: "dir_at (tree (files h)) M m" "tree_ok (tree (files h))" "tree (files h) m = Some Dir"
      "\<And>q. q \<noteq> [] \<Longrightarrow> tree (files h) (m @ q) = None"
    and q: "Options_Validate q" "FSType q = ''ext4''" "mountMethod q = MountMethodLoop" "\<not> readonly q" "\<not> ephemeral q"
  shows "\<exists>h'. and_then (Mount (render True M) (newDrive q img) h) ''mount failed'' (\<lambda>d h. deferred Unmount
        (write_and_check WriteToDrive LoadFromDrive (''write failed'', ''read failed'', ''payload mismatch'')
         ''/scenario/file.txt'' ''scenario payload'' (\<lambda>d h. and_then (Unmount d h) ''unmount failed'' done_with) d h))
      = Return (None, newDrive q img, h')
    \<and> healthy h' \<and> same_outside m (tree (files h)) (tree (files h'))
    \<and> map argv (cmdLog h') = map argv (cmdLog h) @ [[''losetup'', ''--find'', ''--show'', img],
        [''mount'', ''-t'', ''ext4'', ''-o'', ''nosuid,nodev,noexec'', TrimSpace (string_of (stdoutOf r1)), render True M],
        [''umount'', render True M], [''losetup'', ''-d'', TrimSpace (string_of (stdoutOf r1))]]"
proof -
  let ?dev = "TrimSpace (string_of (stdoutOf r1))" and ?mp = "render True M"
  note r = h(4) [unfolded loop_replies_def]
  let ?h2 = "ran [''mount'', ''-t'', ''ext4'', ''-o'', ''nosuid,nodev,noexec'', ?dev, ?mp] r2 (r3 # r4 # rs)
      (ran [''losetup'', ''--find'', ''--show'', img] r1 (r2 # r3 # r4 # rs) h)"
  let ?d = "set_mounted ?mp (LoopUnmount ?mp ?dev) (newDrive q img)"
  have mt: "Mount ?mp (newDrive q img) h = Return (None, ?d, ?h2)"
    by (rule loop_Mount [OF h(2,3)]) (use r q in simp_all)
  have t2: "tree (files ?h2) = effect r2 (tree (files h))" using r by simp
  have s2: "same_outside m (tree (files h)) (tree (files ?h2))" using r t2 by (simp add: same_outside_def changes_below_def)
  have e2: "tree_ok (tree (files ?h2))" "tree (files ?h2) m = Some Dir" "tree (files ?h2) (m @ [''scenario'']) = None"
    using r t(2,3) t2 by simp_all
  have d2: "dir_at (tree (files ?h2)) M m"
  proof (rule dir_at_grows [OF t(1)])
    fix p x
    assume x: "tree (files h) p = Some x"
    show "tree (files ?h2) p = Some x"
    proof (cases "take (length m) p = m")
      case True
      then obtain q' where "p = m @ q'" by (metis append_take_drop_id)
      with x t(3) t(4) [of q'] e2(2) show ?thesis by (cases "q' = []") auto
    next
      case False
      with s2 x show ?thesis by (simp add: same_outside_def)
    qed
  qed
  have nm: "names (M @ [''scenario'', ''file.txt''])" using t(1) by (simp add: dir_at_def names_def name_ok_def)
  have fp: "''/'' @ join_slash [''scenario'', ''file.txt''] = ''/scenario/file.txt''" by simp
  obtain h3 where wl: "WriteToDrive ''/scenario/file.txt'' ([bytes_of ''scenario payload''], LibE EOF) ?d ?h2 = Return (None, ?d, h3)"
      "LoadFromDrive ''/scenario/file.txt'' ?d h3 = (Inr (bytes_of ''scenario payload''), ?d, h3)"
    and h3: "h3 = ?h2\<lparr>files := (files ?h2)\<lparr>tree := (tree (files ?h2))(m @ [''scenario''] \<mapsto> Dir,
          m @ [''scenario'', ''file.txt''] \<mapsto> File (bytes_of ''scenario payload''))\<rparr>\<rparr>"
    using healthy_write_and_load [OF _ d2 e2(1) nm e2(3) q(1,2,4), of "bytes_of ''scenario payload''" "LoopUnmount ?mp ?dev" img] h(1)
    unfolding fp by auto
  have s3: "same_outside m (tree (files ?h2)) (tree (files h3))" by (auto simp: h3 same_outside_def)
  have l3: "replies h3 = r3 # r4 # rs" "healthy h3" "cmdLog h3 = cmdLog ?h2" using h(1) by (simp_all add: h3 healthy_def ran_def)
  let ?h4 = "ran [''losetup'', ''-d'', ?dev] r4 rs (ran [''umount'', ?mp] r3 (r4 # rs) h3)"
  have um: "Unmount ?d h3 = Return (None, newDrive q img, ?h4)"
    by (rule loop_Unmount [OF l3(1)]) (use r q in simp_all)
  have "same_outside m (tree (files h3)) (tree (files ?h4))" using r by (simp add: same_outside_def changes_below_def)
  then have s4: "same_outside m (tree (files h)) (tree (files ?h4))" using s2 s3 same_outside_trans by blast
  have w: "write_and_check WriteToDrive LoadFromDrive (''write failed'', ''read failed'', ''payload mismatch'')
         ''/scenario/file.txt'' ''scenario payload'' (\<lambda>d h. and_then (Unmount d h) ''unmount failed'' done_with) ?d ?h2
      = Return (None, newDrive q img, ?h4)"
    by (simp add: write_and_check_def wl(1) and_then_def wl(2) um done_with_def)
  have un: "Unmount (newDrive q img) ?h4 = Return (Some (DriveE ErrDriveNotMounted), newDrive q img, ?h4)"
    by (simp add: Unmount_def unmount_begin_def newDrive_def)
  have at: "and_then (Return (None, d, h)) msg k = k d h" for d :: drive and h msg k by (simp add: and_then_def)
  have "and_then (Mount ?mp (newDrive q img) h) ''mount failed'' (\<lambda>d h. deferred Unmount
        (write_and_check WriteToDrive LoadFromDrive (''write failed'', ''read failed'', ''payload mismatch'')
         ''/scenario/file.txt'' ''scenario payload'' (\<lambda>d h. and_then (Unmount d h) ''unmount failed'' done_with) d h))
      = Return (None, newDrive q img, ?h4)" unfolding mt at w deferred_def outcome.case prod.case un ..
  moreover have "map argv (cmdLog ?h4) = map argv (cmdLog h) @ [[''losetup'', ''--find'', ''--show'', img],
        [''mount'', ''-t'', ''ext4'', ''-o'', ''nosuid,nodev,noexec'', ?dev, ?mp], [''umount'', ?mp], [''losetup'', ''-d'', ?dev]]"
    by (simp add: l3(3))
  moreover have "healthy ?h4" using l3(2) by simp
  ultimately show ?thesis using s4 by blast
qed

lemma same_outside_cleared:
  assumes "same_outside m t t'" and "tree_ok t" and "t m = None" and "m \<noteq> []"
  shows "(\<lambda>q. if take (length m) q = m then None else t' q) = t"
proof
  fix q
  show "(if take (length m) q = m then None else t' q) = t q"
  proof (cases "take (length m) q = m")
    case True
    then obtain q' where "q = m @ q'" by (metis append_take_drop_id)
    with True tree_ok_below_any [OF assms(2,3,4), of q'] show ?thesis by simp
  next
    case False
    with assms(1) show ?thesis by (simp add: same_outside_def)
  qed
qed

text \<open>The same with the making and the removal of the directory: the disk is as before.\<close>

lemma loop_in_mount_dir:
  fixes h :: host
  assumes h: "healthy h" "geteuid h = 0" "replies h = r1 # r2 # r3 # r4 # rs" "loop_replies m r1 r2 r3 r4"
    and r: "tempDir h = render True T" "T \<noteq> []" "nextRoll h = roll # more_rolls" "m = t @ [''drive-mnt-'' @ itoa (unat roll)]"
    and t: "dir_at (tree (files h)) T t" "tree_ok (tree (files h))" "tree (files h) m = None"
    and q: "Options_Validate q" "FSType q = ''ext4''" "mountMethod q = MountMethodLoop" "\<not> readonly q" "\<not> ephemeral q"
  shows "\<exists>h'. in_mount_dir ''drive-mnt-'' ''mount failed'' Mount Unmount
       (write_and_check WriteToDrive LoadFromDrive (''write failed'', ''read failed'', ''payload mismatch'')
         ''/scenario/file.txt'' ''scenario payload'' (\<lambda>d h. and_then (Unmount d h) ''unmount failed'' done_with)) (newDrive q img) h
      = Return (None, newDrive q img, h')
    \<and> tree (files h') = tree (files h)
    \<and> map argv (cmdLog h') = map argv (cmdLog h) @ [[''losetup'', ''--find'', ''--show'', img],
        [''mount'', ''-t'', ''ext4'', ''-o'', ''nosuid,nodev,noexec'', TrimSpace (string_of (stdoutOf r1)), render True (T @ [last m])],
        [''umount'', render True (T @ [last m])], [''losetup'', ''-d'', TrimSpace (string_of (stdoutOf r1))]]"
proof -
  let ?n = "''drive-mnt-'' @ itoa (unat roll)"
  have n: "names (T @ [?n])" "last m = ?n" using t(1) names_temp r(4) by (simp_all add: dir_at_def)
  note m1 = t(3) [unfolded r(4)]
  let ?h2 = "h\<lparr>files := (files h)\<lparr>tree := (tree (files h))(t @ [?n] \<mapsto> Dir)\<rparr>, nextRoll := more_rolls\<rparr>"
  have mk: "os_MkdirTemp ''drive-mnt-'' h = (Inr (render True (T @ [?n])), ?h2)"
    by (rule healthy_MkdirTemp [OF h(1) r(1,2) t(1) r(3) names_temp m1])
  have ok2: "tree_ok (tree (files ?h2))" using tree_ok_put [OF t(2), of t ?n Dir] t(1) m1 by (simp add: dir_at_def)
  have "dir_at (tree (files ?h2)) T t" by (rule dir_at_grows [OF t(1)]) (use m1 in auto)
  from below_dir [OF this n(1)] n(1) have d2: "dir_at (tree (files ?h2)) (T @ [?n]) m" by (simp add: dir_at_def r(4))
  have empty: "tree (files ?h2) (m @ q) = None" if "q \<noteq> []" for q
    using tree_ok_below_any [OF t(2) m1, of q] that r(4) by (simp split: if_splits)
  note run = loop_scenario [OF _ _ _ h(4) d2 ok2 _ empty q, of rs img]
  obtain h' where run: "and_then (Mount (render True (T @ [?n])) (newDrive q img) ?h2) ''mount failed'' (\<lambda>d h. deferred Unmount
        (write_and_check WriteToDrive LoadFromDrive (''write failed'', ''read failed'', ''payload mismatch'')
         ''/scenario/file.txt'' ''scenario payload'' (\<lambda>d h. and_then (Unmount d h) ''unmount failed'' done_with) d h))
      = Return (None, newDrive q img, h')"
    and h': "healthy h'" "same_outside m (tree (files ?h2)) (tree (files h'))"
    and log: "map argv (cmdLog h') = map argv (cmdLog ?h2) @ [[''losetup'', ''--find'', ''--show'', img],
        [''mount'', ''-t'', ''ext4'', ''-o'', ''nosuid,nodev,noexec'', TrimSpace (string_of (stdoutOf r1)), render True (T @ [?n])],
        [''umount'', render True (T @ [?n])], [''losetup'', ''-d'', TrimSpace (string_of (stdoutOf r1))]]"
    using run h r(4) by (auto simp: healthy_def)
  have "same_outside m (tree (files h)) (tree (files ?h2))" by (auto simp: same_outside_def r(4))
  then have so: "same_outside m (tree (files h)) (tree (files h'))" using h'(2) by (rule same_outside_trans)
  have dt: "dir_at (tree (files h')) T t"
    by (rule dir_at_grows [OF t(1)]) (rule same_outside_dir [OF so t(2,3)], simp_all add: r(4))
  let ?h3 = "h'\<lparr>files := (files h')\<lparr>tree := (\<lambda>q. if take (length (t @ [?n])) q = t @ [?n] then None else tree (files h') q)\<rparr>\<rparr>"
  have rm: "on_fs (fs_RemoveAll (abs_path h' (render True (T @ [?n])))) h' = (None, ?h3)"
    using healthy_RemoveAll [OF h'(1) dt n(1)] n(1) by (simp del: names_append)
  have im: "in_mount_dir ''drive-mnt-'' ''mount failed'' Mount Unmount
       (write_and_check WriteToDrive LoadFromDrive (''write failed'', ''read failed'', ''payload mismatch'')
         ''/scenario/file.txt'' ''scenario payload'' (\<lambda>d h. and_then (Unmount d h) ''unmount failed'' done_with)) (newDrive q img) h
      = Return (None, newDrive q img, ?h3)"
    by (unfold in_mount_dir_def mk prod.case sum.case run, unfold deferred_def outcome.case prod.case rm, rule refl)
  have "tree (files ?h3) = tree (files h)" using same_outside_cleared [OF so t(2,3)] by (simp add: r(4))
  with im log n(2) show ?thesis by (intro exI [of _ ?h3]) simp
qed

text \<open>
  C24: The read-write scenario with a loop mount passes. On a machine whose disk works, as the superuser, with an ext4 fixture,
  where the four commands succeed and the mounted filesystem has no entry in the way, the program exits with status 0: the
  drive made from the copy is mounted, the file written through it reads back, and the drive is unmounted. Exactly the four
  commands of a loop mount and its unmounting are run, on the copy, the new directory and the device that
  \<^verbatim>\<open>losetup\<close> printed; at the end the directory is gone and the disk is as before but for the copy.
\<close>

theorem rw_scenario_passes:
  assumes "test_host h F T t b" and "tree_ok (tree (files h))" and "T \<noteq> []" and "geteuid h = 0"
    and "nextRoll h = roll # more_rolls" and "m = t @ [''drive-mnt-'' @ itoa (unat roll)]" and "tree (files h) m = None"
    and "replies h = r1 # r2 # r3 # r4 # rs" and "loop_replies m r1 r2 r3 r4"
  shows "let img = render True (T @ [copy_name]); mp = render True (T @ [last m]); dev = TrimSpace (string_of (stdoutOf r1)) in
    \<exists>h'. main look ''root_loop_ext4_rw'' (render True F) h = Return (Exit0, h')
      \<and> tree (files h') = (tree (files h))(t @ [copy_name] \<mapsto> File b)
      \<and> map argv (cmdLog h') = map argv (cmdLog h) @ [[''losetup'', ''--find'', ''--show'', img],
          [''mount'', ''-t'', ''ext4'', ''-o'', ''nosuid,nodev,noexec'', dev, mp], [''umount'', mp], [''losetup'', ''-d'', dev]]"
proof -
  note c = copied [OF assms(1)] and hd = assms(1) [unfolded test_host_def]
  let ?p = "render True (T @ [copy_name])" and ?h1 = "put_file (t @ [copy_name]) b h"
  have n: "names (F @ [''ext4.img''])" using hd test_names by simp
  obtain q where q: "on_fs (fs_Stat ?p) ?h1 = (Inr (False, length b), ?h1)"
    "BaseDriveFromImage ?p (scenario_options ''scenario-rw'' False False (length b) ''ext4'' MountMethodLoop) ?h1 = Return (Inr (newDrive q ?p), ?h1)"
    "Options_Validate q" "FSType q = ''ext4''" "mountMethod q = MountMethodLoop" "\<not> readonly q" "\<not> ephemeral q"
    using drive_from_copy [OF assms(1), of "''scenario-rw''" MountMethodLoop False] c(1) by (auto simp: Let_def)
  have ok1: "tree_ok (tree (files ?h1))" using tree_ok_put [OF assms(2), of t copy_name "File b"] hd by (simp add: dir_at_def)
  have f: "geteuid ?h1 = 0" "replies ?h1 = r1 # r2 # r3 # r4 # rs" "tempDir ?h1 = render True T" "nextRoll ?h1 = roll # more_rolls"
    "tree (files ?h1) m = None" using assms(4-8) hd by simp_all
  from loop_in_mount_dir [OF c(2) f(1,2) assms(9) f(3) assms(3) f(4) assms(6) c(3) ok1 f(5) q(3-7), of ?p]
  obtain h' where im: "in_mount_dir ''drive-mnt-'' ''mount failed'' Mount Unmount
       (write_and_check WriteToDrive LoadFromDrive (''write failed'', ''read failed'', ''payload mismatch'')
         ''/scenario/file.txt'' ''scenario payload'' (\<lambda>d h. and_then (Unmount d h) ''unmount failed'' done_with)) (newDrive q ?p) ?h1
      = Return (None, newDrive q ?p, h')"
    and h': "tree (files h') = tree (files ?h1)"
      "map argv (cmdLog h') = map argv (cmdLog ?h1) @ [[''losetup'', ''--find'', ''--show'', ?p],
        [''mount'', ''-t'', ''ext4'', ''-o'', ''nosuid,nodev,noexec'', TrimSpace (string_of (stdoutOf r1)), render True (T @ [last m])],
        [''umount'', render True (T @ [last m])], [''losetup'', ''-d'', TrimSpace (string_of (stdoutOf r1))]]"
    by (elim exE conjE)
  have "runRWScenario (render True (F @ [''ext4.img''])) MountMethodLoop h = Return (None, h')"
    unfolding runRWScenario_def copyFixture_healthy [OF assms(1)] or_fail_def outcome.case prod.case sum.case
    by (simp only: abs_path_render [OF c(1)] q(1) prod.case sum.case outcome.case snd_conv q(2) im drop_drive_def)
  then have "main look ''root_loop_ext4_rw'' (render True F) h = Return (Exit0, h')"
    using Join_render [OF n] by (simp add: main_def Let_def must_def)
  with h' show ?thesis unfolding Let_def by (intro exI [of _ h']) simp
qed

text \<open>Mounting shows an empty filesystem, unmounting hides it again.\<close>

definition empty_below :: "tree \<Rightarrow> tree" where
  "empty_below t = (\<lambda>p. if take 2 p = [''tmp'', ''drive-mnt-5''] \<and> 2 < length p then None else t p)"

definition loop_answers :: "reply list" where
  "loop_answers = [silent\<lparr>stdoutOf := bytes_of ''/dev/loop0''\<rparr>, silent\<lparr>effect := empty_below\<rparr>, silent\<lparr>effect := empty_below\<rparr>, silent]"

lemma loop_answers_ok:
  "\<exists>r1 r2 r3 r4. loop_answers = [r1, r2, r3, r4] \<and> loop_replies [''tmp'', ''drive-mnt-5''] r1 r2 r3 r4 \<and> stdoutOf r1 = bytes_of ''/dev/loop0''"
proof -
  have "tree_ok (empty_below t)" if "tree_ok t" for t
    unfolding tree_ok_def
  proof (intro allI impI)
    fix p c
    assume "empty_below t (p @ [c]) \<noteq> None"
    then have e: "\<not> (take 2 (p @ [c]) = [''tmp'', ''drive-mnt-5''] \<and> 2 < length (p @ [c]))" "t (p @ [c]) \<noteq> None"
      by (auto simp: empty_below_def split: if_splits)
    have "node_at t p = Some Dir" using e(2) that unfolding tree_ok_def by blast
    moreover have "\<not> (take 2 p = [''tmp'', ''drive-mnt-5''] \<and> 2 < length p)" using e(1) by auto
    ultimately show "node_at (empty_below t) p = Some Dir" by (auto simp: node_at_def empty_below_def split: if_splits)
  qed
  then show ?thesis
    by (simp add: loop_answers_def loop_replies_def succeeds_def silent_def changes_below_def empty_below_def numeral_2_eq_2)
qed

theorem rw_scenario_passes_witness:
  "\<exists>h'. main (\<lambda>p. lookPath (runner_host loop_answers)) ''root_loop_ext4_rw'' ''/fixtures'' (runner_host loop_answers) = Return (Exit0, h')
     \<and> tree (files h') [''tmp'', copy_name] = Some (File ext4_bytes)
     \<and> map argv (cmdLog h') = [[''losetup'', ''--find'', ''--show'', ''/tmp/ext4.img-copy.img''],
         [''mount'', ''-t'', ''ext4'', ''-o'', ''nosuid,nodev,noexec'', ''/dev/loop0'', ''/tmp/drive-mnt-5''],
         [''umount'', ''/tmp/drive-mnt-5''], [''losetup'', ''-d'', ''/dev/loop0'']]"
proof -
  obtain r1 r2 r3 r4 where r: "loop_answers = [r1, r2, r3, r4]" "loop_replies [''tmp'', ''drive-mnt-5''] r1 r2 r3 r4"
    "stdoutOf r1 = bytes_of ''/dev/loop0''" using loop_answers_ok by blast
  let ?h = "runner_host loop_answers"
  have i: "itoa (unat (5 :: u32)) = ''5''" by code_simp
  have ok: "tree_ok (tree (files ?h))"
    by (auto simp: tree_ok_def runner_host_def node_at_def split: if_splits)
  have h: "geteuid ?h = 0" "nextRoll ?h = 5 # []" "tree (files ?h) [''tmp'', ''drive-mnt-5''] = None"
    "replies ?h = r1 # r2 # r3 # r4 # []" "cmdLog ?h = []"
    using r(1) by (simp_all add: runner_host_def)
  have dev: "TrimSpace ''/dev/loop0'' = ''/dev/loop0''" by code_simp
  have m: "[''tmp'', ''drive-mnt-5''] = [''tmp''] @ [''drive-mnt-'' @ itoa (unat (5 :: u32))]" by (simp only: i append.simps)
  have p: "render True [''fixtures''] = ''/fixtures''" "render True ([''tmp''] @ [copy_name]) = ''/tmp/ext4.img-copy.img''"
    "render True ([''tmp''] @ [last [''tmp'', ''drive-mnt-5'']]) = ''/tmp/drive-mnt-5''"
    "TrimSpace (string_of (stdoutOf r1)) = ''/dev/loop0''" by (simp_all add: render_def r(3) dev)
  from rw_scenario_passes [OF runner_host_ok ok not_Cons_self2 h(1,2) m h(3,4) r(2), of "\<lambda>p. lookPath ?h", unfolded Let_def p h(5) list.map append_Nil]
  obtain h' where h': "main (\<lambda>p. lookPath ?h) ''root_loop_ext4_rw'' ''/fixtures'' ?h = Return (Exit0, h')"
    "tree (files h') = (tree (files ?h))([''tmp''] @ [copy_name] \<mapsto> File ext4_bytes)"
    "map argv (cmdLog h') = [[''losetup'', ''--find'', ''--show'', ''/tmp/ext4.img-copy.img''],
         [''mount'', ''-t'', ''ext4'', ''-o'', ''nosuid,nodev,noexec'', ''/dev/loop0'', ''/tmp/drive-mnt-5''],
         [''umount'', ''/tmp/drive-mnt-5''], [''losetup'', ''-d'', ''/dev/loop0'']]" by (elim exE conjE)
  from h'(2) have "tree (files h') [''tmp'', copy_name] = Some (File ext4_bytes)" by simp
  with h'(1,3) show ?thesis by (intro exI [of _ h'] conjI) simp_all
qed

section \<open>The scenario without a mount method\<close>

lemma Contains_end: "Contains (s @ t) t"
  unfolding Contains_def list_ex_iff by (rule bexI [of _ "length s"]) (auto simp: HasPrefix_def)

text \<open>
  The scenario without a mount method passes when the fixture is an ext4 image and nothing is found in a directory that does
  not exist: the construction fails with the error for it, no command is run, and the search path is put back.
\<close>

theorem no_backend_scenario_passes:
  assumes "test_host h F T t b" and "\<And>n. is_err (look ''/nonexistent'' n)"
  shows "main look ''auto_detect_none_available'' (render True F) h = Return (Exit0, put_file (t @ [copy_name]) b h)"
proof -
  note c = copied [OF assms(1)] and hd = assms(1) [unfolded test_host_def]
  let ?p = "render True (T @ [copy_name])" and ?h1 = "put_file (t @ [copy_name]) b h"
  let ?h2 = "set_PATH (look ''/nonexistent'') ?h1"
  have n: "names (F @ [''ext4.img''])" using hd test_names by simp
  have h2: "healthy ?h2" "tree (files ?h2) = tree (files ?h1)" "lookPath ?h2 = look ''/nonexistent''"
    using c(2) by (simp_all add: set_PATH_def healthy_def)
  have f: "tree (files ?h2) (t @ [copy_name]) = Some (File b)" using h2(2) by simp
  have r: "resolve (tree (files ?h2)) (T @ [copy_name]) = Inr (t @ [copy_name])" using c(4) h2(2) by simp
  have b: "b \<noteq> []" "ext4_image b" using hd by (auto simp: ext4_image_def)
  have nf: "\<not> found ?h2 n" for n using assms(2) [of n] h2(3) by (auto simp: found_def is_err_def split: sum.splits)
  obtain s where s: "DetectBestMountMethod ?h2 = Inl (Wrap s (DriveE ErrNoMountMethodAvailable))"
    by (simp add: DetectBestMountMethod_def nf Let_def)
  have op: "on_fs (fs_Open ?p) ?h2 = (Inr ([b], LibE EOF), ?h2)" using healthy_Open [OF h2(1) c(1) r f] b(1) by simp
  have st: "on_fs (fs_Stat ?p) ?h2 = (Inr (False, length b), ?h2)" by (rule healthy_Stat [OF h2(1) c(1) r f]) simp
  have i: "image_params None ?p (length b) ''ext4'' False ?h2 = Inl (Wrap s (DriveE ErrNoMountMethodAvailable))"
    by (simp add: image_params_def Clone_def s)
  have "BaseDriveFromImage ?p None ?h2 = Return (Inl (Wrap s (DriveE ErrNoMountMethodAvailable)), ?h2)"
    unfolding BaseDriveFromImage_def path_Abs_render [OF c(1)] sum.case st prod.case detect_ext4 [OF b(2) op] outcome.case i
    using b(1) by simp
  moreover have "Contains (error_text (Wrap s (DriveE ErrNoMountMethodAvailable))) ''no usable mount method available''"
    using Contains_end [of "s @ '': ''" "''no usable mount method available''"] by simp
  moreover have "set_PATH (lookPath ?h1) ?h2 = ?h1" by (simp add: set_PATH_def)
  ultimately have "runAutoDetectNoBackendScenario look (render True (F @ [''ext4.img''])) h = Return (None, ?h1)"
    unfolding runAutoDetectNoBackendScenario_def copyFixture_healthy [OF assms(1)] or_fail_def outcome.case prod.case sum.case by simp
  with Join_render [OF n] show ?thesis by (simp add: main_def Let_def must_def)
qed

theorem no_backend_scenario_passes_witness:
  "main (\<lambda>p n. Inl (LibE ErrNotExist)) ''auto_detect_none_available'' ''/fixtures'' (runner_host [])
     = Return (Exit0, put_file [''tmp'', copy_name] ext4_bytes (runner_host []))"
proof -
  have p: "render True [''fixtures''] = ''/fixtures''" "[''tmp''] @ [copy_name] = [''tmp'', copy_name]" by (simp_all add: render_def)
  have l: "is_err ((\<lambda>p n. Inl (LibE ErrNotExist) :: string result) ''/nonexistent'' n)" for n by (simp add: is_err_def)
  show ?thesis using no_backend_scenario_passes [OF runner_host_ok l, of "[]"] unfolding p .
qed

end
