(* ===== verification/VM_Env.thy ===== *)
theory VM_Env
  imports Go_Host "HOL-Library.List_Lexorder" "HOL-Library.Char_ord"
begin

text \<open>
  \<^verbatim>\<open>vm/env.go\<close>: the environment variables of a virtual machine and their file form, one \<^verbatim>\<open>NAME=value\<close> on each
  line. A Go map is the list of its entries in the order in which a \<^verbatim>\<open>range\<close> loop happens to visit them, with distinct
  keys; \<open>None\<close> is the nil map. Every operation holds the mutex of the store and is one step.
\<close>

section \<open>The store\<close>

type_synonym env = "(string \<times> string) list option"

definition NewEnvironmentVariables :: env where
  "NewEnvironmentVariables = Some []"

definition entries :: "env \<Rightarrow> (string \<times> string) list" where
  "entries e = (case e of None \<Rightarrow> [] | Some kvs \<Rightarrow> kvs)"

definition env_vars :: "env \<Rightarrow> string \<Rightarrow> string option" where
  "env_vars e = map_of (entries e)"

text \<open>Assignment to an entry of a map: the place of a new key in the iteration order is not specified.\<close>

definition set_entry :: "string \<Rightarrow> 'v \<Rightarrow> (string \<times> 'v) list \<Rightarrow> (string \<times> 'v) list" where
  "set_entry k v kvs = (k, v) # filter (\<lambda>p. fst p \<noteq> k) kvs"

text \<open>Assignment to an entry of a nil map panics.\<close>

definition env_Set :: "string \<Rightarrow> string \<Rightarrow> env \<Rightarrow> env outcome" where
  "env_Set k v e = (case e of None \<Rightarrow> Panic | Some kvs \<Rightarrow> Return (Some (set_entry k v kvs)))"

definition env_get :: "string \<Rightarrow> env \<Rightarrow> string \<times> bool" where
  "env_get k e = (case env_vars e k of None \<Rightarrow> ('''', False) | Some v \<Rightarrow> (v, True))"

definition env_Delete :: "string \<Rightarrow> env \<Rightarrow> env" where
  "env_Delete k e = map_option (filter (\<lambda>p. fst p \<noteq> k)) e"

definition env_Len :: "env \<Rightarrow> nat" where
  "env_Len e = length (entries e)"

definition env_Keys :: "env \<Rightarrow> string list" where
  "env_Keys e = sort (map fst (entries e))"

definition env_Destroy :: "env \<Rightarrow> env" where
  "env_Destroy e = None"

section \<open>The file\<close>

text \<open>\<^verbatim>\<open>strings.Split\<close> at single characters, and \<^verbatim>\<open>strings.SplitN(line, "=", 2)\<close>.\<close>

fun split_on :: "char \<Rightarrow> string \<Rightarrow> string list" where
  "split_on d [] = [[]]"
| "split_on d (c # cs) =
     (if c = d then [] # split_on d cs
      else (case split_on d cs of [] \<Rightarrow> [[c]] | x # xs \<Rightarrow> (c # x) # xs))"

definition split_first :: "char \<Rightarrow> string \<Rightarrow> (string \<times> string) option" where
  "split_first d s = (if d \<in> set s then Some (takeWhile (\<lambda>c. c \<noteq> d) s, tl (dropWhile (\<lambda>c. c \<noteq> d) s)) else None)"

abbreviation newline :: char where "newline \<equiv> CHR 0x0A"

fun parse_lines :: "string list \<Rightarrow> (string \<times> string) list \<Rightarrow> (string \<times> string) list result" where
  "parse_lines [] vars = Inr vars"
| "parse_lines (line # ls) vars =
     (if line = '''' then parse_lines ls vars
      else (case split_first CHR ''='' line of
              None \<Rightarrow> Inl (Wrap (''invalid line: '' @ line) (VmE ErrEnvInvalidFile))
            | Some (k, v) \<Rightarrow> parse_lines ls (set_entry k v vars)))"

definition FromFile :: "string \<Rightarrow> host \<Rightarrow> env result \<times> host" where
  "FromFile path h =
     (case on_fs (fs_ReadFile (abs_path h path)) h of
        (Inl e, h1) \<Rightarrow> (Inl e, h1)
      | (Inr raw, h1) \<Rightarrow>
          (case parse_lines (split_on newline (string_of raw)) [] of
             Inl e \<Rightarrow> (Inl e, h1)
           | Inr vars \<Rightarrow> (Inr (Some vars), h1)))"

fun write_entries :: "string list \<Rightarrow> (string \<times> string) list \<Rightarrow> fs \<Rightarrow> error option \<times> fs" where
  "write_entries f [] s = (None, s)"
| "write_entries f ((k, v) # kvs) s =
     (case fs_Write f s (bytes_of (k @ ''='' @ v @ [newline])) of
        (Some e, s1) \<Rightarrow> (Some e, s1)
      | (None, s1) \<Rightarrow> write_entries f kvs s1)"

definition SaveToFile :: "string \<Rightarrow> env \<Rightarrow> host \<Rightarrow> error option \<times> host" where
  "SaveToFile path e h =
     (case on_fs (fs_OpenTrunc (abs_path h path)) h of
        (Inl x, h1) \<Rightarrow> (Some x, h1)
      | (Inr f, h1) \<Rightarrow>
          (case on_fs (write_entries f (entries e)) h1 of
             (r, h2) \<Rightarrow> (r, snd (on_fs fs_Close h2))))"

section \<open>Lines\<close>

lemma set_entry_map [simp]: "map_of (set_entry k v kvs) = (map_of kvs)(k \<mapsto> v)"
proof
  fix x
  have "map_of (filter (\<lambda>p. fst p \<noteq> k) kvs) x = map_of kvs x" if "x \<noteq> k"
    using that by (induction kvs) auto
  then show "map_of (set_entry k v kvs) x = ((map_of kvs)(k \<mapsto> v)) x" by (simp add: set_entry_def)
qed

lemma set_entry_distinct: "distinct (map fst kvs) \<Longrightarrow> distinct (map fst (set_entry k v kvs))"
  by (auto simp: set_entry_def distinct_map intro: inj_on_subset)

text \<open>The entries whose line reads back: no line break in name or value and no equals sign in the name.\<close>

definition plain_entry :: "string \<times> string \<Rightarrow> bool" where
  "plain_entry p \<longleftrightarrow> newline \<notin> set (fst p) \<and> newline \<notin> set (snd p) \<and> CHR ''='' \<notin> set (fst p)"

definition line_of :: "string \<times> string \<Rightarrow> string" where
  "line_of p = fst p @ ''='' @ snd p"

lemma split_on_ne [simp]: "split_on d s \<noteq> []"
  by (induction s) (auto split: list.splits)

lemma split_on_line: "d \<notin> set l \<Longrightarrow> split_on d (l @ d # s) = l # split_on d s"
  by (induction l) auto

lemma split_first_entry: "CHR ''='' \<notin> set k \<Longrightarrow> split_first CHR ''='' (k @ ''='' @ v) = Some (k, v)"
  by (induction k) (auto simp: split_first_def)

definition file_text :: "(string \<times> string) list \<Rightarrow> string" where
  "file_text kvs = concat (map (\<lambda>p. line_of p @ [newline]) kvs)"

lemma split_file_text: "\<forall>p \<in> set kvs. plain_entry p \<Longrightarrow> split_on newline (file_text kvs) = map line_of kvs @ [[]]"
proof (induction kvs)
  case Nil
  then show ?case by (simp add: file_text_def)
next
  case (Cons p kvs)
  have "newline \<notin> set (line_of p)" using Cons.prems by (auto simp: plain_entry_def line_of_def)
  then have "split_on newline (line_of p @ newline # file_text kvs) = line_of p # split_on newline (file_text kvs)"
    by (rule split_on_line)
  moreover have "file_text (p # kvs) = line_of p @ newline # file_text kvs" by (simp add: file_text_def)
  ultimately show ?case using Cons.IH Cons.prems by (simp only: list.map append_Cons) auto
qed

lemma parse_file_text:
  "\<forall>p \<in> set kvs. plain_entry p \<Longrightarrow> \<exists>vars'. parse_lines (map line_of kvs @ [[]]) vars = Inr vars' \<and> map_of vars' = map_of vars ++ map_of (rev kvs)
     \<and> (distinct (map fst vars) \<longrightarrow> distinct (map fst vars'))"
proof (induction kvs arbitrary: vars)
  case Nil
  then show ?case by simp
next
  case (Cons p kvs)
  obtain k v where p: "p = (k, v)" by (cases p)
  have "split_first CHR ''='' (line_of p) = Some (k, v)" using Cons.prems p split_first_entry [of k v]
    by (simp add: plain_entry_def line_of_def)
  then have s: "parse_lines (map line_of (p # kvs) @ [[]]) vars = parse_lines (map line_of kvs @ [[]]) (set_entry k v vars)"
    by (simp add: line_of_def)
  have "\<forall>q \<in> set kvs. plain_entry q" using Cons.prems by simp
  from Cons.IH [OF this, of "set_entry k v vars"] obtain vars' where
    v: "parse_lines (map line_of kvs @ [[]]) (set_entry k v vars) = Inr vars'"
      "map_of vars' = map_of (set_entry k v vars) ++ map_of (rev kvs)"
      "distinct (map fst (set_entry k v vars)) \<longrightarrow> distinct (map fst vars')" by (elim exE conjE)
  have "map_of (set_entry k v vars) ++ map_of (rev kvs) = map_of vars ++ map_of (rev (p # kvs))"
    by (auto simp: p map_add_def fun_eq_iff split: option.splits)
  with s v show ?case using set_entry_distinct [of vars k v] by (intro exI [of _ vars']) simp
qed

lemma map_of_rev: "distinct (map fst kvs) \<Longrightarrow> map_of (rev kvs) = map_of kvs"
  by (rule map_of_inject_set [THEN iffD2]) (simp_all flip: rev_map)

lemma bytes_of_append [simp]: "bytes_of (s @ t) = bytes_of s @ bytes_of t"
  by (simp add: bytes_of_def)

lemma write_entries_healthy:
  "fsFaults s = [] \<Longrightarrow> tree s loc = Some (File b) \<Longrightarrow>
   write_entries loc kvs s = (None, s\<lparr>tree := (tree s)(loc \<mapsto> File (b @ bytes_of (file_text kvs)))\<rparr>)"
proof (induction kvs arbitrary: s b)
  case Nil
  then show ?case by (simp add: file_text_def bytes_of_def fun_upd_idem)
next
  case (Cons p kvs)
  obtain k v where p: "p = (k, v)" by (cases p)
  let ?s = "s\<lparr>tree := (tree s)(loc \<mapsto> File (b @ bytes_of (line_of p @ [newline])))\<rparr>"
  have "write_entries loc (p # kvs) s = write_entries loc kvs ?s"
    using Cons.prems by (simp add: p line_of_def fs_Write_def fs_sys_healthy)
  also have "\<dots> = (None, ?s\<lparr>tree := (tree ?s)(loc \<mapsto> File ((b @ bytes_of (line_of p @ [newline])) @ bytes_of (file_text kvs)))\<rparr>)"
    using Cons.prems(1) by (intro Cons.IH) simp_all
  also have "\<dots> = (None, s\<lparr>tree := (tree s)(loc \<mapsto> File (b @ bytes_of (file_text (p # kvs))))\<rparr>)"
    by (simp add: file_text_def bytes_of_def)
  finally show ?case .
qed

text \<open>Writing a file does not change where its path leads.\<close>

lemma walk_put:
  "walk k t cur cs = Inr loc \<Longrightarrow> t loc = None \<or> (\<exists>b. t loc = Some (File b)) \<Longrightarrow> walk k (t(loc \<mapsto> File c)) cur cs = Inr loc"
proof (induction k t cur cs rule: walk.induct)
  case (1 k t cur)
  then show ?case by simp
next
  case (2 k t cur n cs)
  show ?case
  proof (cases "n = ''..''")
    case True
    with 2 show ?thesis by (simp add: walk.simps)
  next
    case nd: False
    show ?thesis
    proof (cases "t (cur @ [n])")
      case None
      with 2(4) nd have "cs = []" "loc = cur @ [n]" by (auto simp: walk.simps split: if_splits)
      with nd show ?thesis by (simp add: walk.simps)
    next
      case (Some x)
      show ?thesis
      proof (cases x)
        case Dir
        with 2(2) [OF nd Some Dir] 2(4,5) nd Some show ?thesis by (auto simp: walk.simps)
      next
        case (File b)
        with 2(4) nd Some have "cs = []" "loc = cur @ [n]" by (auto simp: walk.simps split: if_splits)
        with nd show ?thesis by (simp add: walk.simps)
      next
        case (Link target)
        with 2(4) nd Some obtain k1 where k: "k = Suc k1" by (auto simp: walk.simps split: nat.splits)
        with 2(4) nd Some Link have w: "walk k1 t (if IsAbs target then [] else cur) (comps target @ cs) = Inr loc"
          by (simp add: walk.simps)
        from 2(5) Some Link have "cur @ [n] \<noteq> loc" by auto
        with 2(3) [OF nd Some Link k w 2(5)] k nd Some Link show ?thesis by (simp add: walk.simps)
      qed
    qed
  qed
qed

section \<open>Round trip\<close>

text \<open>
  C39: on a disk without faults, saving an environment whose names have no equals sign and whose names and values have no
  line break, and loading the file again, gives the same variables, in whatever order the map was visited.
\<close>

theorem env_file_roundtrip:
  assumes "fsFaults (files h) = []"
    and "resolve (tree (files h)) (comps (abs_path h path)) = Inr loc" and "loc \<noteq> []"
    and "tree (files h) loc = None \<or> (\<exists>b. tree (files h) loc = Some (File b))"
    and "fsReadEnd (files h) loc = LibE EOF"
    and "distinct (map fst (entries e))" and "\<forall>p \<in> set (entries e). plain_entry p"
  shows "fst (SaveToFile path e h) = None \<and>
    (\<exists>e'. fst (FromFile path (snd (SaveToFile path e h))) = Inr e' \<and> env_vars e' = env_vars e \<and> env_Len e' = env_Len e)"
proof -
  let ?t = "tree (files h)" and ?b = "bytes_of (file_text (entries e))"
  let ?h = "h\<lparr>files := (files h)\<lparr>tree := ?t(loc \<mapsto> File ?b)\<rparr>\<rparr>"
  have nd: "node_at ?t loc \<noteq> Some Dir" using assms(3,4) by (auto simp: node_at_def)
  have ne: "abs_path h path \<noteq> ''''" using assms(2,3) by (metis Inr_inject comps_Nil walk.simps(1))
  have save: "SaveToFile path e h = (None, ?h)"
    using assms(1,2) nd ne write_entries_healthy [of "(files h)\<lparr>tree := ?t(loc \<mapsto> File [])\<rparr>" loc "[]" "entries e"]
    by (simp add: SaveToFile_def on_fs_def fs_OpenTrunc_def fs_sys_healthy fs_Close_def split: option.splits node.splits)
  have ap: "abs_path ?h path = abs_path h path" by (simp add: abs_path_def)
  have w: "resolve (?t(loc \<mapsto> File ?b)) (comps (abs_path h path)) = Inr loc" using walk_put [OF assms(2,4)] .
  have n: "node_at (?t(loc \<mapsto> File ?b)) loc = Some (File ?b)" using assms(3) by (simp add: node_at_def)
  have read: "fst (on_fs (fs_ReadFile (abs_path ?h path)) ?h) = Inr ?b"
    using assms(1,5) ap w n ne by (simp add: on_fs_def fs_ReadFile_def fs_Open_def fs_sys_healthy)
  obtain vars where v: "parse_lines (split_on newline (file_text (entries e))) [] = Inr vars"
    "map_of vars = map_of [] ++ map_of (rev (entries e))" "distinct (map fst ([] :: (string \<times> string) list)) \<longrightarrow> distinct (map fst vars)"
    using split_file_text [OF assms(7)] parse_file_text [OF assms(7), of "[]"] by (elim exE conjE) simp
  obtain h2 where r2: "on_fs (fs_ReadFile (abs_path ?h path)) ?h = (Inr ?b, h2)" using read by (metis prod.collapse)
  have l: "fst (FromFile path ?h) = Inr (Some vars)" by (simp only: FromFile_def r2) (simp add: v)
  have m: "map_of vars = map_of (entries e)" using v(2) map_of_rev [OF assms(6)] by simp
  have "length vars = length (entries e)"
  proof -
    have "card (dom (map_of vars)) = length vars" if "distinct (map fst vars)" for vars :: "(string \<times> string) list"
      using that distinct_card [OF that] by (simp add: dom_map_of_conv_image_fst)
    from this [of vars] this [of "entries e"] show ?thesis using v(3) m assms(6) by simp
  qed
  then show ?thesis using save l m by (simp add: env_vars_def env_Len_def) (simp add: entries_def)
qed


definition env_host :: host where
  "env_host =
     \<lparr>files = \<lparr>tree = (\<lambda>p. None), fsFaults = [], fsReadEnd = (\<lambda>p. LibE EOF)\<rparr>, getwd = Inr ''/'', tempDir = ''/tmp'',
      nextRoll = [], geteuid = 0, lookPath = (\<lambda>n. Inr n), replies = [], cmdLog = [],
      mem = (\<lambda>a. []), nextMem = 0, openers = (\<lambda>i. [])\<rparr>"

lemma env_host_place:
  "fsFaults (files env_host) = []" "resolve (tree (files env_host)) (comps (abs_path env_host ''/e'')) = Inr [''e'']"
  "tree (files env_host) = (\<lambda>p. None)" "fsReadEnd (files env_host) p = LibE EOF"
  by (simp_all add: env_host_def abs_path_def) code_simp

theorem env_file_roundtrip_witness:
  "fst (SaveToFile ''/e'' (Some [(''B'', ''2''), (''A'', ''x=y'')]) env_host) = None \<and>
   (\<exists>e'. fst (FromFile ''/e'' (snd (SaveToFile ''/e'' (Some [(''B'', ''2''), (''A'', ''x=y'')]) env_host))) = Inr e'
      \<and> env_vars e' ''A'' = Some ''x=y'' \<and> env_Len e' = 2)"
proof -
  let ?e = "Some [(''B'', ''2''), (''A'', ''x=y'')] :: env"
  have e: "distinct (map fst (entries ?e))" "\<forall>p \<in> set (entries ?e). plain_entry p"
    "env_vars ?e ''A'' = Some ''x=y''" "env_Len ?e = 2" by code_simp+
  have f: "tree (files env_host) [''e''] = None \<or> (\<exists>b. tree (files env_host) [''e''] = Some (File b))"
    by (simp add: env_host_place)
  from env_file_roundtrip [OF env_host_place(1,2) _ f env_host_place(4) e(1,2)] e(3,4) show ?thesis by auto
qed

text \<open>Names may hold an equals sign, but such a variable comes back from the file as another one.\<close>

lemma raw_name_splits: "parse_lines (split_on newline (file_text [(''A=B'', ''1'')])) [] = Inr [(''A'', ''B=1'')]"
  by code_simp

text \<open>After \<^verbatim>\<open>Destroy\<close> the map is nil: reading finds nothing and \<^verbatim>\<open>Set\<close> panics.\<close>

lemma Set_after_Destroy: "env_Set k v (env_Destroy e) = Panic" "env_get k (env_Destroy e) = ('''', False)" "env_Len (env_Destroy e) = 0"
  by (simp_all add: env_Set_def env_Destroy_def env_get_def env_vars_def env_Len_def entries_def)

text \<open>\<^verbatim>\<open>Keys\<close> is the sorted set of the names, whatever the order in which the map is visited.\<close>

lemma Keys_sorted: "sorted (env_Keys e)" "set (env_Keys e) = dom (env_vars e)"
  by (simp_all add: env_Keys_def env_vars_def dom_map_of_conv_image_fst)

end
