(* ===== verification/VM_Config.thy ===== *)
theory VM_Config
  imports VM_Env Encrypted_Drive
begin

text \<open>
  \<^verbatim>\<open>vm/config.go\<close> and \<^verbatim>\<open>vm/hardware.go\<close>: the configuration of a virtual machine and its checks. \<^verbatim>\<open>os.Getenv\<close> is a
  function of the name (the empty text for an unset variable). The table of drives is the list of its entries in the order in
  which a \<^verbatim>\<open>range\<close> loop visits them; a nil drive is \<open>None\<close>. An \<^verbatim>\<open>int\<close> has 64 bits.
\<close>

abbreviation (input) config_error :: "string \<Rightarrow> error" where
  "config_error msg \<equiv> Wrap msg (VmE ErrConfigValidation)"

section \<open>Configuration\<close>

record FirecrackerConfig =
  FirecrackerBin :: string
  KernelImage :: string
  InitrdImage :: string
  WorkDir :: string

record Config =
  Firecracker :: FirecrackerConfig
  StartupTimeout :: "64 word"
  MaxStartupTimeout :: "64 word"
  EnvironmentVariables :: "env option"

text \<open>A value, the environment variable for an empty one, or the default.\<close>

definition default_to :: "(string \<Rightarrow> string) \<Rightarrow> string \<Rightarrow> string \<Rightarrow> string \<Rightarrow> string" where
  "default_to getenv name dflt v = (if v = '''' then (if getenv name = '''' then dflt else getenv name) else v)"

text \<open>The three files must be there; the checks stop at the first that is not.\<close>

definition must_exist :: "string \<Rightarrow> string \<Rightarrow> host \<Rightarrow> error option \<times> host" where
  "must_exist what p h =
     (case on_fs (fs_Stat (abs_path h p)) h of
        (Inl e, h1) \<Rightarrow> (Some (Wrap2 (what @ '' not found: '' @ p) (VmE ErrConfigValidation) e), h1)
      | (Inr info, h1) \<Rightarrow> (None, h1))"

definition paths_exist :: "FirecrackerConfig \<Rightarrow> host \<Rightarrow> error option \<times> host" where
  "paths_exist c h =
     (case must_exist ''FirecrackerBin'' (FirecrackerBin c) h of
        (Some e, h1) \<Rightarrow> (Some e, h1)
      | (None, h1) \<Rightarrow>
          (case must_exist ''KernelImage'' (KernelImage c) h1 of
             (Some e, h2) \<Rightarrow> (Some e, h2)
           | (None, h2) \<Rightarrow> must_exist ''InitrdImage'' (InitrdImage c) h2))"

definition fill_defaults :: "(string \<Rightarrow> string) \<Rightarrow> FirecrackerConfig \<Rightarrow> FirecrackerConfig" where
  "fill_defaults getenv c =
     \<lparr>FirecrackerBin = default_to getenv ''FIRECRACKER_BIN'' ''/usr/local/bin/firecracker'' (FirecrackerBin c),
      KernelImage = default_to getenv ''KERNEL_IMAGE'' ''./artifacts/vmlinux'' (KernelImage c),
      InitrdImage = default_to getenv ''INITRD_IMAGE'' ''./artifacts/initramfs.cpio.gz'' (InitrdImage c),
      WorkDir = default_to getenv ''WORK_DIR'' ''./run'' (WorkDir c)\<rparr>"

definition FirecrackerConfig_Init ::
  "(string \<Rightarrow> string) \<Rightarrow> FirecrackerConfig \<Rightarrow> host \<Rightarrow> error option \<times> FirecrackerConfig \<times> host" where
  "FirecrackerConfig_Init getenv c0 h =
     (let c = fill_defaults getenv c0
      in (case path_Abs (getwd h) (WorkDir c) of
            Inl e \<Rightarrow> (Some (Wrap2 ''failed to expand WorkDir'' (VmE ErrConfigValidation) e), c, h)
          | Inr absWorkDir \<Rightarrow>
              let c1 = c\<lparr>WorkDir := absWorkDir\<rparr>
              in (case paths_exist c1 h of
                    (Some e, h1) \<Rightarrow> (Some e, c1, h1)
                  | (None, h1) \<Rightarrow>
                      (case on_fs (fs_MkdirAll (WorkDir c1)) h1 of
                         (Some e, h2) \<Rightarrow> (Some (Wrap2 ''failed to create WorkDir'' (VmE ErrConfigValidation) e), c1, h2)
                       | (None, h2) \<Rightarrow> (None, c1, h2)))))"

definition FirecrackerConfig_Validate :: "FirecrackerConfig \<Rightarrow> host \<Rightarrow> error option \<times> host" where
  "FirecrackerConfig_Validate c h =
     (if FirecrackerBin c = '''' then (Some (config_error ''FirecrackerBin is required''), h)
      else if KernelImage c = '''' then (Some (config_error ''KernelImage is required''), h)
      else if InitrdImage c = '''' then (Some (config_error ''InitrdImage is required''), h)
      else if WorkDir c = '''' then (Some (config_error ''WorkDir is required''), h)
      else paths_exist c h)"

text \<open>Both entry points give the configuration an environment when it has none.\<close>

definition with_env :: "Config \<Rightarrow> Config" where
  "with_env c = (if EnvironmentVariables c = None then c\<lparr>EnvironmentVariables := Some NewEnvironmentVariables\<rparr> else c)"

definition Config_Init :: "(string \<Rightarrow> string) \<Rightarrow> Config \<Rightarrow> host \<Rightarrow> error option \<times> Config \<times> host" where
  "Config_Init getenv c h =
     (case FirecrackerConfig_Init getenv (Firecracker (with_env c)) h of
        (e, fc, h1) \<Rightarrow> (e, (with_env c)\<lparr>Firecracker := fc\<rparr>, h1))"

definition Config_Validate :: "Config \<Rightarrow> host \<Rightarrow> error option \<times> Config \<times> host" where
  "Config_Validate c h =
     (case FirecrackerConfig_Validate (Firecracker (with_env c)) h of (e, h1) \<Rightarrow> (e, with_env c, h1))"

section \<open>Hardware\<close>

datatype vm_drive = PlainDrive drive | CryptDrive encrypted_drive

fun drive_Parameters :: "vm_drive \<Rightarrow> DriveOptions option" where
  "drive_Parameters (PlainDrive d) = Base_Parameters d"
| "drive_Parameters (CryptDrive d) = Enc_Parameters d"

fun drive_Validate :: "vm_drive \<Rightarrow> bool" where
  "drive_Validate (PlainDrive d) = Base_Validate d"
| "drive_Validate (CryptDrive d) = Enc_Validate d"

type_synonym drives = "(string \<times> vm_drive option) list"

text \<open>The vsock devices of the SDK are opaque handles.\<close>

record SocketConfig =
  GuestCID :: "64 word"
  GuestVSockPort :: "64 word"
  APISock :: string
  VsockUDS :: string
  LogPath :: string
  MetricsPath :: string
  VsockDevices :: "nat list"

record Hardware =
  Network :: "unit option"
  Drives :: "drives option"
  RAMMib :: "64 word"
  CPUs :: "64 word"
  SymmetricMultitasking :: bool
  Sockets :: SocketConfig

definition NewNetworkConfig :: "bool \<Rightarrow> unit" where
  "NewNetworkConfig strict = ()"

definition NewSockConfig :: SocketConfig where
  "NewSockConfig =
     \<lparr>GuestCID = 3, GuestVSockPort = 1, APISock = '''', VsockUDS = '''', LogPath = '''', MetricsPath = '''', VsockDevices = []\<rparr>"

definition NewHardware :: Hardware where
  "NewHardware =
     \<lparr>Network = None, Drives = Some [], RAMMib = 0, CPUs = 0, SymmetricMultitasking = False, Sockets = NewSockConfig\<rparr>"

definition SocketConfig_Validate :: "SocketConfig \<Rightarrow> error option" where
  "SocketConfig_Validate s =
     (if GuestCID s = 2 then Some (config_error ''GuestCID must not be 2 (reserved for host)'')
      else if sint (GuestCID s) \<le> 0 then Some (config_error (''GuestCID must be > 0, got '' @ itoa_int (sint (GuestCID s))))
      else if sint (GuestVSockPort s) < 1 \<or> sint (GuestVSockPort s) > 65535
      then Some (config_error (''GuestVSockPort must be in range 1-65535, got '' @ itoa_int (sint (GuestVSockPort s))))
      else None)"

text \<open>The loop over the drives: the first error, or whether there is a root drive.\<close>

fun check_drives :: "drives \<Rightarrow> bool \<Rightarrow> bool result" where
  "check_drives [] hasRoot = Inr hasRoot"
| "check_drives ((driveID, dob) # ds) hasRoot =
     (case dob of
        None \<Rightarrow> Inl (config_error (''unknown drive: '' @ driveID))
      | Some d \<Rightarrow>
          (case drive_Parameters d of
             None \<Rightarrow> Inl (config_error (''drive has nil parameters: '' @ driveID))
           | Some p \<Rightarrow>
               if driveID \<noteq> optId p then Inl (config_error (''drive ID mismatch: '' @ driveID @ '' != '' @ optId p))
               else if \<not> drive_Validate d then Inl (config_error (''invalid drive: '' @ optId p))
               else check_drives ds (hasRoot \<or> isRoot p)))"

definition drive_table :: "drives option \<Rightarrow> drives" where
  "drive_table ds = (case ds of None \<Rightarrow> [] | Some t \<Rightarrow> t)"

definition Hardware_Validate :: "Hardware \<Rightarrow> error option" where
  "Hardware_Validate hw =
     (if sint (CPUs hw) \<le> 0 then Some (config_error (''CPUs must be > 0, got '' @ itoa_int (sint (CPUs hw))))
      else if sint (RAMMib hw) \<le> 0 then Some (config_error (''RAMMib must be > 0, got '' @ itoa_int (sint (RAMMib hw))))
      else
        (case check_drives (drive_table (Drives hw)) False of
           Inl e \<Rightarrow> Some e
         | Inr hasRoot \<Rightarrow>
             if length (drive_table (Drives hw)) > 0 \<and> \<not> hasRoot
             then Some (config_error ''at least one drive must be marked as root'')
             else SocketConfig_Validate (Sockets hw)))"

section \<open>What the checks accept\<close>

definition drive_entry_ok :: "string \<times> vm_drive option \<Rightarrow> bool" where
  "drive_entry_ok e \<longleftrightarrow>
     (case snd e of
        None \<Rightarrow> False
      | Some d \<Rightarrow> drive_Validate d \<and> map_option optId (drive_Parameters d) = Some (fst e))"

definition root_entry :: "string \<times> vm_drive option \<Rightarrow> bool" where
  "root_entry e \<longleftrightarrow> (\<exists>d p. snd e = Some d \<and> drive_Parameters d = Some p \<and> isRoot p)"

lemma check_drives_spec:
  "\<forall>e \<in> set ds. drive_entry_ok e \<Longrightarrow> check_drives ds hasRoot = Inr (hasRoot \<or> (\<exists>e \<in> set ds. root_entry e))"
proof (induction ds arbitrary: hasRoot)
  case Nil
  then show ?case by simp
next
  case (Cons e ds)
  from Cons.prems obtain d p where "snd e = Some d" "drive_Validate d" "drive_Parameters d = Some p" "optId p = fst e"
    by (auto simp: drive_entry_ok_def split: option.splits)
  with Cons.IH Cons.prems show ?case by (cases e) (auto simp: root_entry_def)
qed

lemma check_drives_fails: "\<exists>e \<in> set ds. \<not> drive_entry_ok e \<Longrightarrow> is_err (check_drives ds hasRoot)"
  by (induction ds hasRoot rule: check_drives.induct) (auto simp: drive_entry_ok_def is_err_def split: option.splits)

lemma SocketConfig_Validate_iff:
  "SocketConfig_Validate s = None \<longleftrightarrow>
     0 < sint (GuestCID s) \<and> GuestCID s \<noteq> 2 \<and> 1 \<le> sint (GuestVSockPort s) \<and> sint (GuestVSockPort s) \<le> 65535"
  by (auto simp: SocketConfig_Validate_def)

text \<open>
  C37: hardware is accepted exactly when it has processors and memory, every drive of the table is valid and stored under
  its own ID, one of them is the root drive unless there are none, and the socket numbers are in range. The answer does not
  depend on the order in which the map of drives is visited.
\<close>

theorem Hardware_Validate_iff:
  "Hardware_Validate hw = None \<longleftrightarrow>
     0 < sint (CPUs hw) \<and> 0 < sint (RAMMib hw)
     \<and> (\<forall>e \<in> set (drive_table (Drives hw)). drive_entry_ok e)
     \<and> (drive_table (Drives hw) = [] \<or> (\<exists>e \<in> set (drive_table (Drives hw)). root_entry e))
     \<and> 0 < sint (GuestCID (Sockets hw)) \<and> GuestCID (Sockets hw) \<noteq> 2
     \<and> 1 \<le> sint (GuestVSockPort (Sockets hw)) \<and> sint (GuestVSockPort (Sockets hw)) \<le> 65535"
proof (cases "\<forall>e \<in> set (drive_table (Drives hw)). drive_entry_ok e")
  case True
  then have "check_drives (drive_table (Drives hw)) False = Inr (\<exists>e \<in> set (drive_table (Drives hw)). root_entry e)"
    using check_drives_spec [of "drive_table (Drives hw)" False] by simp
  with True show ?thesis by (auto simp: Hardware_Validate_def SocketConfig_Validate_iff not_le)
next
  case False
  then obtain e where "check_drives (drive_table (Drives hw)) False = Inl e"
    using check_drives_fails [of "drive_table (Drives hw)" False] by (auto simp: is_err_def split: sum.splits)
  with False show ?thesis by (auto simp: Hardware_Validate_def)
qed

lemma must_exist_ok:
  assumes "must_exist what p h = (None, h')"
  shows "p \<noteq> '''' \<and> tree (files h') = tree (files h) \<and> getwd h' = getwd h \<and>
    (\<exists>loc. resolve (tree (files h)) (comps (abs_path h p)) = Inr loc \<and> node_at (tree (files h)) loc \<noteq> None)"
proof -
  obtain f s1 where y: "fs_sys (files h) = (f, s1)" by (cases "fs_sys (files h)")
  then have "tree s1 = tree (files h)" by simp
  with assms y show ?thesis
    by (auto simp: must_exist_def on_fs_def fs_Stat_def abs_path_def split: option.splits sum.splits if_splits node.splits)
qed

lemma must_exist_again:
  assumes "fsFaults (files h) = []" and "p \<noteq> ''''" and "resolve (tree (files h)) (comps (abs_path h p)) = Inr loc"
    and "node_at (tree (files h)) loc \<noteq> None"
  shows "must_exist what p h = (None, h)"
proof -
  have "abs_path h p \<noteq> ''''" using assms(2) by (simp add: abs_path_def)
  with assms show ?thesis
    by (auto simp: must_exist_def on_fs_def fs_Stat_def fs_sys_healthy split: option.split node.split)
qed

lemma paths_exist_ok:
  assumes "paths_exist c h = (None, h')"
  shows "tree (files h') = tree (files h) \<and> getwd h' = getwd h \<and>
    (\<forall>p \<in> {FirecrackerBin c, KernelImage c, InitrdImage c}. p \<noteq> '''' \<and>
       (\<exists>loc. resolve (tree (files h)) (comps (abs_path h p)) = Inr loc \<and> node_at (tree (files h)) loc \<noteq> None))"
proof -
  obtain h1 where a: "must_exist ''FirecrackerBin'' (FirecrackerBin c) h = (None, h1)"
    using assms by (auto simp: paths_exist_def split: prod.splits option.splits)
  obtain h2 where b: "must_exist ''KernelImage'' (KernelImage c) h1 = (None, h2)"
    using assms a by (auto simp: paths_exist_def split: prod.splits option.splits)
  have d: "must_exist ''InitrdImage'' (InitrdImage c) h2 = (None, h')" using assms a b by (simp add: paths_exist_def)
  have "abs_path h1 p = abs_path h p" "abs_path h2 p = abs_path h p" for p
    using must_exist_ok [OF a] must_exist_ok [OF b] by (simp_all add: abs_path_def)
  then show ?thesis using must_exist_ok [OF a] must_exist_ok [OF b] must_exist_ok [OF d] by auto
qed

lemma paths_exist_again:
  assumes "fsFaults (files h) = []"
    and "\<forall>p \<in> {FirecrackerBin c, KernelImage c, InitrdImage c}. p \<noteq> '''' \<and>
       (\<exists>loc. resolve (tree (files h)) (comps (abs_path h p)) = Inr loc \<and> node_at (tree (files h)) loc \<noteq> None)"
  shows "paths_exist c h = (None, h)"
proof -
  have "must_exist what p h = (None, h)" if "p \<in> {FirecrackerBin c, KernelImage c, InitrdImage c}" for what p
    using must_exist_again [OF assms(1), of p] assms(2) that by blast
  then show ?thesis by (simp add: paths_exist_def)
qed

text \<open>
  C38: a configuration that was initialised is valid: after a successful \<^verbatim>\<open>Init\<close> the work directory is an absolute path,
  the configuration has an environment, and \<^verbatim>\<open>Validate\<close> accepts it and changes nothing, as long as the disk answers.
\<close>

theorem Init_then_Validate:
  assumes "Config_Init getenv c h = (None, c', h')" and "fsFaults (files h') = []"
    and "\<forall>w. getwd h = Inr w \<longrightarrow> IsAbs w"
  shows "Config_Validate c' h' = (None, c', h') \<and> IsAbs (WorkDir (Firecracker c')) \<and> EnvironmentVariables c' \<noteq> None"
proof -
  let ?f = "fill_defaults getenv (Firecracker (with_env c))"
  obtain fc where i: "FirecrackerConfig_Init getenv (Firecracker (with_env c)) h = (None, fc, h')"
    and c': "c' = (with_env c)\<lparr>Firecracker := fc\<rparr>" using assms(1) by (auto simp: Config_Init_def split: prod.splits)
  obtain w h1 where w: "path_Abs (getwd h) (WorkDir ?f) = Inr w" and fc: "fc = ?f\<lparr>WorkDir := w\<rparr>"
    and pe: "paths_exist fc h = (None, h1)" and mk: "on_fs (fs_MkdirAll w) h1 = (None, h')"
    using i by (auto simp: FirecrackerConfig_Init_def Let_def split: prod.splits option.splits sum.splits)
  have wa: "IsAbs w"
  proof (cases "IsAbs (WorkDir ?f)")
    case True
    with w show ?thesis by (auto simp: path_Abs_def)
  next
    case False
    then obtain d where d: "getwd h = Inr d" "w = path_Join [d, WorkDir ?f]" "IsAbs d"
      using w assms(3) by (auto simp: path_Abs_def split: sum.splits)
    then have "d \<noteq> ''''" by (auto simp: IsAbs_def)
    moreover have "WorkDir ?f \<noteq> ''''" by (simp add: fill_defaults_def default_to_def)
    ultimately show ?thesis using d by (simp add: path_Join_two IsAbs_append)
  qed
  note ok = paths_exist_ok [OF pe]
  have g: "getwd h' = getwd h" using ok mk on_fs_keeps [OF mk] by simp
  have grow: "tree (files h') p = Some x" if "tree (files h) p = Some x" for p x
    using mkdirs_grows [of "files h1" p x 40 "[]" "[]" "comps w"] that mk ok
    by (auto simp: on_fs_def fs_MkdirAll_def split: prod.splits)
  have "\<forall>p \<in> {FirecrackerBin fc, KernelImage fc, InitrdImage fc}. p \<noteq> '''' \<and>
     (\<exists>loc. resolve (tree (files h')) (comps (abs_path h' p)) = Inr loc \<and> node_at (tree (files h')) loc \<noteq> None)"
  proof
    fix p
    assume "p \<in> {FirecrackerBin fc, KernelImage fc, InitrdImage fc}"
    then obtain loc where l: "p \<noteq> ''''" "resolve (tree (files h)) (comps (abs_path h p)) = Inr loc"
      "node_at (tree (files h)) loc \<noteq> None" using ok by blast
    have "resolve (tree (files h')) (comps (abs_path h p)) = Inr loc" by (rule walk_grows [OF l(2,3) grow])
    moreover have "node_at (tree (files h')) loc \<noteq> None" using l(3) grow by (auto simp: node_at_def)
    moreover have "abs_path h' p = abs_path h p" using g by (simp add: abs_path_def)
    ultimately show "p \<noteq> '''' \<and>
       (\<exists>loc. resolve (tree (files h')) (comps (abs_path h' p)) = Inr loc \<and> node_at (tree (files h')) loc \<noteq> None)"
      using l(1) by auto
  qed
  from paths_exist_again [OF assms(2) this] have "paths_exist fc h' = (None, h')" .
  moreover have "FirecrackerBin fc \<noteq> ''''" "KernelImage fc \<noteq> ''''" "InitrdImage fc \<noteq> ''''" "WorkDir fc \<noteq> ''''"
    using fc wa by (auto simp: fill_defaults_def default_to_def IsAbs_def)
  ultimately have "FirecrackerConfig_Validate fc h' = (None, h')" by (simp add: FirecrackerConfig_Validate_def)
  moreover have e: "EnvironmentVariables c' \<noteq> None" by (auto simp: c' with_env_def)
  moreover have "with_env c' = c'" using e by (simp add: with_env_def)
  moreover have "Firecracker c' = fc" "WorkDir fc = w" by (simp_all add: c' fc)
  ultimately show ?thesis using wa by (simp add: Config_Validate_def)
qed

definition boot_tree :: tree where
  "boot_tree = (\<lambda>p. if p \<in> {[''fc''], [''k''], [''i'']} then Some (File [1]) else None)"

definition boot_config :: Config where
  "boot_config =
     \<lparr>Firecracker = \<lparr>FirecrackerBin = ''/fc'', KernelImage = ''/k'', InitrdImage = '''', WorkDir = ''''\<rparr>, StartupTimeout = 1,
      MaxStartupTimeout = 2, EnvironmentVariables = None\<rparr>"

theorem Init_then_Validate_witness:
  "\<exists>c' h'. Config_Init (\<lambda>n. if n = ''INITRD_IMAGE'' then ''/i'' else '''') boot_config
       (env_host\<lparr>files := (files env_host)\<lparr>tree := boot_tree\<rparr>\<rparr>) = (None, c', h')
     \<and> WorkDir (Firecracker c') = ''/run'' \<and> Config_Validate c' h' = (None, c', h')"
proof -
  let ?h = "env_host\<lparr>files := (files env_host)\<lparr>tree := boot_tree\<rparr>\<rparr>"
  let ?g = "\<lambda>n. if n = ''INITRD_IMAGE'' then ''/i'' else ''''"
  let ?r = "Config_Init ?g boot_config ?h"
  have r: "fst ?r = None" "WorkDir (Firecracker (fst (snd ?r))) = ''/run''" "fsFaults (files (snd (snd ?r))) = []" by code_simp+
  then obtain c' h' where i: "?r = (None, c', h')" by (metis prod.collapse)
  have w: "\<forall>w. getwd ?h = Inr w \<longrightarrow> IsAbs w" by (simp add: env_host_def IsAbs_def)
  from Init_then_Validate [OF i _ w] r i show ?thesis by auto
qed

definition boot_drive :: vm_drive where
  "boot_drive = PlainDrive (newDrive (NewDriveOptions ''root'' True True '''' '''' False 4096 ''squashfs'' MountMethodLoop) ''/r.img'')"

definition boot_hardware :: Hardware where
  "boot_hardware = NewHardware\<lparr>Drives := Some [(''root'', Some boot_drive)], RAMMib := 512, CPUs := 2\<rparr>"

lemma boot_hardware_valid: "Hardware_Validate boot_hardware = None"
  by (simp add: Hardware_Validate_def boot_hardware_def drive_table_def NewHardware_def NewSockConfig_def boot_drive_def
      Base_Validate_def Base_Parameters_def newDrive_def NewDriveOptions_def Options_Validate_def Clone_def
      SocketConfig_Validate_def)

theorem Hardware_Validate_iff_witness:
  "Hardware_Validate boot_hardware = None \<and> Hardware_Validate (boot_hardware\<lparr>Drives := Some [(''data'', Some boot_drive)]\<rparr>) \<noteq> None"
proof -
  have ok: "drive_entry_ok (''root'', Some boot_drive)" "root_entry (''root'', Some boot_drive)"
    "\<not> drive_entry_ok (''data'', Some boot_drive)" "drive_table (Drives boot_hardware) = [(''root'', Some boot_drive)]"
    "0 < sint (CPUs boot_hardware)" "0 < sint (RAMMib boot_hardware)" "GuestCID (Sockets boot_hardware) = 3"
    "GuestVSockPort (Sockets boot_hardware) = 1"
    by (simp_all add: drive_entry_ok_def root_entry_def boot_drive_def Base_Validate_def Base_Parameters_def newDrive_def
        NewDriveOptions_def Options_Validate_def Clone_def boot_hardware_def drive_table_def NewHardware_def NewSockConfig_def)
  have "sint (3 :: 64 word) = 3" by simp
  with ok show ?thesis
    using Hardware_Validate_iff [of boot_hardware] Hardware_Validate_iff [of "boot_hardware\<lparr>Drives := Some [(''data'', Some boot_drive)]\<rparr>"]
    by (auto simp: drive_table_def)
qed

end
