(* ===== verification/VM.thy ===== *)
theory VM
  imports VM_Config
begin

text \<open>
  \<^verbatim>\<open>vm/vm.go\<close>, \<^verbatim>\<open>vm/status.go\<close> and \<^verbatim>\<open>vm/drive.go\<close>: the virtual machine, its lock, its status and its table of drives.
  The embedded \<^verbatim>\<open>firecracker.Machine\<close> is code of another repository: a parameter with what its three methods do to the host.
  A call on a value whose lock is held by the same goroutine never returns, \<open>Blocked\<close>; Go's mutex is not reentrant.
  Drives and keys are handed over by value: what the caller does later with a drive it attached is not followed.
\<close>

section \<open>State\<close>

text \<open>
  The methods of the SDK: \<^verbatim>\<open>DescribeInstanceInfo\<close> returns its error and whether the deadline of its context had passed,
  \<^verbatim>\<open>Start\<close> gets the startup timeout.
\<close>

record machine =
  DescribeInstanceInfo :: "host \<Rightarrow> (error option \<times> bool \<times> host) outcome"
  MachineStart :: "64 word \<Rightarrow> host \<Rightarrow> (error option \<times> host) outcome"
  StopVMM :: "host \<Rightarrow> (error option \<times> host) outcome"

record vm =
  config :: Config
  hardware :: Hardware
  Machine :: machine
  locked :: bool

datatype Status = UNKNOWN | CREATED | STARTING | RUNNING | STOPPING | STOPPED | ERROR

fun status_text :: "Status \<Rightarrow> string" where
  "status_text UNKNOWN = ''unknown''"
| "status_text CREATED = ''created''"
| "status_text STARTING = ''starting''"
| "status_text RUNNING = ''running''"
| "status_text STOPPING = ''stopping''"
| "status_text STOPPED = ''stopped''"
| "status_text ERROR = ''error''"

text \<open>\<^verbatim>\<open>v.lock.Lock(); defer v.lock.Unlock()\<close> around a body.\<close>

type_synonym 'r vm_op = "vm \<Rightarrow> host \<Rightarrow> ('r \<times> vm \<times> host) outcome"

definition with_lock :: "'r vm_op \<Rightarrow> 'r vm_op" where
  "with_lock body v h =
     (if locked v then Blocked
      else (case body (v\<lparr>locked := True\<rparr>) h of
              Panic \<Rightarrow> Panic
            | Blocked \<Rightarrow> Blocked
            | Return (r, v1, h1) \<Rightarrow> Return (r, v1\<lparr>locked := False\<rparr>, h1)))"

definition NewVM :: "machine \<Rightarrow> Hardware \<Rightarrow> Config \<Rightarrow> host \<Rightarrow> vm result \<times> host" where
  "NewVM zero_machine hw c h =
     (case Hardware_Validate hw of
        Some e \<Rightarrow> (Inl e, h)
      | None \<Rightarrow>
          (case Config_Validate c h of
             (Some e, c1, h1) \<Rightarrow> (Inl e, h1)
           | (None, c1, h1) \<Rightarrow>
               (Inr \<lparr>config = c1, hardware = (if Drives hw = None then hw\<lparr>Drives := Some []\<rparr> else hw), Machine = zero_machine,
                     locked = False\<rparr>, h1)))"

section \<open>Status\<close>

text \<open>\<^verbatim>\<open>os.IsNotExist\<close> looks at the error of the system call only.\<close>

definition statusCheck :: "Status result vm_op" where
  "statusCheck v h =
     (if APISock (Sockets (hardware v)) = '''' then Return (Inr CREATED, v, h)
      else
        (case on_fs (fs_Stat (abs_path h (APISock (Sockets (hardware v))))) h of
           (st, h1) \<Rightarrow>
             if st = Inl (LibE ErrNotExist) then Return (Inr CREATED, v, h1)
             else (case DescribeInstanceInfo (Machine v) h1 of
                     Panic \<Rightarrow> Panic
                   | Blocked \<Rightarrow> Blocked
                   | Return (Some e, expired, h2) \<Rightarrow>
                       if expired then Return (Inr UNKNOWN, v, h2) else Return (Inr STOPPED, v, h2)
                   | Return (None, expired, h2) \<Rightarrow> Return (Inr RUNNING, v, h2))))"

definition IsStarted :: "bool result vm_op" where
  "IsStarted =
     with_lock (\<lambda>v h.
       (case statusCheck v h of
          Panic \<Rightarrow> Panic
        | Blocked \<Rightarrow> Blocked
        | Return (Inl e, v1, h1) \<Rightarrow> Return (Inl (Wrap2 '''' (VmE ErrCannotDetermineStatus) e), v1, h1)
        | Return (Inr status, v1, h1) \<Rightarrow> Return (Inr (status \<in> {RUNNING, STARTING, STOPPING}), v1, h1)))"

definition vm_Status :: "Status result vm_op" where
  "vm_Status = with_lock statusCheck"

text \<open>The way the callers use \<^verbatim>\<open>IsStarted\<close>: its error is returned, otherwise its answer is handed on.\<close>

definition ask_started :: "(bool \<Rightarrow> error option vm_op) \<Rightarrow> error option vm_op" where
  "ask_started k v h =
     (case IsStarted v h of
        Panic \<Rightarrow> Panic
      | Blocked \<Rightarrow> Blocked
      | Return (Inl e, v1, h1) \<Rightarrow> Return (Some e, v1, h1)
      | Return (Inr started, v1, h1) \<Rightarrow> k started v1 h1)"

definition vm_Start :: "error option vm_op" where
  "vm_Start =
     with_lock (ask_started (\<lambda>started v h.
       if started then Return (Some (VmE ErrVMAlreadyStarted), v, h)
       else (case MachineStart (Machine v) (StartupTimeout (config v)) h of
               Panic \<Rightarrow> Panic
             | Blocked \<Rightarrow> Blocked
             | Return (Some e, h1) \<Rightarrow> Return (Some (Wrap2 '''' (VmE ErrFailedToStartVM) e), v, h1)
             | Return (None, h1) \<Rightarrow> Return (None, v, h1))))"

definition vm_Stop :: "error option vm_op" where
  "vm_Stop =
     with_lock (ask_started (\<lambda>started v h.
       if \<not> started then Return (Some (VmE ErrVMNotStarted), v, h)
       else (case StopVMM (Machine v) h of
               Panic \<Rightarrow> Panic
             | Blocked \<Rightarrow> Blocked
             | Return (e, h1) \<Rightarrow> Return (None, v, h1))))"

definition vm_Cleanup :: "error option vm_op" where
  "vm_Cleanup =
     with_lock (\<lambda>v h. (case StopVMM (Machine v) h of
                         Panic \<Rightarrow> Panic
                       | Blocked \<Rightarrow> Blocked
                       | Return (e, h1) \<Rightarrow> Return (e, v, h1)))"

section \<open>Drives\<close>

definition set_drive :: "string \<Rightarrow> vm_drive \<Rightarrow> vm \<Rightarrow> vm" where
  "set_drive i d v =
     v\<lparr>hardware := (hardware v)\<lparr>Drives := Some (set_entry i (Some d) (drive_table (Drives (hardware v))))\<rparr>\<rparr>"

definition addDriveLocked :: "vm_drive option \<Rightarrow> error option vm_op" where
  "addDriveLocked driveObj v h =
     (case driveObj of
        None \<Rightarrow> Return (Some (VmE ErrVMInvalidParameter), v, h)
      | Some d \<Rightarrow>
          if \<not> drive_Validate d then Return (Some (VmE ErrVMInvalidParameter), v, h)
          else (case drive_Parameters d of
                  None \<Rightarrow> Return (Some (VmE ErrVMInvalidParameter), v, h)
                | Some p \<Rightarrow>
                    if optId p = '''' then Return (Some (VmE ErrVMInvalidParameter), v, h)
                    else with_lock (ask_started (\<lambda>started v h.
                           if started then Return (Some (VmE ErrVMAlreadyStarted), v, h)
                           else Return (None, set_drive (optId p) d v, h))) v h))"

definition AddDrive :: "drive \<Rightarrow> error option vm_op" where
  "AddDrive d = addDriveLocked (Some (PlainDrive d))"

definition AddEncryptedDrive :: "encrypted_drive \<Rightarrow> error option vm_op" where
  "AddEncryptedDrive d = addDriveLocked (Some (CryptDrive d))"

text \<open>Whether the table has a drive for the ID; a nil entry counts as none.\<close>

definition known_drive :: "vm \<Rightarrow> string \<Rightarrow> bool" where
  "known_drive v i \<longleftrightarrow> (case map_of (drive_table (Drives (hardware v))) i of Some (Some d) \<Rightarrow> True | _ \<Rightarrow> False)"

definition RemoveDrive :: "string \<Rightarrow> error option vm_op" where
  "RemoveDrive driveID =
     with_lock (\<lambda>v h.
       if \<not> known_drive v driveID then Return (Some (Msg (''unknown drive: '' @ driveID)), v, h)
       else ask_started (\<lambda>started v h.
              if started then Return (Some (VmE ErrVMAlreadyStarted), v, h)
              else Return (None, v\<lparr>hardware := (hardware v)\<lparr>Drives :=
                     map_option (filter (\<lambda>p. fst p \<noteq> driveID)) (Drives (hardware v))\<rparr>\<rparr>, h)) v h)"

definition HotAddDrive :: "vm_drive option \<Rightarrow> error option vm_op" where
  "HotAddDrive d =
     with_lock (ask_started (\<lambda>started v h.
       if started then Return (Some (VmE ErrVMAlreadyStarted), v, h) else Return (None, v, h)))"

definition HotRemoveDrive :: "string \<Rightarrow> error option vm_op" where
  "HotRemoveDrive driveID =
     with_lock (\<lambda>v h.
       if \<not> known_drive v driveID then Return (Some (Msg (''unknown drive: '' @ driveID)), v, h)
       else Return (None, v, h))"

definition AttachDiskImage :: "string \<Rightarrow> DriveOptions option \<Rightarrow> drive result vm_op" where
  "AttachDiskImage path opts v h =
     (case BaseDriveFromImage path opts h of
        Panic \<Rightarrow> Panic
      | Blocked \<Rightarrow> Blocked
      | Return (Inl e, h1) \<Rightarrow> Return (Inl e, v, h1)
      | Return (Inr d, h1) \<Rightarrow>
          (case AddDrive d v h1 of
             Panic \<Rightarrow> Panic
           | Blocked \<Rightarrow> Blocked
           | Return (Some e, v2, h2) \<Rightarrow> Return (Inl e, v2, h2)
           | Return (None, v2, h2) \<Rightarrow> Return (Inr d, v2, h2)))"

record EncryptedDriveOptions =
  eID :: string
  eReadOnly :: bool
  eIsRoot :: bool
  ePartUUID :: string
  eCacheType :: string
  eEphemeral :: bool
  eSizeBytes :: "64 word"
  eMountMethod :: MountMethod
  eKey :: "key option"
  ePassphrase :: string

text \<open>The key of the options, or one derived from the passphrase, whose bytes are a new array.\<close>

definition attach_key :: "EncryptedDriveOptions \<Rightarrow> host \<Rightarrow> key result \<times> host" where
  "attach_key opts h =
     (case eKey opts of
        Some k \<Rightarrow> (Inr k, h)
      | None \<Rightarrow>
          if ePassphrase opts = '''' then (Inl (Wrap ''passphrase cannot be empty'' (VmE ErrVMInvalidParameter)), h)
          else NewSHA256PassphraseKey (nextMem h)
                 (h\<lparr>mem := (mem h)(nextMem h := bytes_of (ePassphrase opts)), nextMem := Suc (nextMem h)\<rparr>))"

definition attach_params :: "EncryptedDriveOptions \<Rightarrow> DriveOptions" where
  "attach_params opts =
     NewDriveOptions (eID opts) (eReadOnly opts) (eIsRoot opts) (ePartUUID opts) (eCacheType opts) (eEphemeral opts)
       (eSizeBytes opts) ''ext4'' (if eMountMethod opts = '''' then MountMethodLoop else eMountMethod opts)"

definition AttachEncryptedDiskImage :: "string \<Rightarrow> EncryptedDriveOptions \<Rightarrow> encrypted_drive result vm_op" where
  "AttachEncryptedDiskImage path opts v h =
     (if path = '''' \<or> eID opts = '''' then Return (Inl (VmE ErrVMInvalidParameter), v, h)
      else
        (case attach_key opts h of
           (Inl e, h1) \<Rightarrow> Return (Inl e, v, h1)
         | (Inr k, h1) \<Rightarrow>
             (case EncryptedDriveFromImage path (Some k) (Some (attach_params opts)) h1 of
                (Inl e, h2) \<Rightarrow> Return (Inl e, v, snd (Destroy k h2))
              | (Inr d, h2) \<Rightarrow>
                  (case AddEncryptedDrive d v h2 of
                     Panic \<Rightarrow> Panic
                   | Blocked \<Rightarrow> Blocked
                   | Return (Some e, v3, h3) \<Rightarrow> Return (Inl e, v3, snd (Destroy k h3))
                   | Return (None, v3, h3) \<Rightarrow> Return (Inr d, v3, h3)))))"

section \<open>What the calls do\<close>

text \<open>One call with its answer forgotten, and a sequence of calls.\<close>

datatype vm_call =
    CallStatus | CallIsStarted | CallStart | CallStop | CallCleanup
  | CallAdd "vm_drive option" | CallRemove string | CallHotAdd "vm_drive option" | CallHotRemove string
  | CallAttach string "DriveOptions option" | CallAttachEncrypted string EncryptedDriveOptions

definition forget :: "('r \<times> vm \<times> host) outcome \<Rightarrow> (vm \<times> host) outcome" where
  "forget r = (case r of Panic \<Rightarrow> Panic | Blocked \<Rightarrow> Blocked | Return (x, v, h) \<Rightarrow> Return (v, h))"

fun vm_do :: "vm_call \<Rightarrow> vm \<Rightarrow> host \<Rightarrow> (vm \<times> host) outcome" where
  "vm_do CallStatus v h = forget (vm_Status v h)"
| "vm_do CallIsStarted v h = forget (IsStarted v h)"
| "vm_do CallStart v h = forget (vm_Start v h)"
| "vm_do CallStop v h = forget (vm_Stop v h)"
| "vm_do CallCleanup v h = forget (vm_Cleanup v h)"
| "vm_do (CallAdd d) v h = forget (addDriveLocked d v h)"
| "vm_do (CallRemove i) v h = forget (RemoveDrive i v h)"
| "vm_do (CallHotAdd d) v h = forget (HotAddDrive d v h)"
| "vm_do (CallHotRemove i) v h = forget (HotRemoveDrive i v h)"
| "vm_do (CallAttach p ops) v h = forget (AttachDiskImage p ops v h)"
| "vm_do (CallAttachEncrypted p ops) v h = forget (AttachEncryptedDiskImage p ops v h)"

fun vm_run :: "vm_call list \<Rightarrow> vm \<Rightarrow> host \<Rightarrow> (vm \<times> host) outcome" where
  "vm_run [] v h = Return (v, h)"
| "vm_run (c # cs) v h =
     (case vm_do c v h of Panic \<Rightarrow> Panic | Blocked \<Rightarrow> Blocked | Return (v1, h1) \<Rightarrow> vm_run cs v1 h1)"

text \<open>\<^verbatim>\<open>IsStarted\<close> takes the lock, so that asking it with the lock held never returns.\<close>

lemma ask_started_locked: "locked v \<Longrightarrow> ask_started k v h = Blocked"
  by (simp add: ask_started_def IsStarted_def with_lock_def)

lemma with_lock_ask: "with_lock (ask_started k) v h = Blocked"
  by (simp add: with_lock_def ask_started_locked)

lemma drive_Validate_params: "drive_Validate d \<Longrightarrow> \<exists>p. drive_Parameters d = Some p \<and> optId p \<noteq> ''''"
  by (cases d) (auto simp: Base_Validate_def Enc_Validate_def Base_Parameters_def Enc_Parameters_def Clone_def Options_Validate_def split: option.splits if_splits)

definition valid_drive :: "vm_drive option \<Rightarrow> bool" where
  "valid_drive d \<longleftrightarrow> (case d of None \<Rightarrow> False | Some x \<Rightarrow> drive_Validate x)"

lemma addDriveLocked_spec:
  "addDriveLocked d v h = (if valid_drive d then Blocked else Return (Some (VmE ErrVMInvalidParameter), v, h))"
  using drive_Validate_params by (fastforce simp: addDriveLocked_def valid_drive_def with_lock_ask split: option.split)

lemma RemoveDrive_spec:
  "RemoveDrive i v h =
     (if locked v \<or> known_drive v i then Blocked else Return (Some (Msg (''unknown drive: '' @ i)), v\<lparr>locked := False\<rparr>, h))"
proof -
  have "known_drive (v\<lparr>locked := True\<rparr>) i = known_drive v i" by (simp add: known_drive_def)
  then show ?thesis by (simp add: RemoveDrive_def with_lock_def ask_started_locked)
qed

text \<open>
  C35: starting and stopping a machine never return, nor do adding a valid drive, removing a known one and hot-adding any:
  each takes the lock of the machine and then calls \<^verbatim>\<open>IsStarted\<close>, which takes it again. The only answers are the
  refusals of an invalid drive and of an unknown ID.
\<close>

theorem vm_calls_deadlock:
  "vm_Start v h = Blocked \<and> vm_Stop v h = Blocked \<and> HotAddDrive d v h = Blocked
   \<and> addDriveLocked d v h = (if valid_drive d then Blocked else Return (Some (VmE ErrVMInvalidParameter), v, h))
   \<and> RemoveDrive i v h =
       (if locked v \<or> known_drive v i then Blocked else Return (Some (Msg (''unknown drive: '' @ i)), v\<lparr>locked := False\<rparr>, h))"
  by (simp add: vm_Start_def vm_Stop_def HotAddDrive_def with_lock_ask addDriveLocked_spec RemoveDrive_spec)

text \<open>What a call that returns leaves behind.\<close>

lemma forget_Return: "forget r = Return (v', h') \<longleftrightarrow> (\<exists>x. r = Return (x, v', h'))"
  by (auto simp: forget_def split: outcome.splits)

lemma unlock_relock: "\<not> locked v \<Longrightarrow> v\<lparr>locked := False\<rparr> = v"
  by (cases v) simp

lemma with_lock_same:
  assumes "with_lock body v h = Return (r, v', h')" and "\<And>v h r v' h'. body v h = Return (r, v', h') \<Longrightarrow> v' = v"
  shows "v' = v"
proof -
  obtain v1 h1 where b: "\<not> locked v" "body (v\<lparr>locked := True\<rparr>) h = Return (r, v1, h1)" "v' = v1\<lparr>locked := False\<rparr>"
    using assms(1) by (auto simp: with_lock_def split: if_splits outcome.splits)
  with assms(2) [OF b(2)] unlock_relock [of v] show ?thesis by simp
qed

lemma statusCheck_same: "statusCheck v h = Return (r, v', h') \<Longrightarrow> v' = v"
  by (auto simp: statusCheck_def split: if_splits prod.splits outcome.splits option.splits)

lemma statusCheck_values:
  "statusCheck v h = Return (r, v', h') \<Longrightarrow> \<exists>s \<in> {CREATED, RUNNING, STOPPED, UNKNOWN}. r = Inr s"
  by (auto simp: statusCheck_def split: if_splits prod.splits outcome.splits option.splits)

lemma IsStarted_same: "IsStarted v h = Return (r, v', h') \<Longrightarrow> v' = v"
  unfolding IsStarted_def
  by (erule with_lock_same) (auto dest: statusCheck_same split: outcome.splits sum.splits)

lemma addDriveLocked_returns: "addDriveLocked d v h = Return (r, v', h') \<Longrightarrow> r \<noteq> None \<and> v' = v"
  using addDriveLocked_spec [of d v h] by (auto split: if_splits)

lemma AttachDiskImage_returns: "AttachDiskImage p ops v h = Return (r, v', h') \<Longrightarrow> (\<exists>e. r = Inl e) \<and> v' = v"
  unfolding AttachDiskImage_def AddDrive_def
  by (auto dest!: addDriveLocked_returns split: outcome.splits sum.splits option.splits)

lemma AttachEncryptedDiskImage_returns:
  "AttachEncryptedDiskImage p ops v h = Return (r, v', h') \<Longrightarrow> (\<exists>e. r = Inl e) \<and> v' = v"
  unfolding AttachEncryptedDiskImage_def AddEncryptedDrive_def
  by (auto dest!: addDriveLocked_returns split: if_splits prod.splits outcome.splits sum.splits option.splits)

lemma vm_do_same:
  assumes "\<not> locked v" and "vm_do c v h = Return (v', h')"
  shows "v' = v"
proof (cases c)
  case CallStatus
  with assms show ?thesis unfolding vm_Status_def
    by (auto simp: forget_Return vm_Status_def dest: with_lock_same statusCheck_same)
next
  case CallIsStarted
  with assms show ?thesis by (auto simp: forget_Return dest: IsStarted_same)
next
  case CallCleanup
  with assms obtain r where r: "vm_Cleanup v h = Return (r, v', h')" by (auto simp: forget_Return)
  show ?thesis by (rule with_lock_same [OF r [unfolded vm_Cleanup_def]]) (auto split: outcome.splits)
next
  case (CallHotRemove i)
  with assms obtain r where r: "HotRemoveDrive i v h = Return (r, v', h')" by (auto simp: forget_Return)
  show ?thesis by (rule with_lock_same [OF r [unfolded HotRemoveDrive_def]]) (auto split: if_splits)
next
  case (CallRemove i)
  with assms show ?thesis by (auto simp: forget_Return RemoveDrive_spec unlock_relock split: if_splits)
next
  case (CallAdd d)
  with assms show ?thesis by (auto simp: forget_Return dest: addDriveLocked_returns)
next
  case (CallAttach p ops)
  with assms show ?thesis by (auto simp: forget_Return dest: AttachDiskImage_returns)
next
  case (CallAttachEncrypted p ops)
  with assms show ?thesis by (auto simp: forget_Return dest: AttachEncryptedDiskImage_returns)
qed (use assms in \<open>simp_all add: forget_def vm_Start_def vm_Stop_def HotAddDrive_def with_lock_ask\<close>)

lemma vm_run_same: "\<not> locked v \<Longrightarrow> vm_run cs v h = Return (v', h') \<Longrightarrow> v' = v"
proof (induction cs arbitrary: h)
  case Nil
  then show ?case by simp
next
  case (Cons c cs)
  then obtain v1 h1 where a: "vm_do c v h = Return (v1, h1)" "vm_run cs v1 h1 = Return (v', h')"
    by (auto split: outcome.splits)
  with Cons.IH vm_do_same [OF Cons.prems(1) a(1)] Cons.prems(1) show ?case by simp
qed

lemma NewVM_made:
  assumes "NewVM m hw c h = (Inr v, h')"
  shows "\<not> locked v \<and> Machine v = m \<and> Hardware_Validate (hardware v) = None \<and> Drives (hardware v) \<noteq> None
    \<and> drive_table (Drives (hardware v)) = drive_table (Drives hw) \<and> EnvironmentVariables (config v) \<noteq> None"
proof -
  have "Hardware_Validate (hw\<lparr>Drives := Some []\<rparr>) = Hardware_Validate hw" if "Drives hw = None"
    using that by (simp add: Hardware_Validate_def drive_table_def)
  moreover have "EnvironmentVariables c1 \<noteq> None" if "Config_Validate c h = (e, c1, h1)" for e c1 h1
    using that by (auto simp: Config_Validate_def with_env_def split: prod.splits)
  ultimately show ?thesis using assms
    by (auto simp: NewVM_def drive_table_def split: option.splits prod.splits if_splits)
qed

text \<open>
  C36: whatever sequence of calls is made on a new machine, as long as they return, the machine stays as it was made: its
  lock is free, its hardware valid, and its table of drives the one it was made with.
\<close>

theorem vm_stays_as_made:
  assumes "NewVM m hw c h0 = (Inr v, h1)" and "vm_run cs v h1 = Return (v', h')"
  shows "v' = v \<and> \<not> locked v' \<and> Hardware_Validate (hardware v') = None \<and> Drives (hardware v') \<noteq> None
    \<and> drive_table (Drives (hardware v')) = drive_table (Drives hw) \<and> EnvironmentVariables (config v') \<noteq> None"
  using NewVM_made [OF assms(1)] vm_run_same [OF _ assms(2)] by auto

text \<open>
  the status of a machine is one of created, running, stopped and unknown, never an error, and \<^verbatim>\<open>IsStarted\<close> answers
  whether it is running.
\<close>

theorem status_reports:
  assumes "vm_Status v h = Return (r, v', h')"
  shows "\<exists>s \<in> {CREATED, RUNNING, STOPPED, UNKNOWN}. r = Inr s \<and> IsStarted v h = Return (Inr (s = RUNNING), v', h')"
proof -
  obtain v1 where a: "\<not> locked v" "statusCheck (v\<lparr>locked := True\<rparr>) h = Return (r, v1, h')" "v' = v1\<lparr>locked := False\<rparr>"
    using assms by (auto simp: vm_Status_def with_lock_def split: if_splits outcome.splits)
  from statusCheck_values [OF a(2)] obtain s where "s \<in> {CREATED, RUNNING, STOPPED, UNKNOWN}" "r = Inr s" by blast
  with a show ?thesis by (auto simp: IsStarted_def with_lock_def)
qed

text \<open>A machine whose socket is absent and one that answers.\<close>

definition quiet_machine :: machine where
  "quiet_machine =
     \<lparr>DescribeInstanceInfo = (\<lambda>h. Return (None, False, h)), MachineStart = (\<lambda>t h. Return (None, h)), StopVMM = (\<lambda>h. Return (None, h))\<rparr>"

definition ready_config :: Config where
  "ready_config =
     \<lparr>Firecracker = \<lparr>FirecrackerBin = ''/fc'', KernelImage = ''/k'', InitrdImage = ''/i'', WorkDir = ''/run''\<rparr>, StartupTimeout = 1,
      MaxStartupTimeout = 2, EnvironmentVariables = None\<rparr>"

definition boot_host :: host where
  "boot_host = env_host\<lparr>files := (files env_host)\<lparr>tree := boot_tree\<rparr>\<rparr>"

lemma new_vm: "\<exists>v. NewVM quiet_machine boot_hardware ready_config boot_host = (Inr v, boot_host) \<and> APISock (Sockets (hardware v)) = ''''"
proof -
  have m: "must_exist what p boot_host = (None, boot_host)" if "p \<in> {''/fc'', ''/k'', ''/i''}" for what p
  proof -
    have "fsFaults (files boot_host) = []" by (simp add: boot_host_def env_host_def)
    moreover have "p \<noteq> ''''" using that by auto
    moreover have "\<exists>loc. resolve (tree (files boot_host)) (comps (abs_path boot_host p)) = Inr loc
        \<and> node_at (tree (files boot_host)) loc \<noteq> None"
    proof -
      have "resolve boot_tree (comps ''/fc'') = Inr [''fc'']" "resolve boot_tree (comps ''/k'') = Inr [''k'']"
        "resolve boot_tree (comps ''/i'') = Inr [''i'']" by code_simp+
      moreover have "abs_path boot_host p = p" using that by (auto simp: abs_path_def IsAbs_def)
      moreover have "tree (files boot_host) = boot_tree" by (simp add: boot_host_def)
      moreover have "boot_tree [''fc''] = Some (File [1])" "boot_tree [''k''] = Some (File [1])" "boot_tree [''i''] = Some (File [1])"
        by (simp_all add: boot_tree_def)
      ultimately show ?thesis using that by (elim insertE emptyE) (simp_all add: node_at_def)
    qed
    ultimately show ?thesis using must_exist_again by blast
  qed
  have "Config_Validate ready_config boot_host = (None, with_env ready_config, boot_host)"
    by (simp add: Config_Validate_def FirecrackerConfig_Validate_def paths_exist_def ready_config_def with_env_def m)
  moreover have "Hardware_Validate boot_hardware = None" by (rule boot_hardware_valid)
  moreover have "APISock (Sockets boot_hardware) = ''''" "Drives boot_hardware \<noteq> None"
    by (simp_all add: boot_hardware_def NewHardware_def NewSockConfig_def)
  ultimately show ?thesis by (simp add: NewVM_def)
qed

theorem vm_stays_as_made_witness:
  "\<exists>v. NewVM quiet_machine boot_hardware ready_config boot_host = (Inr v, boot_host)
     \<and> vm_run [CallStatus, CallHotRemove ''root'', CallCleanup] v boot_host = Return (v, boot_host)
     \<and> drive_table (Drives (hardware v)) = [(''root'', Some boot_drive)]"
proof -
  obtain v where v: "NewVM quiet_machine boot_hardware ready_config boot_host = (Inr v, boot_host)"
    "APISock (Sockets (hardware v)) = ''''" using new_vm by blast
  note n = NewVM_made [OF v(1)]
  have t: "drive_table (Drives boot_hardware) = [(''root'', Some boot_drive)]"
    by (simp add: boot_hardware_def drive_table_def)
  have "\<exists>v'. vm_run [CallStatus, CallHotRemove ''root'', CallCleanup] v boot_host = Return (v', boot_host)"
    using n v(2) t by (simp add: vm_Status_def with_lock_def statusCheck_def forget_def HotRemoveDrive_def known_drive_def
        vm_Cleanup_def quiet_machine_def)
  then obtain v' where r: "vm_run [CallStatus, CallHotRemove ''root'', CallCleanup] v boot_host = Return (v', boot_host)" by blast
  from vm_stays_as_made [OF v(1) r] v(1) r t show ?thesis by auto
qed

theorem status_reports_witness:
  "\<exists>v. vm_Status v boot_host = Return (Inr RUNNING, v, boot_host) \<and> IsStarted v boot_host = Return (Inr True, v, boot_host)"
proof -
  let ?hw = "boot_hardware\<lparr>Sockets := NewSockConfig\<lparr>APISock := ''/fc''\<rparr>\<rparr>"
  let ?v = "\<lparr>config = ready_config, hardware = ?hw, Machine = quiet_machine, locked = False\<rparr>"
  have "fst (on_fs (fs_Stat (abs_path boot_host ''/fc'')) boot_host) = Inr (False, 1)" by code_simp
  moreover have "snd (on_fs (fs_Stat (abs_path boot_host ''/fc'')) boot_host) = boot_host"
    by (simp add: on_fs_def fs_Stat_def fs_sys_def boot_host_def env_host_def split: option.split node.split sum.split)
  ultimately have f: "on_fs (fs_Stat (abs_path boot_host ''/fc'')) boot_host = (Inr (False, 1), boot_host)"
    by (metis prod.collapse)
  have r: "vm_Status ?v boot_host = Return (Inr RUNNING, ?v, boot_host)"
    by (simp add: vm_Status_def with_lock_def statusCheck_def f quiet_machine_def)
  from status_reports [OF this] r show ?thesis by auto
qed

end
