(* ===== verification/Heartbeat.thy ===== *)
theory Heartbeat
  imports Protocol
begin

text \<open>
  \<^verbatim>\<open>vsock/protocol/common/heartbeat.go\<close>: two peers ask each other for a sign of life over \<^verbatim>\<open>R[Req, Resp]\<close>. What the
  mutex of a heartbeat guards is the record \<open>heart\<close>; every critical section is a function on it. Times are nanoseconds
  since the zero time and come from outside, like the answers of the health provider, a user function named by a value of
  \<open>'g\<close>. A health map is the list of its entries in the order of a \<^verbatim>\<open>range\<close> loop, \<open>None\<close> when nil.
\<close>

section \<open>Configuration\<close>

definition TypeHeartbeat :: u32 where "TypeHeartbeat = 0xFFFF1001"

type_synonym beat_status = "8 word"

definition HeartbeatStatusUnknown :: beat_status where "HeartbeatStatusUnknown = 0"
definition HeartbeatStatusOK :: beat_status where "HeartbeatStatusOK = 1"
definition HeartbeatStatusWarning :: beat_status where "HeartbeatStatusWarning = 2"
definition HeartbeatStatusError :: beat_status where "HeartbeatStatusError = 3"
definition HeartbeatStatusStarting :: beat_status where "HeartbeatStatusStarting = 4"
definition HeartbeatStatusStopping :: beat_status where "HeartbeatStatusStopping = 5"

lemmas beat_statuses =
  HeartbeatStatusUnknown_def HeartbeatStatusOK_def HeartbeatStatusWarning_def HeartbeatStatusError_def
  HeartbeatStatusStarting_def HeartbeatStatusStopping_def

definition DefaultHeartbeatInterval :: "64 word" where "DefaultHeartbeatInterval = 15 * 1000000000"
definition DefaultHeartbeatTimeout :: "64 word" where "DefaultHeartbeatTimeout = 45 * 1000000000"

record HeartbeatConfig =
  Interval :: "64 word"
  Timeout :: "64 word"

definition DefaultHeartbeatConfig :: HeartbeatConfig where
  "DefaultHeartbeatConfig = \<lparr>Interval = DefaultHeartbeatInterval, Timeout = DefaultHeartbeatTimeout\<rparr>"

definition HeartbeatConfig_Validate :: "HeartbeatConfig option \<Rightarrow> error option" where
  "HeartbeatConfig_Validate co =
     (case co of
        None \<Rightarrow> None
      | Some c \<Rightarrow>
          if sint (Interval c) \<le> 0 then Some (Msg ''heartbeat interval must be > 0'')
          else if sint (Timeout c) \<le> 0 then Some (Msg ''heartbeat timeout must be > 0'')
          else if sint (Timeout c) \<le> sint (Interval c)
          then Some (Msg ''heartbeat timeout must be greater than heartbeat interval'')
          else None)"

section \<open>State\<close>

type_synonym 'a health_map = "(string \<times> 'a) list option"

record 'a HeartbeatState =
  Sent :: int
  Received :: int
  Status :: beat_status
  Health :: "'a health_map"

record 'a HeartbeatPayload =
  SentAt :: int
  pStatus :: beat_status
  pHealth :: "'a health_map"

record ('g, 'a) heart =
  hbConfig :: HeartbeatConfig
  hbState :: "'a HeartbeatState"
  started :: bool
  health :: "'g option"

definition zero_state :: "'a HeartbeatState" where
  "zero_state = \<lparr>Sent = 0, Received = 0, Status = HeartbeatStatusUnknown, Health = None\<rparr>"

definition new_heart :: "HeartbeatConfig \<Rightarrow> ('g, 'a) heart" where
  "new_heart cfg = \<lparr>hbConfig = cfg, hbState = zero_state, started = False, health = None\<rparr>"

text \<open>\<^verbatim>\<open>Start\<close>: whether a goroutine for the loop was started. A nil heartbeat is left alone.\<close>

definition Heartbeat_Start :: "('g, 'a) heart option \<Rightarrow> bool \<times> ('g, 'a) heart option" where
  "Heartbeat_Start ho =
     (case ho of
        None \<Rightarrow> (False, None)
      | Some h \<Rightarrow> if started h then (False, Some h) else (True, Some (h\<lparr>started := True\<rparr>)))"

definition OnHealth :: "'g option \<Rightarrow> ('g, 'a) heart \<Rightarrow> ('g, 'a) heart" where
  "OnHealth provider h = h\<lparr>health := provider\<rparr>"

text \<open>\<^verbatim>\<open>State\<close> hands out a copy of the map, made entry by entry.\<close>

fun copy_entries :: "(string \<times> 'a) list \<Rightarrow> (string \<times> 'a) list \<Rightarrow> (string \<times> 'a) list" where
  "copy_entries [] copied = copied"
| "copy_entries ((k, v) # kvs) copied = copy_entries kvs (filter (\<lambda>p. fst p \<noteq> k) copied @ [(k, v)])"

definition Heartbeat_State :: "('g, 'a) heart \<Rightarrow> 'a HeartbeatState" where
  "Heartbeat_State h =
     (case Health (hbState h) of
        None \<Rightarrow> hbState h
      | Some kvs \<Rightarrow> (hbState h)\<lparr>Health := Some (copy_entries kvs [])\<rparr>)"

definition snapshotHealth :: "('g \<Rightarrow> 'a health_map) \<Rightarrow> ('g, 'a) heart \<Rightarrow> 'a health_map" where
  "snapshotHealth provide h = (case health h of None \<Rightarrow> None | Some provider \<Rightarrow> provide provider)"

definition setStatus :: "beat_status \<Rightarrow> ('g, 'a) heart \<Rightarrow> ('g, 'a) heart" where
  "setStatus st h = h\<lparr>hbState := (hbState h)\<lparr>Status := st\<rparr>\<rparr>"

definition hb_stop :: "('g, 'a) heart \<Rightarrow> ('g, 'a) heart" where
  "hb_stop h = h\<lparr>hbState := (hbState h)\<lparr>Status := HeartbeatStatusStopping\<rparr>, started := False\<rparr>"

text \<open>The payload of a ping, what sending it stores, and what its answer stores.\<close>

definition ping_payload :: "('g \<Rightarrow> 'a health_map) \<Rightarrow> int \<Rightarrow> ('g, 'a) heart \<Rightarrow> 'a HeartbeatPayload" where
  "ping_payload provide now h = \<lparr>SentAt = now, pStatus = HeartbeatStatusOK, pHealth = snapshotHealth provide h\<rparr>"

definition ping_sent :: "'a HeartbeatPayload \<Rightarrow> ('g, 'a) heart \<Rightarrow> ('g, 'a) heart" where
  "ping_sent p h = h\<lparr>hbState := (hbState h)\<lparr>Sent := SentAt p, Health := pHealth p\<rparr>\<rparr>"

definition heard :: "int \<Rightarrow> 'a HeartbeatPayload \<Rightarrow> ('g, 'a) heart \<Rightarrow> ('g, 'a) heart" where
  "heard now p h = h\<lparr>hbState := (hbState h)\<lparr>Received := now, Status := pStatus p, Health := pHealth p\<rparr>\<rparr>"

definition handleRequest ::
  "('g \<Rightarrow> 'a health_map) \<Rightarrow> int \<Rightarrow> 'a HeartbeatPayload \<Rightarrow> ('g, 'a) heart \<Rightarrow> 'a HeartbeatPayload result \<times> ('g, 'a) heart" where
  "handleRequest provide now req h =
     (Inr \<lparr>SentAt = SentAt req, pStatus = HeartbeatStatusOK, pHealth = snapshotHealth provide h\<rparr>, heard now req h)"

section \<open>On a messenger\<close>

text \<open>A messenger has room for one heartbeat, whose handler is the only function registered here.\<close>

datatype beat_fun = HandleBeat

record ('g, 'a) heart_peer = "beat_fun peer" +
  heart :: "('g, 'a) heart"

record Heartbeat =
  transport :: robj

definition on_heart :: "(('g, 'a) heart \<Rightarrow> ('g, 'a) heart) \<Rightarrow> ('g, 'a, 'm) heart_peer_scheme \<Rightarrow> ('g, 'a, 'm) heart_peer_scheme" where
  "on_heart f s = s\<lparr>heart := f (heart s)\<rparr>"

definition beat_type :: tid where "beat_type = 0"

definition beat_callR ::
  "('g \<Rightarrow> 'a health_map) \<Rightarrow> int \<Rightarrow> beat_fun \<Rightarrow> ctx \<Rightarrow> 'a HeartbeatPayload decoded \<Rightarrow> message
     \<Rightarrow> ('g, 'a, 'm) heart_peer_scheme \<Rightarrow> ('a HeartbeatPayload result \<times> message \<times> ('g, 'a, 'm) heart_peer_scheme) option" where
  "beat_callR provide now f ctx v msg s =
     (case v of
        Plain req \<Rightarrow> (case handleRequest provide now req (heart s) of (r, h) \<Rightarrow> Some (r, msg, s\<lparr>heart := h\<rparr>))
      | _ \<Rightarrow> Some (Inl (Msg ''not a heartbeat''), msg, s))"

definition NewHeartbeat ::
  "nat \<Rightarrow> HeartbeatConfig \<Rightarrow> ('g, 'a, 'm) heart_peer_scheme option \<Rightarrow> Heartbeat result \<times> ('g, 'a, 'm) heart_peer_scheme option" where
  "NewHeartbeat addr cfg so =
     (case HeartbeatConfig_Validate (Some cfg) of
        Some e \<Rightarrow> (Inl e, so)
      | None \<Rightarrow>
          if_ok (NewCodecOfType beat_type TypeHeartbeat CodecMsgpack, so) (\<lambda>reqCodec so.
          if_ok (NewCodecOfType beat_type (TypeHeartbeat + 100) CodecMsgpack, so) (\<lambda>respCodec so.
          if_ok (NewR addr so (Some reqCodec) (Some respCodec)) (\<lambda>tr so.
            (case map_option (on_heart (\<lambda>h. new_heart cfg)) so of
               None \<Rightarrow> (Inl (VsockE ErrNilTransport), None)
             | Some s \<Rightarrow>
                 (case R_OnRequest (Some tr) (Some HandleBeat) s of
                    (Some e, s') \<Rightarrow> (Inl e, Some s')
                  | (None, s') \<Rightarrow> (Inr \<lparr>transport = tr\<rparr>, Some s')))))))"

text \<open>A context with a timeout: \<open>expired\<close> says at which looks at it the time is over.\<close>

definition with_timeout :: "(nat \<Rightarrow> bool) \<Rightarrow> ctx \<Rightarrow> ctx" where
  "with_timeout expired ctx n =
     (case ctx n of Some e \<Rightarrow> Some e | None \<Rightarrow> if expired n then Some (LibE ErrDeadlineExceeded) else None)"

text \<open>
  One ping. When the request has failed the context is looked at, and a second time for the error that is returned; the
  request itself is that of \<open>Protocol\<close>, with the events that come in while it waits and the bytes of the answer.
\<close>

definition ping ::
  "'a HeartbeatPayload libraries \<Rightarrow> (tid \<Rightarrow> stream_target) \<Rightarrow> ('a HeartbeatPayload \<Rightarrow> 's dynamic_payload) \<Rightarrow> ('s \<Rightarrow> nat \<Rightarrow> 's rres)
     \<Rightarrow> 's seeker option \<Rightarrow> (nat \<Rightarrow> byte list result) \<Rightarrow> ('g \<Rightarrow> 'a health_map) \<Rightarrow> int \<Rightarrow> int \<Rightarrow> (nat \<Rightarrow> bool) \<Rightarrow> ctx \<Rightarrow> Heartbeat
     \<Rightarrow> resp_event list \<Rightarrow> byte list \<Rightarrow> ('g, 'a, 'm) heart_peer_scheme \<Rightarrow> (error option \<times> ('g, 'a, 'm) heart_peer_scheme) option" where
  "ping libs shape dyn rd sk rand provide now1 now2 expired ctx hb evs arrived s =
     (let payload = ping_payload provide now1 (heart s)
      in (case R_Request libs shape dyn rd sk rand (with_timeout expired ctx) (Some (transport hb)) payload evs arrived
                 (on_heart (ping_sent payload) s) of
            None \<Rightarrow> None
          | Some (Inl err, s1) \<Rightarrow>
              (case poll ctx s1 of
                 (Some e, s2) \<Rightarrow> Some (case poll ctx s2 of (e', s3) \<Rightarrow> (e', s3))
               | (None, s2) \<Rightarrow>
                   if errors_Is err (LibE ErrDeadlineExceeded) then Some (None, on_heart (setStatus HeartbeatStatusWarning) s2)
                   else Some (Some err, on_heart (setStatus HeartbeatStatusWarning) s2))
          | Some (Inr (Plain resp), s1) \<Rightarrow> Some (None, on_heart (heard now2 resp) s1)
          | Some (Inr v, s1) \<Rightarrow> Some (Some (Msg ''not a heartbeat''), s1)))"

text \<open>
  The loop over a script of rounds: whether the context is done at the top, what the ping of the round meets, and whether
  the context ends while the loop sleeps. The result says whether the loop has ended.
\<close>

datatype 'p beat_round = Round (doneAtTop: bool) (met: 'p) (doneAsleep: bool)

fun hb_loop ::
  "('p \<Rightarrow> ('g, 'a, 'm) heart_peer_scheme \<Rightarrow> (error option \<times> ('g, 'a, 'm) heart_peer_scheme) option) \<Rightarrow> 'p beat_round list
     \<Rightarrow> ('g, 'a, 'm) heart_peer_scheme \<Rightarrow> (bool \<times> ('g, 'a, 'm) heart_peer_scheme) option" where
  "hb_loop pingf [] s = Some (False, s)"
| "hb_loop pingf (Round ended p asleep # rs) s =
     (if ended then Some (True, on_heart hb_stop s)
      else (case pingf p (on_heart (setStatus HeartbeatStatusStarting) s) of
              None \<Rightarrow> None
            | Some (err, s1) \<Rightarrow>
                (let s2 = (if err \<noteq> None then on_heart (setStatus HeartbeatStatusError) s1 else s1)
                 in if asleep then Some (True, on_heart hb_stop s2) else hb_loop pingf rs s2)))"

section \<open>Configuration and copies\<close>

lemma HeartbeatConfig_Validate_iff:
  "HeartbeatConfig_Validate (Some c) = None \<longleftrightarrow> 0 < sint (Interval c) \<and> sint (Interval c) < sint (Timeout c)"
  by (auto simp: HeartbeatConfig_Validate_def)

lemma default_heartbeat_valid: "HeartbeatConfig_Validate (Some DefaultHeartbeatConfig) = None"
  by (simp add: HeartbeatConfig_Validate_iff DefaultHeartbeatConfig_def DefaultHeartbeatInterval_def DefaultHeartbeatTimeout_def
      sint_uint signed_take_bit_int_eq_self)

lemma copy_entries_append:
  "distinct (map fst (copied @ kvs)) \<Longrightarrow> copy_entries kvs copied = copied @ kvs"
proof (induction kvs copied rule: copy_entries.induct)
  case (1 copied)
  then show ?case by simp
next
  case (2 k v kvs copied)
  then have "filter (\<lambda>p. fst p \<noteq> k) copied = copied" by (intro filter_True) auto
  with 2 show ?case by simp
qed

lemma same_Health: "Health s = x \<Longrightarrow> s\<lparr>Health := x\<rparr> = s"
  by (cases s) simp

lemma State_is_copy:
  assumes "\<And>kvs. Health (hbState h) = Some kvs \<Longrightarrow> distinct (map fst kvs)"
  shows "Heartbeat_State h = hbState h"
proof (cases "Health (hbState h)")
  case None
  then show ?thesis by (simp add: Heartbeat_State_def)
next
  case (Some kvs)
  with copy_entries_append [of "[]" kvs] assms show ?thesis by (simp add: Heartbeat_State_def same_Health)
qed

section \<open>At most one loop\<close>

text \<open>
  Every goroutine that was started by \<^verbatim>\<open>Start\<close> is at one of five places of its loop. The steps are the critical
  sections of the heartbeat, taken by the loops, by the receive loop that handles requests, and by the callers of
  \<^verbatim>\<open>Start\<close> and \<^verbatim>\<open>OnHealth\<close>, in any order; how a request of a ping ends is open.
\<close>

datatype loop_pc = Top | Beating | InFlight | Failing | Sleeping

type_synonym ('g, 'a) beat_world = "('g, 'a) heart \<times> (nat \<Rightarrow> loop_pc option)"

inductive hstep :: "('g \<Rightarrow> 'a health_map) \<Rightarrow> ('g, 'a) beat_world \<Rightarrow> ('g, 'a) beat_world \<Rightarrow> bool"
  for provide :: "'g \<Rightarrow> 'a health_map" where
  start: "Heartbeat_Start (Some h) = (True, Some h') \<Longrightarrow> L l = None \<Longrightarrow> hstep provide (h, L) (h', L(l \<mapsto> Top))"
| start_again: "Heartbeat_Start (Some h) = (False, Some h') \<Longrightarrow> hstep provide (h, L) (h', L)"
| provider: "hstep provide (h, L) (OnHealth p h, L)"
| request_in: "handleRequest provide now req h = (r, h') \<Longrightarrow> hstep provide (h, L) (h', L)"
| ended: "L l = Some Top \<Longrightarrow> hstep provide (h, L) (hb_stop h, L(l := None))"
| beat: "L l = Some Top \<Longrightarrow> hstep provide (h, L) (setStatus HeartbeatStatusStarting h, L(l \<mapsto> Beating))"
| sent: "L l = Some Beating \<Longrightarrow> hstep provide (h, L) (ping_sent (ping_payload provide now h) h, L(l \<mapsto> InFlight))"
| answered: "L l = Some InFlight \<Longrightarrow> hstep provide (h, L) (heard now resp h, L(l \<mapsto> Sleeping))"
| late: "L l = Some InFlight \<Longrightarrow> hstep provide (h, L) (setStatus HeartbeatStatusWarning h, L(l \<mapsto> Sleeping))"
| broken: "L l = Some InFlight \<Longrightarrow> hstep provide (h, L) (setStatus HeartbeatStatusWarning h, L(l \<mapsto> Failing))"
| cut: "L l = Some InFlight \<Longrightarrow> hstep provide (h, L) (h, L(l \<mapsto> Failing))"
| failed: "L l = Some Failing \<Longrightarrow> hstep provide (h, L) (setStatus HeartbeatStatusError h, L(l \<mapsto> Sleeping))"
| again: "L l = Some Sleeping \<Longrightarrow> hstep provide (h, L) (h, L(l \<mapsto> Top))"
| ended_asleep: "L l = Some Sleeping \<Longrightarrow> hstep provide (h, L) (hb_stop h, L(l := None))"

text \<open>The loops are at most one, and there is one exactly when the heartbeat counts as started.\<close>

definition one_loop :: "('g, 'a) beat_world \<Rightarrow> bool" where
  "one_loop w \<longleftrightarrow>
     (started (fst w) \<longleftrightarrow> (\<exists>l. snd w l \<noteq> None)) \<and> (\<forall>l l'. snd w l \<noteq> None \<longrightarrow> snd w l' \<noteq> None \<longrightarrow> l = l')"

lemma started_simps [simp]:
  "started (setStatus st h) = started h" "started (heard now p h) = started h" "started (ping_sent pl h) = started h"
  "started (OnHealth pr h) = started h" "started (hb_stop h) = False"
  "hbConfig (setStatus st h) = hbConfig h" "hbConfig (heard now p h) = hbConfig h" "hbConfig (ping_sent pl h) = hbConfig h"
  "hbConfig (OnHealth pr h) = hbConfig h" "hbConfig (hb_stop h) = hbConfig h"
  by (simp_all add: setStatus_def heard_def ping_sent_def OnHealth_def hb_stop_def)

lemma handleRequest_heart: "handleRequest provide now req h = (r, h') \<Longrightarrow> h' = heard now req h"
  by (simp add: handleRequest_def)

lemma one_loop_move: "one_loop (h, L) \<Longrightarrow> L l \<noteq> None \<Longrightarrow> started h' = started h \<Longrightarrow> one_loop (h', L(l \<mapsto> pc))"
  unfolding one_loop_def fst_conv snd_conv by (metis fun_upd_apply option.distinct(1))

lemma one_loop_same: "one_loop (h, L) \<Longrightarrow> started h' = started h \<Longrightarrow> one_loop (h', L)"
  by (simp add: one_loop_def)

lemma one_loop_end: "one_loop (h, L) \<Longrightarrow> L l \<noteq> None \<Longrightarrow> one_loop (hb_stop h, L(l := None))"
  unfolding one_loop_def fst_conv snd_conv started_simps by (metis fun_upd_apply)

lemma hstep_one_loop: "hstep provide w w' \<Longrightarrow> one_loop w \<Longrightarrow> one_loop w' \<and> hbConfig (fst w') = hbConfig (fst w)"
proof (induction rule: hstep.induct)
  case (start h h' L l)
  then have "\<not> started h" "h' = h\<lparr>started := True\<rparr>" by (auto simp: Heartbeat_Start_def split: if_splits)
  with start show ?case by (simp add: one_loop_def)
next
  case (start_again h h' L)
  then have "h' = h" by (simp add: Heartbeat_Start_def split: if_splits)
  with start_again show ?case by simp
next
  case (provider h L p)
  then show ?case by (simp add: one_loop_same)
next
  case (request_in now req h r h' L)
  then show ?case using handleRequest_heart [of provide now req h r h'] by (simp add: one_loop_same)
next
  case (ended L l h)
  then show ?case by (simp add: one_loop_end)
next
  case (ended_asleep L l h)
  then show ?case by (simp add: one_loop_end)
qed (simp_all add: one_loop_move)

text \<open>
  C40: however the calls and the goroutines of a heartbeat interleave, at most one loop runs; one runs exactly when the
  heartbeat counts as started, so that \<^verbatim>\<open>Start\<close> can neither start a second one nor fail to restart a stopped one.
\<close>

theorem one_heartbeat_loop:
  assumes "(hstep provide)\<^sup>*\<^sup>* (new_heart cfg, \<lambda>l. None) (h, L)"
  shows "(started h \<longleftrightarrow> dom L \<noteq> {}) \<and> finite (dom L) \<and> card (dom L) \<le> 1
    \<and> fst (Heartbeat_Start (Some h)) = (dom L = {}) \<and> hbConfig h = cfg"
proof -
  have "one_loop w' \<and> hbConfig (fst w') = hbConfig (fst w)" if "(hstep provide)\<^sup>*\<^sup>* w w'" "one_loop w" for w w'
    using that by (induction rule: rtranclp_induct) (use hstep_one_loop in \<open>fastforce+\<close>)
  moreover have "one_loop (new_heart cfg, \<lambda>l. None)" by (simp add: one_loop_def new_heart_def)
  ultimately have o: "one_loop (h, L)" "hbConfig h = cfg" using assms by (fastforce simp: new_heart_def)+
  have s: "started h \<longleftrightarrow> dom L \<noteq> {}" using o(1) by (auto simp: one_loop_def domIff)
  have "dom L = {} \<or> (\<exists>l. dom L = {l})" using o(1) by (fastforce simp: one_loop_def domIff)
  then have "finite (dom L) \<and> card (dom L) \<le> 1" by (elim disjE exE) simp_all
  with o(2) s show ?thesis by (auto simp: Heartbeat_Start_def)
qed

lemma beating: "(hstep provide)\<^sup>*\<^sup>* (new_heart cfg, \<lambda>l. None)
    (setStatus HeartbeatStatusStarting ((new_heart cfg)\<lparr>started := True\<rparr>), (\<lambda>l. None)(7 \<mapsto> Top, 7 \<mapsto> Beating))"
proof -
  let ?h = "(new_heart cfg)\<lparr>started := True\<rparr>"
  have "hstep provide (new_heart cfg, \<lambda>l. None) (?h, (\<lambda>l. None)(7 \<mapsto> Top))"
    by (rule hstep.start) (simp_all add: Heartbeat_Start_def new_heart_def)
  moreover have "hstep provide (?h, (\<lambda>l. None)(7 \<mapsto> Top))
      (setStatus HeartbeatStatusStarting ?h, ((\<lambda>l. None)(7 \<mapsto> Top))(7 \<mapsto> Beating))"
    by (rule hstep.beat) simp
  ultimately show ?thesis by simp
qed

theorem one_heartbeat_loop_witness:
  "\<exists>h :: (nat, nat) heart.
     (hstep (\<lambda>g. None))\<^sup>*\<^sup>* (new_heart DefaultHeartbeatConfig, \<lambda>l. None) (h, (\<lambda>l. None)(7 \<mapsto> Top, 7 \<mapsto> Beating))
     \<and> started h \<and> \<not> fst (Heartbeat_Start (Some h))"
proof -
  let ?h = "setStatus HeartbeatStatusStarting ((new_heart DefaultHeartbeatConfig :: (nat, nat) heart)\<lparr>started := True\<rparr>)"
  have b: "(hstep (\<lambda>g. None))\<^sup>*\<^sup>* (new_heart DefaultHeartbeatConfig, \<lambda>l. None) (?h, (\<lambda>l. None)(7 \<mapsto> Top, 7 \<mapsto> Beating))"
    by (rule beating)
  have "started ?h \<and> \<not> fst (Heartbeat_Start (Some ?h))" using one_heartbeat_loop [OF b] by simp
  with b show ?thesis by blast
qed

section \<open>A round\<close>

lemma codec_Decode_plain: "\<not> Stream c \<Longrightarrow> codec_Decode libs shape c mo con = Some (Inr v, mo', con') \<Longrightarrow> \<exists>x. v = Plain x"
  by (auto simp: codec_Decode_def split: option.splits if_splits sum.splits)

lemma R_Request_plain:
  assumes "R_Request libs shape dyn rd sk rand ctx (Some r) payload evs arrived s = Some (Inr v, s')"
    and "responseCodec r = Some c" and "\<not> Stream c"
  shows "\<exists>x. v = Plain x"
  using assms
  by (auto simp: R_Request_def Let_def split: if_splits option.splits sum.splits prod.splits dest: codec_Decode_plain)

text \<open>
  What a round of the loop makes of its ping while the context lasts. An answer stores the status and the time; a
  request that timed out leaves a warning; any other failure leaves an error, which overwrites the warning that the ping
  has set for it. The loop goes on in every case.
\<close>

theorem round_status:
  assumes "\<And>n. ctx n = None"
    and "R_Request libs shape dyn rd sk rand (with_timeout expired ctx) (Some (transport hb))
           (ping_payload provide now1 (setStatus HeartbeatStatusStarting (heart s))) evs arrived
           (on_heart (ping_sent (ping_payload provide now1 (setStatus HeartbeatStatusStarting (heart s))))
              (on_heart (setStatus HeartbeatStatusStarting) s)) = Some (res, s1)"
    and "\<not> Stream c" and "responseCodec (transport hb) = Some c"
  shows "\<exists>s'. hb_loop (\<lambda>u. ping libs shape dyn rd sk rand provide now1 now2 expired ctx hb evs arrived) [Round False () False] s
      = Some (False, s')
    \<and> (case res of
         Inr (Plain resp) \<Rightarrow> Status (hbState (heart s')) = pStatus resp \<and> Received (hbState (heart s')) = now2
           \<and> Health (hbState (heart s')) = pHealth resp
       | Inr v \<Rightarrow> False
       | Inl err \<Rightarrow> Status (hbState (heart s')) =
           (if errors_Is err (LibE ErrDeadlineExceeded) then HeartbeatStatusWarning else HeartbeatStatusError))"
proof (cases res)
  case (Inl err)
  have p: "poll ctx s1 = (None, s1\<lparr>polls := Suc (polls s1)\<rparr>)" using assms(1) by (simp add: poll_def)
  have h: "heart (on_heart (setStatus HeartbeatStatusStarting) s) = setStatus HeartbeatStatusStarting (heart s)"
    by (simp add: on_heart_def)
  show ?thesis using assms(2)
    by (simp add: Inl ping_def Let_def h p) (simp add: on_heart_def setStatus_def)
next
  case (Inr v)
  obtain resp where v: "v = Plain resp" using R_Request_plain [OF assms(2) [unfolded Inr] assms(4,3)] by blast
  have h: "heart (on_heart (setStatus HeartbeatStatusStarting) s) = setStatus HeartbeatStatusStarting (heart s)"
    by (simp add: on_heart_def)
  show ?thesis using assms(2)
    by (simp add: Inr v ping_def Let_def h) (simp add: on_heart_def heard_def)
qed

section \<open>An answer on the wire\<close>

definition beat_codec :: "u32 \<Rightarrow> codec" where
  "beat_codec t = \<lparr>codec = CodecMsgpack, typeID = t, Stream = False, elemT = beat_type\<rparr>"

lemma beat_codecs:
  "NewCodecOfType beat_type TypeHeartbeat CodecMsgpack = Inr (beat_codec TypeHeartbeat)"
  "NewCodecOfType beat_type (TypeHeartbeat + 100) CodecMsgpack = Inr (beat_codec (TypeHeartbeat + 100))"
  by (simp_all add: NewCodecOfType_def TypeHeartbeat_def isValidCodecType_def codec_types beat_codec_def)

text \<open>What making a heartbeat does to its messenger; a second one on the same messenger is refused.\<close>

lemma NewHeartbeat_registers:
  assumes "NewHeartbeat a cfg (Some s0) = (Inr hb, so)"
  shows "0 < sint (Interval cfg) \<and> sint (Interval cfg) < sint (Timeout cfg) \<and> receivers s0 TypeHeartbeat = None
    \<and> so = Some (s0\<lparr>receivers := (receivers s0)(TypeHeartbeat \<mapsto> HandleR a (beat_codec TypeHeartbeat) (beat_codec (TypeHeartbeat + 100))),
         handlerR := (handlerR s0)(a := None, a \<mapsto> HandleBeat), heart := new_heart cfg\<rparr>)
    \<and> transport hb = \<lparr>addrR = a, hasMessenger = True, requestCodec = Some (beat_codec TypeHeartbeat),
         responseCodec = Some (beat_codec (TypeHeartbeat + 100))\<rparr>"
proof -
  have v: "HeartbeatConfig_Validate (Some cfg) = None" using assms by (auto simp: NewHeartbeat_def split: option.splits)
  have t: "typeID (beat_codec TypeHeartbeat) = TypeHeartbeat" "TypeHeartbeat \<noteq> 0" by (simp_all add: beat_codec_def TypeHeartbeat_def)
  have n: "receivers s0 TypeHeartbeat = None"
    using assms by (auto simp: NewHeartbeat_def v beat_codecs NewR_def OnReceive_def t Let_def split: if_splits)
  show ?thesis using assms n v
    by (auto simp: NewHeartbeat_def beat_codecs NewR_def OnReceive_def t Let_def R_OnRequest_def on_heart_def HeartbeatConfig_Validate_iff)
qed

lemma ReadAll_ID: "message_ReadAll (Some m) con = Some (r, Some m', con') \<Longrightarrow> ID m' = ID m"
  by (auto simp: message_ReadAll_def split: option.splits prod.splits)

text \<open>A messenger with a heartbeat, and what it needs to answer without acknowledgements.\<close>

definition has_heartbeat :: "nat \<Rightarrow> ('g, 'a, 'm) heart_peer_scheme \<Rightarrow> bool" where
  "has_heartbeat a s \<longleftrightarrow>
     receivers s TypeHeartbeat = Some (HandleR a (beat_codec TypeHeartbeat) (beat_codec (TypeHeartbeat + 100)))
     \<and> handlerR s a = Some HandleBeat"

definition plainly_connected :: "('h, 'm) endpoint_scheme \<Rightarrow> bool" where
  "plainly_connected s \<longleftrightarrow> connected s \<and> \<not> RequireAcknowledge (config s) \<and> 0 \<le> MaxRetries (config s)"

lemma NewHeartbeat_has: "NewHeartbeat a cfg (Some s0) = (Inr hb, Some s) \<Longrightarrow> has_heartbeat a s"
  by (drule NewHeartbeat_registers) (simp add: has_heartbeat_def)

lemma NewHeartbeat_keeps:
  assumes "NewHeartbeat a cfg (Some s0) = (Inr hb, Some s)"
  shows "plainly_connected s = plainly_connected s0" "fits s n = fits s0 n" "quiet ctx s = quiet ctx s0" "input s = input s0"
    "respTable s = respTable s0" "wire s = wire s0" "config s = config s0" "connected s = connected s0" "heart s = new_heart cfg"
  using NewHeartbeat_registers [OF assms] by (auto simp: plainly_connected_def fits_def quiet_def)

text \<open>Sending leaves the heartbeat alone.\<close>

lemma heart_of_more: "messenger.more s' = messenger.more s \<Longrightarrow> heart s' = heart (s :: ('g, 'a, 'm) heart_peer_scheme)"
  by (cases s, cases s') simp

lemma R_handle_answers:
  assumes "handlerR s addr = Some f" and "codec_Decode libs shape qc (Some msg) (input s) = Some (Inr req, Some msg1, con)"
    and "callR f ctx req msg1 (s\<lparr>input := con\<rparr>) = Some (Inr resp, msg2, s2)" and "ID msg2 = ID msg"
    and "\<not> Stream rc" and "codec_Encode libs rc resp = Inr p" and "length p < 2 ^ 32"
    and "plainly_connected s2" and "ID msg \<noteq> 0" and "fits s2 (of_nat (length p))" and "quiet ctx s2"
  shows "\<exists>s'. R_handle libs shape dyn rd sk callR addr qc rc ctx msg s = Some (None, msg2, s')
    \<and> wire s' = wire s2 @ frame (ID msg) (typeID rc) p \<and> heart s' = heart (s2 :: ('g, 'a, 'm) heart_peer_scheme)"
proof -
  have "connected s2" "\<not> shouldAwaitAcknowledge s2 (typeID rc)" "0 \<le> MaxRetries (config s2)"
    using assms(8) by (simp_all add: plainly_connected_def shouldAwaitAcknowledge_def)
  from Send_quiet [OF this(1) assms(9,10,11) this(2,3), of "input s2"] assms(7)
  obtain mo c' s3 where send: "Send ctx (Some (NewMessage (ID msg) (typeID rc) p)) (input s2) s2 = Some (None, mo, c', s3)"
    "wire s3 = wire s2 @ frame (ID msg) (typeID rc) p" by (auto simp: frame_def)
  have "messenger.more s3 = messenger.more s2" using Send_rest [OF send(1)] by simp
  then have "heart s3 = heart s2" by (rule heart_of_more)
  with send assms(1-6) show ?thesis by (auto simp: R_handle_def ToMessageWithID_def)
qed

text \<open>
  A heartbeat that arrives, in any segmentation, is answered: the messenger writes exactly one frame, with the ID of the
  request and the response type, in which the status is OK, the time is the one of the request and the health is that of
  its own provider; it stores what it heard.
\<close>

lemma heartbeat_answer:
  fixes s :: "('g, 'a, 'm) heart_peer_scheme"
  assumes "has_heartbeat a s" and "plainly_connected s"
    and "unmarshal (msgpack libs) beat_type p = Inr req" and "length p < 2 ^ 32"
    and "marshal (msgpack libs) \<lparr>SentAt = SentAt req, pStatus = HeartbeatStatusOK, pHealth = snapshotHealth provide (heart s)\<rparr> = Inr q"
    and "length q < 2 ^ 32" and "fits s (of_nat (length q))"
    and "conn_avail (input s) = p @ rest" and "mid \<noteq> 0" and "quiet ctx s" and "pendingResponses (respTable s) mid = None"
  shows "\<exists>msg2 s'. handleMessage (protocol_run libs shape dyn rd sk callM (beat_callR provide now)) reads ctx
      (Some (conn_message mid TypeHeartbeat (of_nat (length p)))) s = Some (None, Some msg2, s')
    \<and> wire s' = wire s @ frame mid (TypeHeartbeat + 100) q \<and> heart s' = heard now req (heart s)"
proof -
  let ?m = "conn_message mid TypeHeartbeat (of_nat (length p))" and ?qc = "beat_codec TypeHeartbeat" and ?rc = "beat_codec (TypeHeartbeat + 100)"
  have c: "\<not> Stream ?qc" "\<not> Stream ?rc" "typeID ?qc = TypeHeartbeat" "typeID ?rc = TypeHeartbeat + 100" "MsgType ?m = typeID ?qc"
    by (simp_all add: beat_codec_def conn_message_def)
  obtain msg1 con where ra: "message_ReadAll (Some ?m) (input s) = Some (Inr p, Some msg1, con)"
    using ReadAll_conn_message [OF assms(8,4)] by blast
  have d: "codec_Decode libs shape ?qc (Some ?m) (input s) = Some (Inr (Plain req), Some msg1, con)"
    using codec_Decode_ReadAll [OF c(1,5) ra, of libs shape] assms(3) by (simp add: beat_codec_def decodeWith_def)
  have id: "ID msg1 = ID ?m" "ID ?m = mid" using ReadAll_ID [OF ra] by (simp_all add: conn_message_def)
  let ?resp = "\<lparr>SentAt = SentAt req, pStatus = HeartbeatStatusOK, pHealth = snapshotHealth provide (heart s)\<rparr>"
  let ?s2 = "s\<lparr>input := con, heart := heard now req (heart s)\<rparr>"
  have call: "beat_callR provide now HandleBeat ctx (Plain req) msg1 (s\<lparr>input := con\<rparr>) = Some (Inr ?resp, msg1, ?s2)"
    by (simp add: beat_callR_def handleRequest_def)
  have q: "codec_Encode libs ?rc ?resp = Inr q" using assms(5) by (simp add: codec_Encode_def beat_codec_def encodeWith_def)
  have h: "handlerR s a = Some HandleBeat" using assms(1) by (simp add: has_heartbeat_def)
  have "\<exists>s'. R_handle libs shape dyn rd sk (beat_callR provide now) a ?qc ?rc ctx ?m s = Some (None, msg1, s')
    \<and> wire s' = wire ?s2 @ frame (ID ?m) (typeID ?rc) q \<and> heart s' = heart ?s2"
    by (rule R_handle_answers [where callR = "beat_callR provide now" and s = s and con = con and ?s2.0 = ?s2,
          OF h d call id(1) c(2) q assms(6)])
      (use assms(2,7,9,10) id in \<open>simp_all add: fits_def quiet_def plainly_connected_def\<close>)
  then obtain s' where r: "R_handle libs shape dyn rd sk (beat_callR provide now) a ?qc ?rc ctx ?m s = Some (None, msg1, s')"
    "wire s' = wire s @ frame mid (TypeHeartbeat + 100) q" "heart s' = heard now req (heart s)" using id c(4) by auto
  have "resolveResponse reads ?m s = Some ((False, None), ?m, s)"
    using assms(11) id by (simp add: resolveResponse_none)
  moreover have "TypeHeartbeat \<noteq> acknowledgeTypeID" by (simp add: TypeHeartbeat_def acknowledgeTypeID_def)
  moreover have "receivers s TypeHeartbeat = Some (HandleR a ?qc ?rc)" using assms(1) by (simp add: has_heartbeat_def)
  ultimately have "handleMessage (protocol_run libs shape dyn rd sk callM (beat_callR provide now)) reads ctx (Some ?m) s =
      (case sendAcknowledge msg1 s' of (e, s3) \<Rightarrow> Some (e, Some msg1, s3))"
    using r(1) c(3,5) by (simp add: handleMessage_def)
  then show ?thesis using r(2,3) by (auto simp: sendAcknowledge_def)
qed

text \<open>A request on a connection without faults is written as one frame, and then waits with its entry in the table.\<close>

lemma Request_sent:
  fixes s :: "('g, 'a, 'm) heart_peer_scheme"
  assumes "plainly_connected s" and "mid \<noteq> 0" and "length p < 2 ^ 32" and "fits s (of_nat (length p))" and "quiet ctx s"
    and "pendingResponses (respTable s) mid = None" and "t \<noteq> 0"
  shows "\<exists>e1. wire e1 = wire s @ frame mid mt p \<and> heart e1 = heart s
    \<and> respTable e1 = \<lparr>pendingResponses = (pendingResponses (respTable s))(mid \<mapsto> (t, nextRespChan (respTable s))),
         nextRespChan = Suc (nextRespChan (respTable s))\<rparr>
    \<and> (\<forall>evs. Request ctx (Some (NewMessage mid mt p)) t evs (Some s) =
         map_option (\<lambda>(res, r1). (res, Some (e1\<lparr>respTable := unregisterPendingResponse mid (nextRespChan (respTable s)) r1\<rparr>)))
           (wait_response (nextRespChan (respTable s)) evs ([], False) (respTable e1)))"
proof -
  let ?m = "NewMessage mid mt p" and ?ch = "nextRespChan (respTable s)"
  let ?rt = "\<lparr>pendingResponses = (pendingResponses (respTable s))(mid \<mapsto> (t, ?ch)), nextRespChan = Suc ?ch\<rparr>"
  let ?s = "s\<lparr>respTable := ?rt\<rparr>"
  have g: "registerPendingResponse mid t (respTable s) = (Inr ?ch, ?rt)"
    using assms(6) by (cases "respTable s") (simp add: registerPendingResponse_def)
  have "\<exists>mo c' m'. Send ctx (Some ?m) (input s) ?s = Some (None, mo, c', m') \<and> wire m' = wire ?s @ frame mid mt p"
    using Send_quiet [of ?s mid p ctx mt "input s"] assms(1-5)
    by (simp add: fits_def quiet_def shouldAwaitAcknowledge_def plainly_connected_def frame_def)
  then obtain mo c' m' where n: "Send ctx (Some ?m) (input s) ?s = Some (None, mo, c', m')" "wire m' = wire s @ frame mid mt p"
    by auto
  have r: "respTable m' = ?rt" "messenger.more m' = messenger.more ?s" using Send_rest [OF n(1)] by simp_all
  have h: "heart m' = heart s" using heart_of_more [OF r(2)] by simp
  show ?thesis
    by (rule exI [of _ "m'\<lparr>input := c'\<rparr>"]) (use n r h g assms(1,7) in \<open>simp add: Request_def request_def plainly_connected_def option.map_comp comp_def split_def\<close>)
qed

definition beat_robj :: "nat \<Rightarrow> robj" where
  "beat_robj a = \<lparr>addrR = a, hasMessenger = True, requestCodec = Some (beat_codec TypeHeartbeat),
     responseCodec = Some (beat_codec (TypeHeartbeat + 100))\<rparr>"

text \<open>The request of a heartbeat, up to its wait; an answer ends the wait with its message, a context with its error.\<close>

lemma heartbeat_request:
  fixes s :: "('g, 'a, 'm) heart_peer_scheme"
  assumes "generateID rand 0 = Some (Inr mid, k)" and "mid \<noteq> 0" and "codec_Encode libs (beat_codec TypeHeartbeat) payload = Inr p"
    and "length p < 2 ^ 32" and "plainly_connected s" and "fits s (of_nat (length p))" and "quiet ctx s"
    and "pendingResponses (respTable s) mid = None"
  shows "\<exists>s1. R_Request libs shape dyn rd sk rand ctx (Some (beat_robj a)) payload [RespCtxDone e] arrived s = Some (Inl e, s1)"
    and "unmarshal (msgpack libs) beat_type q = Inr resp \<Longrightarrow> length q < 2 ^ 32 \<Longrightarrow>
      \<exists>s1. R_Request libs shape dyn rd sk rand ctx (Some (beat_robj a)) payload
          [Incoming \<lparr>ID = mid, MsgType = TypeHeartbeat + 100, Length = of_nat (length q)\<rparr>, RespReady] q s = Some (Inr (Plain resp), s1)
        \<and> wire s1 = wire s @ frame mid TypeHeartbeat p \<and> heart s1 = heart s"
proof -
  let ?m = "NewMessage mid TypeHeartbeat p" and ?T = "TypeHeartbeat + 100"
  have t: "ToMessage libs (beat_codec TypeHeartbeat) rand payload = Some (Inr ?m)"
    using assms(1,3,4) by (simp add: ToMessage_def ToMessageWithID_def beat_codec_def)
  have "(?T :: u32) \<noteq> 0" by (simp add: TypeHeartbeat_def)
  from Request_sent [OF assms(5,2,4,6,7,8) this] obtain e1 where e1: "wire e1 = wire s @ frame mid TypeHeartbeat p" "heart e1 = heart s"
    "respTable e1 = \<lparr>pendingResponses = (pendingResponses (respTable s))(mid \<mapsto> (?T, nextRespChan (respTable s))),
         nextRespChan = Suc (nextRespChan (respTable s))\<rparr>"
    and req: "\<And>evs. Request ctx (Some ?m) ?T evs (Some s) =
      map_option (\<lambda>(res, r1). (res, Some (e1\<lparr>respTable := unregisterPendingResponse mid (nextRespChan (respTable s)) r1\<rparr>)))
        (wait_response (nextRespChan (respTable s)) evs ([], False) (respTable e1))" by blast
  have c: "\<not> Stream (beat_codec TypeHeartbeat)" "\<not> Stream (beat_codec ?T)" "typeID (beat_codec ?T) = ?T"
    by (simp_all add: beat_codec_def)
  show "\<exists>s1. R_Request libs shape dyn rd sk rand ctx (Some (beat_robj a)) payload [RespCtxDone e] arrived s = Some (Inl e, s1)"
    using t c by (simp add: R_Request_def beat_robj_def req)
  assume q: "unmarshal (msgpack libs) beat_type q = Inr resp" "length q < 2 ^ 32"
  let ?h = "\<lparr>ID = mid, MsgType = ?T, Length = of_nat (length q)\<rparr>"
  let ?msg = "\<lparr>ID = mid, MsgType = ?T, Length = of_nat (length q), payloadReader = Some (OnBytes q, length q), payloadCache = None\<rparr>"
  have len: "unat (of_nat (length q) :: u32) = length q" using q(2) by (rule unat_of_nat_u32)
  obtain so where w: "Request ctx (Some ?m) ?T [Incoming ?h, RespReady] (Some s) = Some (Inr ?h, Some so)"
    and so: "wire so = wire e1" "heart so = heart e1"
    by (simp add: req e1(3) takeResponse_def)
  have l: "payload_fin ((OnBytes q, input so), length q) = LibE EOF" "payload_avail ((OnBytes q, input so), length q) = q"
    by (simp_all add: payload_fin_def payload_avail_def limited_fin_def limited_avail_def)
  obtain mo con where ra: "message_ReadAll (Some ?msg) (input so) = Some (Inr q, mo, con)"
    using ReadAll_reader [of ?msg "OnBytes q" "length q" "input so", unfolded l] by auto
  have d: "codec_Decode libs shape (beat_codec ?T) (Some ?msg) (input so) = Some (Inr (Plain resp), mo, con)"
    using codec_Decode_ReadAll [OF c(2) _ ra, of libs shape] c(3) q(1) by (simp add: beat_codec_def decodeWith_def)
  show "\<exists>s1. R_Request libs shape dyn rd sk rand ctx (Some (beat_robj a)) payload [Incoming ?h, RespReady] q s
      = Some (Inr (Plain resp), s1) \<and> wire s1 = wire s @ frame mid TypeHeartbeat p \<and> heart s1 = heart s"
    using t c w d so e1 len by (simp add: R_Request_def beat_robj_def Let_def)
qed

text \<open>Two values of the library that decode to what was encoded, and a peer that can send so many bytes.\<close>

definition codes :: "'a HeartbeatPayload libraries \<Rightarrow> 'a HeartbeatPayload \<Rightarrow> byte list \<Rightarrow> bool" where
  "codes libs v bs \<longleftrightarrow> marshal (msgpack libs) v = Inr bs \<and> unmarshal (msgpack libs) beat_type bs = Inr v \<and> length bs < 2 ^ 32"

definition can_send :: "('h, 'm) endpoint_scheme \<Rightarrow> byte list \<Rightarrow> bool" where
  "can_send s bs \<longleftrightarrow> plainly_connected s \<and> writes s = [] \<and> fits s (of_nat (length bs))"

definition beat_library :: "nat HeartbeatPayload library" where
  "beat_library =
     \<lparr>marshal = (\<lambda>v. Inr [pStatus v, if pHealth v = None then 0 else 1]),
      unmarshal = (\<lambda>T bs. if length bs = 2 then Inr \<lparr>SentAt = 5, pStatus = hd bs, pHealth = None\<rparr> else Inl (Msg ''short''))\<rparr>"

definition beat_libraries :: "nat HeartbeatPayload libraries" where
  "beat_libraries = \<lparr>msgpack = beat_library, gob = beat_library, json = beat_library, yaml = beat_library\<rparr>"

definition beat_peer :: "(nat, nat) heart_peer" where
  "beat_peer =
     \<lparr>config = config plain_messenger, connected = True, ackTable = no_acks, respTable = no_responses, wire = [], writes = [],
      polls = 0, events = [], receivers = (\<lambda>t. None), unknownMessageReceiver = None, input = ([[1], [0, 9]], LibE EOF),
      delivered = [], spawned = [], receiverM = (\<lambda>a. None), handlerR = (\<lambda>a. None), heart = new_heart DefaultHeartbeatConfig\<rparr>"

definition answering_peer :: "(nat, nat) heart_peer" where
  "answering_peer =
     beat_peer\<lparr>receivers := [TypeHeartbeat \<mapsto> HandleR 1 (beat_codec TypeHeartbeat) (beat_codec (TypeHeartbeat + 100))],
       handlerR := [1 \<mapsto> HandleBeat], input := ([take 5 (frame 7 TypeHeartbeat [1, 0]), drop 5 (frame 7 TypeHeartbeat [1, 0])], LibE EOF)\<rparr>"

lemma beat_peer_new: "\<exists>s. NewHeartbeat 1 DefaultHeartbeatConfig (Some beat_peer) =
    (Inr \<lparr>transport = \<lparr>addrR = 1, hasMessenger = True, requestCodec = Some (beat_codec TypeHeartbeat),
       responseCodec = Some (beat_codec (TypeHeartbeat + 100))\<rparr>\<rparr>, Some s)"
proof -
  have "typeID (beat_codec TypeHeartbeat) = TypeHeartbeat" "TypeHeartbeat \<noteq> 0" by (simp_all add: beat_codec_def TypeHeartbeat_def)
  then show ?thesis
    by (simp add: NewHeartbeat_def default_heartbeat_valid beat_codecs NewR_def OnReceive_def Let_def R_OnRequest_def
        on_heart_def beat_peer_def)
qed

theorem round_status_witness:
  "\<exists>hb s s'. NewHeartbeat 1 DefaultHeartbeatConfig (Some beat_peer) = (Inr hb, Some s)
    \<and> hb_loop (\<lambda>u. ping beat_libraries (\<lambda>_. ToOther) (\<lambda>_. NotASource) bytes_read None (\<lambda>k. Inr [0, 0, 0, 0, 0, 0, 0, 7]) (\<lambda>g. None) 5 6
        (\<lambda>n. False) (\<lambda>_. None) hb [RespCtxDone (LibE ErrDeadlineExceeded)] []) [Round False () False] s = Some (False, s')
    \<and> Status (hbState (heart s')) = HeartbeatStatusWarning"
proof -
  obtain hb s where n: "NewHeartbeat 1 DefaultHeartbeatConfig (Some beat_peer) = (Inr hb, Some s)" using beat_peer_new by blast
  let ?rand = "\<lambda>k :: nat. Inr [0, 0, 0, 0, 0, 0, 0, 7] :: byte list result"
  let ?h = "setStatus HeartbeatStatusStarting (heart s)"
  let ?pl = "ping_payload (\<lambda>g. None) 5 ?h"
  let ?s = "on_heart (ping_sent ?pl) (on_heart (setStatus HeartbeatStatusStarting) s)"
  have s: "?s = s\<lparr>heart := ping_sent ?pl ?h\<rparr>" by (simp add: on_heart_def)
  note reg = NewHeartbeat_registers [OF n]
  have ctx: "with_timeout (\<lambda>n. False) (\<lambda>_. None) = (\<lambda>_. None)" by (simp add: with_timeout_def fun_eq_iff)
  have i: "Uint64 [0, 0, 0, 0, 0, 0, 0, 7] = 7" by code_simp
  have g: "generateID ?rand 0 = Some (Inr 7, 1)" by (simp add: generateID_def newMessageID.simps i)
  have e: "codec_Encode beat_libraries (beat_codec TypeHeartbeat) ?pl = Inr [HeartbeatStatusOK, 0]"
    using reg by (simp add: codec_Encode_def beat_codec_def encodeWith_def beat_libraries_def beat_library_def ping_payload_def
        snapshotHealth_def setStatus_def new_heart_def)
  have p: "plainly_connected ?s" "fits ?s (of_nat (length [HeartbeatStatusOK, 0]))" "quiet (\<lambda>_. None) ?s"
    "pendingResponses (respTable ?s) 7 = None"
    unfolding s using reg by (auto simp: beat_peer_def fits_def quiet_def plain_messenger_def no_responses_def plainly_connected_def)
  have "\<exists>s1. R_Request beat_libraries (\<lambda>_. ToOther) (\<lambda>_. NotASource) bytes_read None ?rand (\<lambda>_. None) (Some (transport hb)) ?pl
      [RespCtxDone (LibE ErrDeadlineExceeded)] [] ?s = Some (Inl (LibE ErrDeadlineExceeded), s1)"
    using heartbeat_request(1) [OF g _ e _ p] reg by (simp add: beat_robj_def)
  then obtain s1 where r: "R_Request beat_libraries (\<lambda>_. ToOther) (\<lambda>_. NotASource) bytes_read None ?rand
      (with_timeout (\<lambda>n. False) (\<lambda>_. None)) (Some (transport hb)) ?pl [RespCtxDone (LibE ErrDeadlineExceeded)] [] ?s =
      Some (Inl (LibE ErrDeadlineExceeded), s1)" unfolding ctx by blast
  have "\<not> Stream (beat_codec (TypeHeartbeat + 100))" "responseCodec (transport hb) = Some (beat_codec (TypeHeartbeat + 100))"
    using reg by (simp_all add: beat_codec_def)
  from round_status [OF _ r this, of 6] n show ?thesis by auto
qed

end
