(* ===== verification/Spec2Isabelle.thy ===== *)
theory Spec2Isabelle
  imports Transfer_Store Drive_Lifecycle Drive_Verdicts VM Heartbeat
begin

text \<open>
  A verification development of poprocks, a Go library for virtual machines: drives that a guest mounts
  (\<^verbatim>\<open>drive/\<close>), the configuration and lifecycle of a machine (\<^verbatim>\<open>vm/\<close>), and messages between host and
  guest over a stream connection (\<^verbatim>\<open>vsock/\<close>). The definitions are translated from the Go source, method by method; the
  lemmas of each theory belong to the part it models, and this theory adds the properties of two peers talking to each other.


  \<^bold>\<open>How Go is modelled.\<close> A call that can fail returns \<^verbatim>\<open>'a result\<close> (\<^verbatim>\<open>Inl\<close> the error) or
  \<^verbatim>\<open>error option\<close> with the new state. A call that may dereference nil or wait for ever returns an
  \<^verbatim>\<open>outcome\<close>: \<^verbatim>\<open>Return\<close>, \<^verbatim>\<open>Panic\<close> or \<^verbatim>\<open>Blocked\<close>. Integers keep their width
  (\<^verbatim>\<open>u32\<close>, \<^verbatim>\<open>64 word\<close> with \<^verbatim>\<open>sint\<close> where Go has \<^verbatim>\<open>int64\<close>); lengths of
  slices are natural numbers. A string is a list of bytes. What the program does not decide is a script in the state: the
  segments in which a connection delivers its bytes and how it ends, the failures of writes and system calls, the replies of
  commands, the events that other goroutines cause while one waits, the random numbers. A theorem for every state is therefore
  one for every behaviour of the environment. A goroutine that another one can overtake is a sequence of steps, one for each
  critical section, and the properties hold of every interleaving.


  \<^bold>\<open>The theories, from the bottom.\<close>

  \<^item> \<open>Prelude\<close>: integer types, the sentinel errors of the three packages (\<^verbatim>\<open>*/errors.go\<close>), \<^verbatim>\<open>errors.Is\<close>,
    results and outcomes, the collections of simplification rules.
  \<^item> \<open>Go_IO\<close> (\<^verbatim>\<open>io\<close>, \<^verbatim>\<open>bytes\<close>, \<^verbatim>\<open>encoding/binary\<close>): readers and the loops over them. The
    locale \<open>reader\<close> states what a reader promises, \<open>copier\<close> what a writer adds to it; the loops are proved once there and
    interpreted for connections, byte slices, limited and concatenated readers.
    \<open>Go_Path\<close> (\<^verbatim>\<open>path/filepath\<close>), \<open>Go_OS\<close> (files as inodes, for transfers), \<open>Go_FS\<close> (a tree with directories
    and symbolic links, for drives), \<open>Go_Host\<close> (commands, user, memory of a machine, UTF-8), \<open>Go_Hash\<close> (SHA-256).
  \<^item> \<open>Message\<close> (\<^verbatim>\<open>vsock/message.go\<close>), \<open>Waiters\<close> (\<^verbatim>\<open>vsock/ack.go\<close>, the table of
    \<^verbatim>\<open>vsock/request.go\<close>; locale \<open>waiter_table\<close>, interpreted for both tables), \<open>Stream\<close>
    (\<^verbatim>\<open>vsock/stream.go\<close> and the sending half of \<^verbatim>\<open>vsock/messenger.go\<close>), \<open>Messenger\<close> (the receiving half and
    requests), \<open>Codec\<close> (\<^verbatim>\<open>vsock/codec.go\<close>, \<^verbatim>\<open>vsock/helpers.go\<close>), \<open>Protocol\<close>
    (\<^verbatim>\<open>vsock/protocol/m.go\<close>, \<^verbatim>\<open>r.go\<close>).
  \<^item> \<open>Transfer_Paths\<close>, \<open>File_Transfer\<close> (\<^verbatim>\<open>vsock/protocol/common/file_transfer.go\<close>), \<open>Transfer_Store\<close> (the abstract
    machine that the receiver refines, its steps labelled with the requests and the answers to them), \<open>Heartbeat\<close> (\<^verbatim>\<open>vsock/protocol/common/heartbeat.go\<close>).
  \<^item> \<open>Drive_Paths\<close> (\<^verbatim>\<open>drive/helpers.go\<close>), \<open>Drive_Options\<close> (\<^verbatim>\<open>options.go\<close>,
    \<^verbatim>\<open>mount_method.go\<close>), \<open>Drive_Key\<close> (\<^verbatim>\<open>key.go\<close>), \<open>Drive_Image\<close> (\<^verbatim>\<open>autodetect.go\<close> and the state of a
    drive), \<open>Base_Drive\<close> (\<^verbatim>\<open>base_drive.go\<close>), \<open>Encrypted_Drive\<close> (\<^verbatim>\<open>encrypted_drive.go\<close>), \<open>Drive_Lifecycle\<close>
    (both drives under concurrent calls; locale \<open>lifecycle\<close>), \<open>Drive_Scenarios\<close> and \<open>Drive_Verdicts\<close>
    (\<^verbatim>\<open>drive/test_runner/main.go\<close>; locale \<open>sequential_drive\<close>, interpreted for both drives).
  \<^item> \<open>VM_Env\<close> (\<^verbatim>\<open>vm/env.go\<close>), \<open>VM_Config\<close> (\<^verbatim>\<open>vm/config.go\<close>, \<^verbatim>\<open>vm/hardware.go\<close>), \<open>VM\<close>
    (\<^verbatim>\<open>vm/vm.go\<close>, \<^verbatim>\<open>vm/status.go\<close>, \<^verbatim>\<open>vm/drive.go\<close>).


  \<^bold>\<open>What is proved.\<close>

  \<^item> The wire. Framing and parsing are inverse and \<^verbatim>\<open>ParseBinary\<close> accepts exactly the frames; however the bytes
    are cut, \<^verbatim>\<open>Serve\<close> dispatches every message once and in order, whatever part of a payload a handler reads. A send
    puts prefixes of one frame on the wire, the last of them whole when it reports success; an acknowledged send was
    acknowledged under its own ID; a request is answered under its own ID; neither leaves a waiter behind, and no
    interleaving makes \<^verbatim>\<open>resolveAck\<close> close a channel twice. A typed message travels from one peer to the receiver
    of the other as the value that was sent.
  \<^item> What the receive loop cannot survive: a requester that stops reading its response blocks it for ever, a buffered response that
    must be acknowledged ends it with the acknowledgement unread behind the request, and a body for an unknown transfer ends it.
  \<^item> Transfers. Sender and receiver paths, the announced length, delivery in any segmentation, a failed commit; after any
    sequence of messages a visible file is unchanged or has the announced size and checksum. The receiver refines, answer for
    answer, a machine of pending transfers and visible files; from this follows that a published file holds exactly the bytes of
    the body that was sent for it, at the destination that was given for its offer.
  \<^item> Drives. A write changes nothing outside the mounted directory and reads back; in every interleaving no file operation is
    under way when a drive is unmounted; a drive made from an image is well formed; encrypted drives with keys in memory or in
    files leave no mapping open when mounting fails, unless the command that closes it fails, and wipe their keys; options
    survive their JSON form but for bytes that are no UTF-8. The errors that leave a drive or a mapping in a bad state are
    theorems too. End to end, the scenarios of the test program never panic or wait for themselves, and the read-write one
    passes on a healthy machine with exactly the commands and the files it should.
  \<^item> Machines. Starting, stopping, adding, removing and hot-adding ask for the status under the lock they hold and never
    return; a new machine therefore stays as it was made. Hardware is accepted exactly under a declarative condition, an
    initialised configuration is valid, and an environment file reads back.
  \<^item> Heartbeats. At most one loop runs, and (below) a ping between two peers is answered as it should be.


  \<^bold>\<open>Bounds.\<close> A path follows at most 40 links (\<open>walk\<close>, the bound of Linux; every theorem holds with the error for more).
  \<^verbatim>\<open>CreateTemp\<close> gives up after 10000 names as Go does. Copies move 32 KiB at a time and \<^verbatim>\<open>ReadAll\<close> 512 bytes;
  the results do not depend on it. Loops over readers are \<^verbatim>\<open>partial_function (option)\<close>; that they end is proved from
  the finite script of the reader (\<open>reader\<close>), so \<open>None\<close> means a reader that never ends. Loops that wait for events
  are recursive on the script of events. At its end a wait for an acknowledgement takes what has arrived or times out
  (\<open>wait_loop\<close>), a wait for a response takes what has arrived or waits for ever (\<open>wait_response\<close>, \<open>None\<close>), and the loop of
  a heartbeat is still running (\<open>hb_loop\<close>).


  \<^bold>\<open>Parameters.\<close> The encoding libraries (\<open>libraries\<close>) and reflection on Go types (\<open>shape\<close>, \<open>dyn\<close>), the handlers that
  users register, the plan of a file transfer, health providers and times, the environment of the process, and the
  Firecracker SDK are arguments. Where a theorem needs something of them it is a hypothesis that says what their
  documentation says, such as that decoding inverts encoding on the value at hand (\<open>codes\<close>, \<open>carries\<close>), and its witness
  gives a function that has it. Of other goroutines it is assumed, where it says so, that they change the table of
  acknowledgements as sends do (\<open>from_senders\<close>), since only the receive loop takes in acknowledgements.


  \<^bold>\<open>Not modelled.\<close> Commands and system calls that never return (a reply says how each ends, \<open>Go_Host\<close>); methods that only return a field; permissions and modes of files; the text form of JSON (its values are); logging; the interfaces
  \<^verbatim>\<open>Drive\<close> and \<^verbatim>\<open>Key\<close>, which have no code; calls on nil receivers, which the code answers before doing anything;
  two goroutines inside one key or one encoder; the map of drives that \<^verbatim>\<open>NewVM\<close> shares with its caller; the
  goroutines of the Firecracker SDK. The tests (\<^verbatim>\<open>*_test.go\<close>) are not part of the program.
\<close>

section \<open>Two peers\<close>

text \<open>
  C12: the whole way of a heartbeat. The peer \<open>A\<close> pings on a connection without faults: the bytes it writes are one frame.
  When this frame arrives at \<open>B\<close>, in any segmentation and with anything behind it, the receive loop of \<open>B\<close> reads its header
  and the handler answers with one frame under the same ID. With the payload of this answer, handed over while it waits,
  the ping ends without an error, and \<open>A\<close> knows when it was heard, that \<open>B\<close> is well, and the health that \<open>B\<close> reports;
  \<open>B\<close> knows the health of \<open>A\<close>.
\<close>

theorem heartbeat_exchange:
  fixes A B :: "('g, 'a) heart_peer"
  assumes "has_heartbeat b B" and "can_send A p" and "can_send B q" and "\<And>n. ctx n = None" and "\<And>n. \<not> expired n"
    and "pendingResponses (respTable A) mid = None" and "pendingResponses (respTable B) mid = None"
    and "generateID rand 0 = Some (Inr mid, k)" and "mid \<noteq> 0"
    and "codes libs (ping_payload provA now1 (heart A)) p"
    and "codes libs \<lparr>SentAt = now1, pStatus = HeartbeatStatusOK, pHealth = snapshotHealth provB (heart B)\<rparr> q"
    and "acceptable (messenger.config B) (mid, TypeHeartbeat, p)" and "conn_avail (input B) = frames ((mid, TypeHeartbeat, p) # fs)"
  shows "(\<exists>A'. ping libs shape dyn rd sk rand provA now1 now2 expired ctx \<lparr>transport = beat_robj a\<rparr>
        [Incoming \<lparr>ID = mid, MsgType = TypeHeartbeat + 100, Length = of_nat (length q)\<rparr>, RespReady] q A = Some (None, A')
      \<and> wire A' = wire A @ frame mid TypeHeartbeat p
      \<and> hbState (heart A') = \<lparr>Sent = now1, Received = now2, Status = HeartbeatStatusOK, Health = snapshotHealth provB (heart B)\<rparr>)
    \<and> (\<exists>c msg B'. readHeader B = Some (Inr \<lparr>ID = mid, MsgType = TypeHeartbeat, Length = of_nat (length p), payloadReader = None,
          payloadCache = None\<rparr>, B\<lparr>input := c\<rparr>)
      \<and> handleMessage (protocol_run libs shape dyn rd sk callM (beat_callR provB now3)) reads ctx
          (Some (conn_message mid TypeHeartbeat (of_nat (length p)))) (B\<lparr>input := c\<rparr>) = Some (None, Some msg, B')
      \<and> wire B' = wire B @ frame mid (TypeHeartbeat + 100) q
      \<and> Received (hbState (heart B')) = now3 \<and> Health (hbState (heart B')) = snapshotHealth provA (heart A))"
proof
  let ?P = "ping_payload provA now1 (heart A)"
  let ?Q = "\<lparr>SentAt = now1, pStatus = HeartbeatStatusOK, pHealth = snapshotHealth provB (heart B)\<rparr>"
  let ?A = "on_heart (ping_sent ?P) A"
  have ctx: "with_timeout expired ctx = (\<lambda>n. None)" "ctx = (\<lambda>n. None)" using assms(4,5) by (simp_all add: with_timeout_def fun_eq_iff)
  have p: "codec_Encode libs (beat_codec TypeHeartbeat) ?P = Inr p" "length p < 2 ^ 32"
    "unmarshal (msgpack libs) beat_type p = Inr ?P"
    using assms(10) by (simp_all add: codes_def codec_Encode_def beat_codec_def encodeWith_def)
  have q: "unmarshal (msgpack libs) beat_type q = Inr ?Q" "length q < 2 ^ 32" "marshal (msgpack libs) ?Q = Inr q"
    using assms(11) by (simp_all add: codes_def)
  have A: "plainly_connected ?A" "fits ?A (of_nat (length p))" "quiet (\<lambda>n. None) ?A" "pendingResponses (respTable ?A) mid = None"
    using assms(2,6) by (simp_all add: on_heart_def can_send_def plainly_connected_def fits_def quiet_def)
  obtain s1 where s1: "R_Request libs shape dyn rd sk rand (with_timeout expired ctx) (Some (beat_robj a)) ?P
      [Incoming \<lparr>ID = mid, MsgType = TypeHeartbeat + 100, Length = of_nat (length q)\<rparr>, RespReady] q ?A = Some (Inr (Plain ?Q), s1)"
    "wire s1 = wire ?A @ frame mid TypeHeartbeat p" "heart s1 = heart ?A"
    using heartbeat_request(2) [OF assms(8,9) p(1,2) A q(1,2)] ctx(1) by metis
  then show "\<exists>A'. ping libs shape dyn rd sk rand provA now1 now2 expired ctx \<lparr>transport = beat_robj a\<rparr>
        [Incoming \<lparr>ID = mid, MsgType = TypeHeartbeat + 100, Length = of_nat (length q)\<rparr>, RespReady] q A = Some (None, A')
      \<and> wire A' = wire A @ frame mid TypeHeartbeat p
      \<and> hbState (heart A') = \<lparr>Sent = now1, Received = now2, Status = HeartbeatStatusOK, Health = snapshotHealth provB (heart B)\<rparr>"
    by (simp add: ping_def Let_def) (simp add: on_heart_def heard_def ping_sent_def ping_payload_def)
  have cB: "connected B" using assms(3) by (simp add: can_send_def plainly_connected_def)
  obtain c where c: "readHeader B = Some (Inr \<lparr>ID = mid, MsgType = TypeHeartbeat, Length = of_nat (length p), payloadReader = None,
      payloadCache = None\<rparr>, B\<lparr>input := c\<rparr>)" "conn_avail c = p @ frames fs"
    using readHeader_acceptable [OF cB assms(13,12)] by blast
  let ?B = "B\<lparr>input := c\<rparr>"
  have B: "has_heartbeat b ?B" "plainly_connected ?B" "fits ?B (of_nat (length q))" "quiet ctx ?B"
    "pendingResponses (respTable ?B) mid = None" "conn_avail (input ?B) = p @ frames fs"
    using assms(1,3,7) c(2) ctx(2) by (simp_all add: has_heartbeat_def can_send_def plainly_connected_def fits_def quiet_def)
  have m: "marshal (msgpack libs) \<lparr>SentAt = SentAt ?P, pStatus = HeartbeatStatusOK, pHealth = snapshotHealth provB (heart ?B)\<rparr> = Inr q"
    using q(3) by (simp add: ping_payload_def)
  from heartbeat_answer [OF B(1,2) p(3,2) m q(2) B(3,6) assms(9) B(4,5), of shape dyn rd sk callM now3 reads]
  show "\<exists>c msg B'. readHeader B = Some (Inr \<lparr>ID = mid, MsgType = TypeHeartbeat, Length = of_nat (length p), payloadReader = None,
          payloadCache = None\<rparr>, B\<lparr>input := c\<rparr>)
      \<and> handleMessage (protocol_run libs shape dyn rd sk callM (beat_callR provB now3)) reads ctx
          (Some (conn_message mid TypeHeartbeat (of_nat (length p)))) (B\<lparr>input := c\<rparr>) = Some (None, Some msg, B')
      \<and> wire B' = wire B @ frame mid (TypeHeartbeat + 100) q
      \<and> Received (hbState (heart B')) = now3 \<and> Health (hbState (heart B')) = snapshotHealth provA (heart A)"
    using c(1) by (intro exI [of _ c]) (auto simp: heard_def ping_payload_def)
qed

theorem heartbeat_exchange_witness:
  "\<exists>A' msg B' c. ping beat_libraries (\<lambda>_. ToOther) (\<lambda>_. NotASource) bytes_read None (\<lambda>k. Inr [0, 0, 0, 0, 0, 0, 0, 7]) (\<lambda>g. None) 5 6
        (\<lambda>n. False) (\<lambda>_. None) \<lparr>transport = beat_robj 1\<rparr>
        [Incoming \<lparr>ID = 7, MsgType = TypeHeartbeat + 100, Length = 2\<rparr>, RespReady] [1, 0] beat_peer = Some (None, A')
    \<and> Status (hbState (heart A')) = HeartbeatStatusOK
    \<and> handleMessage (protocol_run beat_libraries (\<lambda>_. ToOther) (\<lambda>_. NotASource) bytes_read None (\<lambda>f ctx v msg s. None)
        (beat_callR (\<lambda>g. None) 9)) (\<lambda>_. None) (\<lambda>_. None) (Some (conn_message 7 TypeHeartbeat 2)) (answering_peer\<lparr>input := c\<rparr>) =
          Some (None, Some msg, B')
    \<and> wire B' = frame 7 (TypeHeartbeat + 100) [1, 0]"
proof -
  let ?rand = "\<lambda>k :: nat. Inr [0, 0, 0, 0, 0, 0, 0, 7] :: byte list result"
  have i: "Uint64 [0, 0, 0, 0, 0, 0, 0, 7] = 7" by code_simp
  have g: "generateID ?rand 0 = Some (Inr 7, 1)" by (simp add: generateID_def newMessageID.simps i)
  have c: "codes beat_libraries (ping_payload (\<lambda>g. None) 5 (heart beat_peer)) [1, 0]"
    "codes beat_libraries \<lparr>SentAt = 5, pStatus = HeartbeatStatusOK, pHealth = snapshotHealth (\<lambda>g. None) (heart answering_peer)\<rparr> [1, 0]"
    by (simp_all add: codes_def beat_libraries_def beat_library_def ping_payload_def beat_peer_def answering_peer_def new_heart_def
        snapshotHealth_def HeartbeatStatusOK_def)
  have p: "has_heartbeat 1 answering_peer" "can_send beat_peer [1, 0]" "can_send answering_peer [1, 0]"
    "pendingResponses (respTable beat_peer) 7 = None" "pendingResponses (respTable answering_peer) 7 = None"
    "acceptable (messenger.config answering_peer) (7, TypeHeartbeat, [1, 0])"
    "conn_avail (input answering_peer) = frames ((7, TypeHeartbeat, [1, 0]) # [])" "wire answering_peer = []"
    by (simp_all add: answering_peer_def beat_peer_def has_heartbeat_def can_send_def plainly_connected_def fits_def no_responses_def
        plain_messenger_def acceptable_def)
  have two: "of_nat (length [1 :: byte, 0]) = (2 :: 32 word)" by simp
  have n: "(7 :: 64 word) \<noteq> 0" by simp
  from heartbeat_exchange [OF p(1-3) refl not_False_eq_True [THEN eqTrueE] p(4,5) g n c p(6,7), of "\<lambda>_. ToOther" "\<lambda>_. NotASource"
      bytes_read None 6 1 "\<lambda>f ctx v msg s. None" 9 "\<lambda>_. None"]
  obtain A' c msg B' where "ping beat_libraries (\<lambda>_. ToOther) (\<lambda>_. NotASource) bytes_read None ?rand (\<lambda>g. None) 5 6
        (\<lambda>n. False) (\<lambda>_. None) \<lparr>transport = beat_robj 1\<rparr>
        [Incoming \<lparr>ID = 7, MsgType = TypeHeartbeat + 100, Length = 2\<rparr>, RespReady] [1, 0] beat_peer = Some (None, A')"
    "hbState (heart A') = \<lparr>Sent = 5, Received = 6, Status = HeartbeatStatusOK, Health = snapshotHealth (\<lambda>g. None) (heart answering_peer)\<rparr>"
    "handleMessage (protocol_run beat_libraries (\<lambda>_. ToOther) (\<lambda>_. NotASource) bytes_read None (\<lambda>f ctx v msg s. None)
        (beat_callR (\<lambda>g. None) 9)) (\<lambda>_. None) (\<lambda>_. None) (Some (conn_message 7 TypeHeartbeat 2)) (answering_peer\<lparr>input := c\<rparr>) =
          Some (None, Some msg, B')"
    "wire B' = frame 7 (TypeHeartbeat + 100) [1, 0]"
    unfolding two p(8) append_Nil by (elim conjE exE)
  then show ?thesis by (intro exI [of _ A'] exI [of _ msg] exI [of _ B'] exI [of _ c]) simp
qed

end
